(* ===== verification/Prelude.thy ===== *)
theory Prelude
  imports Main "HOL-Library.Word"
begin

text \<open>
  Generic material shared by the components: the machine integers of the C++ code, the
  character classes of the C locale, the outcome types used for errors, and facts on lists.

  The server is compiled for targets where \<open>char\<close> has 8 bits, \<open>short\<close> 16 and \<open>int\<close> 32.
  A value stored into a field of a narrower type is reduced with \<open>u8\<close>, \<open>u16\<close>, \<open>s16\<close> or
  \<open>s32\<close>; where the code relies on what happens at overflow (it tests \<open>a + b < 0\<close>),
  the two's complement result is written out with \<open>s32\<close>.
\<close>

named_theorems width_simps \<open>integer widths: a value in range is unchanged\<close>
named_theorems char_simps \<open>unfolding of the character classes\<close>

section \<open>Machine integers\<close>

definition u8 :: "int \<Rightarrow> int" where
  "u8 x = x mod 256"

definition u16 :: "int \<Rightarrow> int" where
  "u16 x = x mod 65536"

definition s16 :: "int \<Rightarrow> int" where
  "s16 x = (x + 32768) mod 65536 - 32768"

definition s32 :: "int \<Rightarrow> int" where
  "s32 x = (x + 2147483648) mod 4294967296 - 2147483648"

definition clamp :: "int \<Rightarrow> int \<Rightarrow> int \<Rightarrow> int" where
  "clamp val lo hi = min (max val lo) hi"

definition int_max :: int where
  "int_max = 2147483647"

lemma u8_id [width_simps]: "0 \<le> x \<Longrightarrow> x < 256 \<Longrightarrow> u8 x = x"
  by (simp add: u8_def)

lemma u16_id [width_simps]: "0 \<le> x \<Longrightarrow> x < 65536 \<Longrightarrow> u16 x = x"
  by (simp add: u16_def)

lemma s16_id [width_simps]: "- 32768 \<le> x \<Longrightarrow> x < 32768 \<Longrightarrow> s16 x = x"
  by (simp add: s16_def)

lemma s32_id [width_simps]: "- 2147483648 \<le> x \<Longrightarrow> x \<le> int_max \<Longrightarrow> s32 x = x"
  by (simp add: s32_def int_max_def)

lemma u8_range: "0 \<le> u8 x \<and> u8 x < 256"
  by (simp add: u8_def)

lemma s16_range: "- 32768 \<le> s16 x \<and> s16 x < 32768"
  by (simp add: s16_def)

lemma s32_range: "- 2147483648 \<le> s32 x \<and> s32 x \<le> int_max"
  by (simp add: s32_def int_max_def)

lemma s32_wrap: "int_max < x \<Longrightarrow> x \<le> 2 * int_max \<Longrightarrow> s32 x = x - 4294967296"
  by (simp add: s32_def int_max_def mod_pos_geq)

text \<open>The test for overflow that the code uses, \<open>a + b < 0\<close>, is exact for two numbers that are not
  negative.\<close>

lemma s32_add_nonneg:
  assumes "0 \<le> a" "a \<le> int_max" "0 \<le> b" "b \<le> int_max"
  shows "0 \<le> s32 (a + b) \<longleftrightarrow> a + b \<le> int_max"
proof (cases "a + b \<le> int_max")
  case True
  then show ?thesis using assms by (simp add: s32_id)
next
  case False
  then show ?thesis using assms by (simp add: s32_wrap int_max_def)
qed

section \<open>Characters\<close>

text \<open>The code of a character, as an \<open>unsigned char\<close>.\<close>

definition ccode :: "char \<Rightarrow> nat" where
  "ccode c = of_char c"

definition is_digit_char :: "char \<Rightarrow> bool" where
  [char_simps]: "is_digit_char c = (48 \<le> ccode c \<and> ccode c \<le> 57)"

definition is_upper_char :: "char \<Rightarrow> bool" where
  [char_simps]: "is_upper_char c = (65 \<le> ccode c \<and> ccode c \<le> 90)"

definition is_lower_char :: "char \<Rightarrow> bool" where
  [char_simps]: "is_lower_char c = (97 \<le> ccode c \<and> ccode c \<le> 122)"

definition is_alpha_char :: "char \<Rightarrow> bool" where
  [char_simps]: "is_alpha_char c = (is_upper_char c \<or> is_lower_char c)"

definition is_space_char :: "char \<Rightarrow> bool" where
  [char_simps]: "is_space_char c = (ccode c = 32 \<or> 9 \<le> ccode c \<and> ccode c \<le> 13)"

text \<open>\<open>std::tolower\<close> and \<open>std::toupper\<close> in the C locale: only the ASCII letters change.\<close>

definition to_lower :: "char \<Rightarrow> char" where
  "to_lower c = (if is_upper_char c then char_of (ccode c + 32) else c)"

definition to_upper :: "char \<Rightarrow> char" where
  "to_upper c = (if is_lower_char c then char_of (ccode c - 32) else c)"

text \<open>The code of a digit and the value it stands for.\<close>

definition digit_value :: "char \<Rightarrow> int" where
  "digit_value c = int (ccode c) - 48"

definition digit_char :: "nat \<Rightarrow> char" where
  "digit_char d = char_of (48 + d)"

lemma ccode_less [simp]: "ccode c < 256"
  by (simp add: ccode_def)

lemma ccode_inj [simp]: "ccode c = ccode d \<longleftrightarrow> c = d"
  by (simp add: ccode_def)

lemma ccode_char_of [simp]: "ccode (char_of n) = n mod 256"
  by (simp add: ccode_def)

lemma ccode_digit_char [simp]: "d < 10 \<Longrightarrow> ccode (digit_char d) = 48 + d"
  by (simp add: digit_char_def)

lemma is_digit_digit_char [simp]: "d < 10 \<Longrightarrow> is_digit_char (digit_char d)"
  by (simp add: is_digit_char_def)

lemma digit_value_digit_char [simp]: "d < 10 \<Longrightarrow> digit_value (digit_char d) = int d"
  by (simp add: digit_value_def)

lemma digit_value_range: "is_digit_char c \<Longrightarrow> 0 \<le> digit_value c \<and> digit_value c \<le> 9"
  by (auto simp: digit_value_def is_digit_char_def)

lemma to_lower_id [simp]: "\<not> is_upper_char c \<Longrightarrow> to_lower c = c"
  by (simp add: to_lower_def)

lemma to_lower_not_upper [simp]: "\<not> is_upper_char (to_lower c)"
  by (auto simp: to_lower_def is_upper_char_def)

lemma to_lower_idem [simp]: "to_lower (to_lower c) = to_lower c"
  by simp

section \<open>Decimal numerals\<close>

fun dec_of_nat :: "nat \<Rightarrow> string" where
  "dec_of_nat n = (if n < 10 then [digit_char n] else dec_of_nat (n div 10) @ [digit_char (n mod 10)])"

declare dec_of_nat.simps [simp del]

text \<open>\<open>snprintf\<close> with \<open>%i\<close>.\<close>

definition dec_of_int :: "int \<Rightarrow> string" where
  "dec_of_int i = (if i < 0 then CHR ''-'' # dec_of_nat (nat (- i)) else dec_of_nat (nat i))"

text \<open>The value of a digit string, read from the left from the value \<open>acc\<close>.\<close>

definition dec_value :: "int \<Rightarrow> string \<Rightarrow> int" where
  "dec_value acc cs = foldl (\<lambda>n c. 10 * n + digit_value c) acc cs"

lemma dec_value_Nil [simp]: "dec_value acc [] = acc"
  by (simp add: dec_value_def)

lemma dec_value_Cons [simp]: "dec_value acc (c # cs) = dec_value (10 * acc + digit_value c) cs"
  by (simp add: dec_value_def)

lemma dec_value_append [simp]: "dec_value acc (cs @ ds) = dec_value (dec_value acc cs) ds"
  by (simp add: dec_value_def)

lemma dec_of_nat_digits: "c \<in> set (dec_of_nat n) \<Longrightarrow> is_digit_char c"
proof (induction n rule: dec_of_nat.induct)
  case (1 n)
  show ?case
  proof (cases "n < 10")
    case True
    with "1.prems" show ?thesis by (simp add: dec_of_nat.simps [of n])
  next
    case False
    with 1 show ?thesis by (auto simp: dec_of_nat.simps [of n])
  qed
qed

lemma dec_of_nat_nonempty [simp]: "dec_of_nat n \<noteq> []"
  by (subst dec_of_nat.simps) simp

lemma dec_value_dec_of_nat [simp]: "dec_value 0 (dec_of_nat n) = int n"
proof (induction n rule: dec_of_nat.induct)
  case (1 n)
  show ?case
  proof (cases "n < 10")
    case True
    then show ?thesis by (simp add: dec_of_nat.simps [of n])
  next
    case False
    have "10 * int (n div 10) + int (n mod 10) = int n" by presburger
    with False 1 show ?thesis by (simp add: dec_of_nat.simps [of n])
  qed
qed

lemma dec_value_mono: "\<forall>c \<in> set cs. is_digit_char c \<Longrightarrow> 0 \<le> acc \<Longrightarrow> acc \<le> dec_value acc cs"
proof (induction cs arbitrary: acc)
  case Nil
  then show ?case by simp
next
  case (Cons c cs)
  then have "0 \<le> digit_value c" using digit_value_range by simp
  with Cons show ?case by (smt (verit) dec_value_Cons list.set_intros)
qed

section \<open>Lists\<close>

text \<open>
  The loops \<open>UTIL_IFOREACH (c, it) if (it->id == id) \<dots>\<close> act on the first element that
  matches: \<open>update_first\<close> replaces it, \<open>remove1_first\<close> erases it.
\<close>

fun update_first :: "('a \<Rightarrow> bool) \<Rightarrow> ('a \<Rightarrow> 'a) \<Rightarrow> 'a list \<Rightarrow> 'a list" where
  "update_first P f [] = []"
| "update_first P f (x # xs) = (if P x then f x # xs else x # update_first P f xs)"

fun remove_first :: "('a \<Rightarrow> bool) \<Rightarrow> 'a list \<Rightarrow> 'a list" where
  "remove_first P [] = []"
| "remove_first P (x # xs) = (if P x then xs else x # remove_first P xs)"

lemma length_update_first [simp]: "length (update_first P f xs) = length xs"
  by (induction xs) auto

lemma length_remove_first:
  "length (remove_first P xs) = (if \<exists>x \<in> set xs. P x then length xs - 1 else length xs)"
  by (induction xs) (auto, metis One_nat_def Suc_pred length_pos_if_in_set)

lemma set_remove_first_subset: "set (remove_first P xs) \<subseteq> set xs"
  by (induction xs) auto

lemma set_update_first_subset: "set (update_first P f xs) \<subseteq> set xs \<union> f ` set xs"
  by (induction xs) auto

lemma map_update_first:
  "(\<And>x. P x \<Longrightarrow> g (f x) = g x) \<Longrightarrow> map g (update_first P f xs) = map g xs"
  by (induction xs) auto

lemma update_first_none: "find P xs = None \<Longrightarrow> update_first P f xs = xs"
  by (induction xs) (auto split: if_splits)

lemma remove_first_none: "find P xs = None \<Longrightarrow> remove_first P xs = xs"
  by (induction xs) (auto split: if_splits)

lemma distinct_map_remove_first: "distinct (map g xs) \<Longrightarrow> distinct (map g (remove_first P xs))"
  using set_remove_first_subset by (induction xs) fastforce+

lemma find_SomeD: "find P xs = Some x \<Longrightarrow> P x \<and> x \<in> set xs"
  by (induction xs) (auto split: if_splits)

end
