(* ===== verification/EOPlus_Types.thy ===== *)
theory EOPlus_Types
  imports Prelude
begin

text \<open>
  The data model of the EO+ quest language (\<^verbatim>\<open>src/eoplus.hpp\<close>, \<^verbatim>\<open>src/fwd/eoplus.hpp\<close>,
  \<^verbatim>\<open>src/eoplus.cpp\<close>): operators and their hash, tokens, and the quest that the parser
  builds. A token's payload is a \<open>util::variant\<close>; the lexer and the parser only store
  integers, strings and booleans in it, so the floating point case is left out.
\<close>

section \<open>Operators\<close>

text \<open>\<open>UOP2(a, b)\<close>: the hash of an operator's two characters, an \<open>unsigned char\<close>.\<close>

definition uop2 :: "char \<Rightarrow> char \<Rightarrow> int" where
  "uop2 a b = u8 ((int (ccode a) - 32) + int (ccode b) * 4)"

definition NUL :: char where
  "NUL = char_of (0 :: nat)"

definition UOP_ALT :: char where
  "UOP_ALT = char_of (2 :: nat)"

definition uop1 :: "char \<Rightarrow> int" where
  "uop1 a = uop2 a NUL"

datatype operator_assoc = ASSOC_NONE | ASSOC_RIGHT | ASSOC_LEFT

datatype operator_args = OP_UNARY | OP_BINARY

datatype operator =
    LeftParens | RightParens | BitAnd | LogicalAnd | BitOr | LogicalOr | Assign | Equality
  | Inequality | LessThan | LessThanEqual | GreaterThan | GreaterThanEqual | Add | Subtract
  | Multiply | Divide | Modulo | BitNot | LogicalNot | Negate

text \<open>The characters each operator is made of, and its value as an enumerator.\<close>

fun op_chars :: "operator \<Rightarrow> char \<times> char" where
  "op_chars LeftParens = (CHR ''('', NUL)"
| "op_chars RightParens = (CHR '')'', NUL)"
| "op_chars BitAnd = (CHR ''&'', NUL)"
| "op_chars LogicalAnd = (CHR ''&'', CHR ''&'')"
| "op_chars BitOr = (CHR ''|'', NUL)"
| "op_chars LogicalOr = (CHR ''|'', CHR ''|'')"
| "op_chars Assign = (CHR ''='', NUL)"
| "op_chars Equality = (CHR ''='', CHR ''='')"
| "op_chars Inequality = (CHR ''!'', CHR ''='')"
| "op_chars LessThan = (CHR ''<'', NUL)"
| "op_chars LessThanEqual = (CHR ''<'', CHR ''='')"
| "op_chars GreaterThan = (CHR ''>'', NUL)"
| "op_chars GreaterThanEqual = (CHR ''>'', CHR ''='')"
| "op_chars Add = (CHR ''+'', NUL)"
| "op_chars Subtract = (CHR ''-'', NUL)"
| "op_chars Multiply = (CHR ''*'', NUL)"
| "op_chars Divide = (CHR ''/'', NUL)"
| "op_chars Modulo = (CHR ''%'', NUL)"
| "op_chars BitNot = (CHR ''~'', NUL)"
| "op_chars LogicalNot = (CHR ''!'', NUL)"
| "op_chars Negate = (CHR ''-'', UOP_ALT)"

definition op_code :: "operator \<Rightarrow> int" where
  "op_code op = (case op_chars op of (a, b) \<Rightarrow> uop2 a b)"

text \<open>
  \<open>OperatorInfo\<close>. The default entry of the look-up table (\<open>Operator(0)\<close> and zeroes) is not
  an enumerator, so \<open>oi_op\<close> holds the hash value.
\<close>

record operator_info =
  oi_op :: int
  oi_args :: int
  oi_prec :: int
  oi_assoc :: operator_assoc

fun args_code :: "operator_args \<Rightarrow> int" where
  "args_code OP_UNARY = 1"
| "args_code OP_BINARY = 2"

definition mk_info :: "operator \<Rightarrow> operator_args \<Rightarrow> int \<Rightarrow> operator_assoc \<Rightarrow> operator_info" where
  "mk_info op a p s = \<lparr>oi_op = op_code op, oi_args = args_code a, oi_prec = p, oi_assoc = s\<rparr>"

definition op_info_table :: "operator_info list" where
  "op_info_table =
    [mk_info LeftParens OP_BINARY 0 ASSOC_NONE,
     mk_info RightParens OP_BINARY 0 ASSOC_NONE,
     mk_info BitAnd OP_BINARY 2 ASSOC_RIGHT,
     mk_info LogicalAnd OP_BINARY 2 ASSOC_RIGHT,
     mk_info BitOr OP_BINARY 2 ASSOC_RIGHT,
     mk_info LogicalOr OP_BINARY 2 ASSOC_RIGHT,
     mk_info Equality OP_BINARY 3 ASSOC_RIGHT,
     mk_info Inequality OP_BINARY 3 ASSOC_RIGHT,
     mk_info LessThan OP_BINARY 3 ASSOC_RIGHT,
     mk_info LessThanEqual OP_BINARY 3 ASSOC_RIGHT,
     mk_info GreaterThan OP_BINARY 3 ASSOC_RIGHT,
     mk_info GreaterThanEqual OP_BINARY 3 ASSOC_RIGHT,
     mk_info Add OP_BINARY 5 ASSOC_RIGHT,
     mk_info Subtract OP_BINARY 5 ASSOC_RIGHT,
     mk_info Multiply OP_BINARY 6 ASSOC_RIGHT,
     mk_info Divide OP_BINARY 6 ASSOC_RIGHT,
     mk_info Modulo OP_BINARY 6 ASSOC_RIGHT,
     mk_info LogicalNot OP_UNARY 8 ASSOC_NONE,
     mk_info Negate OP_UNARY 8 ASSOC_NONE]"

text \<open>\<open>op_info_lut[0x100] = {}\<close>: every entry zero, \<open>ASSOC_NONE\<close> being 0.\<close>

definition op_info_zero :: operator_info where
  "op_info_zero = \<lparr>oi_op = 0, oi_args = 0, oi_prec = 0, oi_assoc = ASSOC_NONE\<rparr>"

text \<open>
  \<open>op_info_lut_init\<close>: fills the table, or throws \<open>UOP2 hash collision\<close> (\<open>None\<close>) when
  two rows have the same hash.
\<close>

fun lut_fill :: "operator_info list \<Rightarrow> operator_info list \<Rightarrow> operator_info list option" where
  "lut_fill [] lut = Some lut"
| "lut_fill (r # rs) lut =
     (if oi_op (lut ! nat (u8 (oi_op r))) \<noteq> 0 then None
      else lut_fill rs (lut[nat (u8 (oi_op r)) := r]))"

definition op_info_lut_init :: "operator_info list option" where
  "op_info_lut_init = lut_fill op_info_table (replicate 256 op_info_zero)"

definition op_info :: "operator_info list \<Rightarrow> int \<Rightarrow> operator_info" where
  "op_info lut op = lut ! nat (u8 op)"

lemma op_code_simps [simp]:
  "op_code LeftParens = 8" "op_code RightParens = 9" "op_code BitAnd = 6"
  "op_code LogicalAnd = 158" "op_code BitOr = 92" "op_code LogicalOr = 76"
  "op_code Assign = 29" "op_code Equality = 17" "op_code Inequality = 245"
  "op_code LessThan = 28" "op_code LessThanEqual = 16" "op_code GreaterThan = 30"
  "op_code GreaterThanEqual = 18" "op_code Add = 11" "op_code Subtract = 13"
  "op_code Multiply = 10" "op_code Divide = 15" "op_code Modulo = 5"
  "op_code BitNot = 94" "op_code LogicalNot = 1" "op_code Negate = 21"
  by (simp_all add: op_code_def uop2_def u8_def ccode_def NUL_def UOP_ALT_def)

lemma op_code_byte: "0 \<le> op_code op \<and> op_code op < 256"
  by (simp add: op_code_def uop2_def u8_def split: prod.splits)

lemma op_code_inj [simp]: "op_code a = op_code b \<longleftrightarrow> a = b"
  by (cases a; cases b) simp_all

lemma uop1_simps [simp]:
  "uop1 (CHR ''('') = 8" "uop1 (CHR '')'') = 9" "uop1 (CHR ''/'') = 15"
  by (simp_all add: uop1_def uop2_def u8_def ccode_def NUL_def)

text \<open>The look-up table is filled without a collision when the rows' hashes differ.\<close>

lemma lut_fill_distinct:
  assumes "distinct (map oi_op rs)" and "\<forall>r \<in> set rs. 0 < oi_op r \<and> oi_op r < 256"
    and "length lut = 256" and "\<forall>r \<in> set rs. oi_op (lut ! nat (oi_op r)) = 0"
  shows "\<exists>lut'. lut_fill rs lut = Some lut' \<and> length lut' = 256
    \<and> (\<forall>r \<in> set rs. lut' ! nat (oi_op r) = r)
    \<and> (\<forall>i < 256. (\<forall>r \<in> set rs. nat (oi_op r) \<noteq> i) \<longrightarrow> lut' ! i = lut ! i)"
  using assms
proof (induction rs arbitrary: lut)
  case Nil
  then show ?case by simp
next
  case (Cons r rs)
  let ?lut = "lut[nat (oi_op r) := r]"
  have r: "0 < oi_op r" "oi_op r < 256" and u8r: "u8 (oi_op r) = oi_op r"
    using Cons.prems(2) by (auto simp: width_simps)
  have neq: "nat (oi_op r') \<noteq> nat (oi_op r)" if "r' \<in> set rs" for r'
    using that Cons.prems(1,2) r by (metis distinct.simps(2) image_eqI list.set_map list.simps(9)
        list.set_intros(2) nat_eq_iff2 nat_0_le order_less_imp_le)
  have zero: "\<forall>r' \<in> set rs. oi_op (?lut ! nat (oi_op r')) = 0"
  proof
    fix r'
    assume r': "r' \<in> set rs"
    then have "?lut ! nat (oi_op r') = lut ! nat (oi_op r')"
      by (metis neq nth_list_update_neq)
    with r' Cons.prems(4) show "oi_op (?lut ! nat (oi_op r')) = 0" by simp
  qed
  have "\<exists>lut'. lut_fill rs ?lut = Some lut' \<and> length lut' = 256
    \<and> (\<forall>r \<in> set rs. lut' ! nat (oi_op r) = r)
    \<and> (\<forall>i < 256. (\<forall>r \<in> set rs. nat (oi_op r) \<noteq> i) \<longrightarrow> lut' ! i = ?lut ! i)"
    using Cons.prems zero by (intro Cons.IH) auto
  then obtain lut' where lut': "lut_fill rs ?lut = Some lut'" "length lut' = 256"
      "\<forall>r \<in> set rs. lut' ! nat (oi_op r) = r"
      "\<forall>i < 256. (\<forall>r \<in> set rs. nat (oi_op r) \<noteq> i) \<longrightarrow> lut' ! i = ?lut ! i"
    by blast
  have "nat (oi_op r) < 256" using r by simp
  with lut' neq have "lut' ! nat (oi_op r) = r"
    using Cons.prems(3) by (metis nth_list_update_eq)
  with lut' Cons.prems show ?case
    by (intro exI [of _ lut']) (auto simp: u8r nth_list_update)
qed

section \<open>Tokens\<close>

datatype variant = VInt int | VString string | VBool bool

text \<open>
  \<open>util::variant\<close> conversions as the lexer and the parser use them: \<open>std::string(v)\<close>,
  and \<open>int(v)\<close>, which goes through the floating point parser \<open>tdparse\<close> for a string. That
  is 0 for a string without a digit, such as the symbol the parser converts; the other
  strings, which the lexer and the parser never convert, are \<open>None\<close>.
\<close>

fun variant_string :: "variant \<Rightarrow> string" where
  "variant_string (VInt i) = dec_of_int i"
| "variant_string (VString s) = s"
| "variant_string (VBool b) = (if b then ''yes'' else ''no'')"

fun variant_int :: "variant \<Rightarrow> int option" where
  "variant_int (VInt i) = Some i"
| "variant_int (VString s) = (if \<exists>c \<in> set s. is_digit_char c then None else Some 0)"
| "variant_int (VBool b) = Some (if b then 0 else - 1)"

fun variant_bool :: "variant \<Rightarrow> bool option" where
  "variant_bool (VInt i) = Some (i \<noteq> 0)"
| "variant_bool (VString s) = None"
| "variant_bool (VBool b) = Some b"

datatype token_type =
    Tok_Invalid | Tok_Identifier | Tok_String | Tok_Integer | Tok_Float | Tok_Boolean
  | Tok_Operator | Tok_Symbol | Tok_NewLine | Tok_EndOfFile

fun tt_code :: "token_type \<Rightarrow> nat" where
  "tt_code Tok_Invalid = 0"
| "tt_code Tok_Identifier = 1"
| "tt_code Tok_String = 2"
| "tt_code Tok_Integer = 4"
| "tt_code Tok_Float = 8"
| "tt_code Tok_Boolean = 16"
| "tt_code Tok_Operator = 32"
| "tt_code Tok_Symbol = 64"
| "tt_code Tok_NewLine = 128"
| "tt_code Tok_EndOfFile = 256"

record token =
  tk_type :: token_type
  tk_data :: variant
  tk_newlines :: int

definition mk_token :: "token_type \<Rightarrow> variant \<Rightarrow> token" where
  "mk_token ty v = \<lparr>tk_type = ty, tk_data = v, tk_newlines = 0\<rparr>"

text \<open>\<open>Token()\<close>, and \<open>Token(type)\<close> with the default payload \<open>variant()\<close>, the integer 0.\<close>

definition no_token :: token where
  "no_token = mk_token Tok_Invalid (VInt 0)"

definition token_of_type :: "token_type \<Rightarrow> token" where
  "token_of_type ty = mk_token ty (VInt 0)"

definition token_ok :: "token \<Rightarrow> bool" where
  "token_ok t = (tk_type t \<noteq> Tok_Invalid)"

lemma mk_token_sel [simp]:
  "tk_type (mk_token ty v) = ty" "tk_data (mk_token ty v) = v" "tk_newlines (mk_token ty v) = 0"
  by (simp_all add: mk_token_def)

lemma mk_token_eq [simp]: "mk_token ty v = mk_token ty' v' \<longleftrightarrow> ty = ty' \<and> v = v'"
  by (auto simp: mk_token_def)

lemma token_ok_mk_token [simp]: "token_ok (mk_token ty v) \<longleftrightarrow> ty \<noteq> Tok_Invalid"
  by (simp add: token_ok_def)

lemma no_token_not_ok [simp]: "\<not> token_ok no_token"
  by (simp add: no_token_def)

section \<open>Quests\<close>

datatype scope_type = Scope_Default | Scope_Character | Scope_NPC | Scope_Map | Scope_World

record scope =
  sc_type :: scope_type
  sc_args :: "variant list"

record expression =
  ex_scopes :: "scope list"
  ex_function :: string
  ex_args :: "variant list"

definition empty_expression :: expression where
  "empty_expression = \<lparr>ex_scopes = [], ex_function = '''', ex_args = []\<rparr>"

datatype conditional_type = Cond_None | Cond_If | Cond_Else | Cond_ElseIf

record action =
  ac_cond :: conditional_type
  ac_cond_expr :: expression
  ac_expr :: expression

record rule =
  ru_expr :: expression
  ru_action :: action

datatype hidden_type = NotHidden | Hidden | HiddenEnd

record quest_info =
  qi_name :: string
  qi_version :: "32 word"
  qi_hidden :: hidden_type
  qi_disabled :: bool

definition info_init :: quest_info where
  "info_init = \<lparr>qi_name = '''', qi_version = 0, qi_hidden = NotHidden, qi_disabled = False\<rparr>"

record quest_state =
  qs_name :: string
  qs_has_desc :: bool
  qs_desc :: string
  qs_rules :: "rule list"
  qs_actions :: "action list"
  qs_goal_rule :: nat

definition state_init :: quest_state where
  "state_init = \<lparr>qs_name = '''', qs_has_desc = False, qs_desc = '''', qs_rules = [],
     qs_actions = [], qs_goal_rule = 0\<rparr>"

text \<open>\<open>std::map<std::string, State>\<close> as the map it stands for.\<close>

record quest =
  qu_has_info :: bool
  qu_info :: quest_info
  qu_states :: "string \<rightharpoonup> quest_state"

definition quest_init :: quest where
  "quest_init = \<lparr>qu_has_info = False, qu_info = info_init, qu_states = Map.empty\<rparr>"

section \<open>Properties of the operator table\<close>

text \<open>the static initialiser of the operator look-up table never throws
  \<open>UOP2 hash collision\<close>: it builds a table of 256 entries in which every row of
  \<open>op_info_table\<close> is found under its operator's hash.\<close>

theorem op_info_lut_complete:
  "\<exists>lut. op_info_lut_init = Some lut \<and> length lut = 256
     \<and> list_all (\<lambda>r. op_info lut (oi_op r) = r) op_info_table
     \<and> op_info lut (op_code Assign) = op_info_zero \<and> op_info lut (op_code BitNot) = op_info_zero"
proof -
  let ?z = "replicate 256 op_info_zero"
  have d: "distinct (map oi_op op_info_table)"
    by (simp add: op_info_table_def mk_info_def)
  have b: "\<forall>r \<in> set op_info_table. 0 < oi_op r \<and> oi_op r < 256"
    by (simp add: op_info_table_def mk_info_def)
  have z: "\<forall>r \<in> set op_info_table. oi_op (?z ! nat (oi_op r)) = 0"
  proof
    fix r
    assume "r \<in> set op_info_table"
    with b have "nat (oi_op r) < 256" by auto
    then show "oi_op (?z ! nat (oi_op r)) = 0" by (simp add: op_info_zero_def)
  qed
  obtain lut where lut: "lut_fill op_info_table ?z = Some lut" "length lut = 256"
      "\<forall>r \<in> set op_info_table. lut ! nat (oi_op r) = r"
      "\<forall>i < 256. (\<forall>r \<in> set op_info_table. nat (oi_op r) \<noteq> i) \<longrightarrow> lut ! i = ?z ! i"
    using lut_fill_distinct [OF d b _ z] by auto
  have "lut ! 29 = op_info_zero" "lut ! 94 = op_info_zero"
    using lut(4) by (simp_all add: op_info_table_def mk_info_def)
  with lut b show ?thesis
    by (auto simp: op_info_lut_init_def op_info_def width_simps list_all_iff)
qed

end
