(* ===== verification/EOPlus_Parser.thy ===== *)
theory EOPlus_Parser
  imports EOPlus_Types
begin

unbundle bit_operations_syntax

text \<open>
  The parser of the quest language (\<^verbatim>\<open>src/eoplus/parse.cpp\<close>, \<^verbatim>\<open>src/eoplus/parse.hpp\<close>). A
  parser takes the state of the token server and gives either the exception \<open>Parser_Error\<close>
  (\<open>Inl\<close>) or a result and the next state (\<open>Inr\<close>). The stack \<open>token_buffer\<close> is a list whose
  head is the top; the iterator over the tokens is the list of those still to come.
\<close>

section \<open>The token server\<close>

record server =
  ps_buf :: "token list"
  ps_line :: int
  ps_reject :: token
  ps_reject_line :: int
  ps_in :: "token list"

definition server_init :: "token list \<Rightarrow> server" where
  "server_init ts = \<lparr>ps_buf = [], ps_line = 1, ps_reject = no_token, ps_reject_line = 1, ps_in = ts\<rparr>"

definition reject_line :: "server \<Rightarrow> int" where
  "reject_line s = max (ps_line s) (ps_reject_line s)"

definition x_get_token :: "server \<Rightarrow> token \<times> server" where
  "x_get_token s = (case ps_in s of [] \<Rightarrow> (no_token, s) | t # ts \<Rightarrow> (t, s\<lparr>ps_in := ts\<rparr>))"

definition next_token :: "server \<Rightarrow> token \<times> server" where
  "next_token s = (case ps_buf s of [] \<Rightarrow> x_get_token s | t # ts \<Rightarrow> (t, s\<lparr>ps_buf := ts\<rparr>))"

definition allow_of :: "token_type list \<Rightarrow> nat" where
  "allow_of tys = foldr (\<lambda>ty m. tt_code ty OR m) tys 0"

definition allows :: "nat \<Rightarrow> token_type \<Rightarrow> bool" where
  "allows allow ty \<longleftrightarrow> (tt_code ty AND allow) = tt_code ty"

definition remaining :: "server \<Rightarrow> nat" where
  "remaining s = length (ps_buf s) + length (ps_in s)"

lemma next_token_remaining:
  "next_token s = (t, s') \<Longrightarrow> remaining s' + (if token_ok t then 1 else 0) \<le> remaining s"
  by (auto simp: next_token_def x_get_token_def remaining_def split: list.splits)

lemma next_token_newline:
  "next_token s = (t, s') \<Longrightarrow> tk_type t = Tok_NewLine \<Longrightarrow> remaining s' < remaining s"
  using next_token_remaining [of s t s'] by (simp add: token_ok_def)

text \<open>The loop of \<open>GetToken\<close>: \<open>newlines\<close> counts the newline tokens it has passed over.\<close>

function fetch :: "nat \<Rightarrow> nat \<Rightarrow> server \<Rightarrow> token \<times> server" where
  "fetch allow newlines s =
     (case next_token s of
        (t, s1) \<Rightarrow>
          if tk_type t = Tok_NewLine
          then let s2 = s1\<lparr>ps_line := ps_line s1 + 1\<rparr>
               in if allows allow Tok_NewLine then (t\<lparr>tk_newlines := int newlines\<rparr>, s2)
                  else fetch allow (newlines + 1) s2
          else (t\<lparr>tk_newlines := int newlines\<rparr>, s1))"
  by pat_completeness auto
termination
  by (relation "measure (\<lambda>(a, n, s). remaining s)")
    (auto dest!: sym [of "(_, _)"] next_token_newline simp: remaining_def)

declare fetch.simps [simp del]

text \<open>\<open>PutBack\<close> pushes the newlines the token came with first and the token on top of them.\<close>

definition put_back :: "token \<Rightarrow> server \<Rightarrow> server" where
  "put_back t s =
     (let nl = replicate (nat (tk_newlines t)) (token_of_type Tok_NewLine);
          t' = t\<lparr>tk_newlines := (if 0 \<le> tk_newlines t then - 1 else tk_newlines t - 1)\<rparr>
      in s\<lparr>ps_reject := t,
           ps_reject_line := ps_line s,
           ps_line := ps_line s - tk_newlines t - (if tk_type t = Tok_NewLine then 1 else 0),
           ps_buf := t' # nl @ ps_buf s\<rparr>)"

definition get_token :: "nat \<Rightarrow> server \<Rightarrow> token \<times> server" where
  "get_token allow s =
     (case fetch allow 0 s of
        (t, s1) \<Rightarrow> if \<not> allows allow (tk_type t) then (no_token, put_back t s1) else (t, s1))"

definition get_token_if :: "(token \<Rightarrow> bool) \<Rightarrow> nat \<Rightarrow> server \<Rightarrow> token \<times> server" where
  "get_token_if f allow s =
     (case get_token allow s of
        (t, s1) \<Rightarrow> if token_ok t \<and> \<not> f t then (no_token, put_back t s1) else (t, s1))"

section \<open>Errors\<close>

record parser_error =
  pe_what :: string
  pe_line :: int

definition op_to_string :: "int \<Rightarrow> string" where
  "op_to_string h =
     (if h = op_code LeftParens then ''('' else if h = op_code RightParens then '')''
      else if h = op_code BitAnd then ''&'' else if h = op_code LogicalAnd then ''&&''
      else if h = op_code BitOr then ''|'' else if h = op_code LogicalOr then ''||''
      else if h = op_code Assign then ''='' else if h = op_code Equality then ''==''
      else if h = op_code Inequality then ''!='' else if h = op_code LessThan then ''<''
      else if h = op_code LessThanEqual then ''<='' else if h = op_code GreaterThan then ''>''
      else if h = op_code GreaterThanEqual then ''>='' else if h = op_code Add then ''+''
      else if h = op_code Subtract then ''-'' else if h = op_code Multiply then ''*''
      else if h = op_code Divide then ''/'' else if h = op_code Modulo then ''%''
      else if h = op_code BitNot then ''~'' else if h = op_code LogicalNot then ''!''
      else if h = op_code Negate then ''-'' else ''(unknown)'')"

definition cut_string :: "string \<Rightarrow> string" where
  "cut_string s = (if length s > 16 then take 13 s @ ''...'' else s)"

definition tok_string :: "token \<Rightarrow> string" where
  "tok_string t = variant_string (tk_data t)"

text \<open>\<open>int(t.data)\<close>; the strings on which \<open>variant_int\<close> is silent are never converted.\<close>

definition tok_int :: "token \<Rightarrow> int" where
  "tok_int t = (case variant_int (tk_data t) of None \<Rightarrow> 0 | Some i \<Rightarrow> i)"

definition quoted :: "string \<Rightarrow> string" where
  "quoted s = CHR 0x27 # s @ [CHR 0x27]"

definition token_got_string :: "token \<Rightarrow> string" where
  "token_got_string t =
     (case tk_type t of
        Tok_Invalid \<Rightarrow> ''invalid token''
      | Tok_Identifier \<Rightarrow> ''identifier '' @ quoted (tok_string t)
      | Tok_String \<Rightarrow> ''string '' @ quoted (cut_string (tok_string t))
      | Tok_Integer \<Rightarrow> ''integer '' @ quoted (tok_string t)
      | Tok_Float \<Rightarrow> ''float '' @ quoted (tok_string t)
      | Tok_Boolean \<Rightarrow> ''boolean ''
          @ quoted (if variant_bool (tk_data t) = Some True then ''true'' else ''false'')
      | Tok_Operator \<Rightarrow> ''operator '' @ quoted (op_to_string (u8 (tok_int t)))
      | Tok_Symbol \<Rightarrow> ''symbol '' @ quoted (tok_string t)
      | Tok_NewLine \<Rightarrow> ''new-line''
      | Tok_EndOfFile \<Rightarrow> ''end of file'')"

text \<open>\<open>PARSER_ERROR\<close> and \<open>PARSER_ERROR_GOT\<close>.\<close>

definition throw_error :: "string \<Rightarrow> server \<Rightarrow> parser_error + 'a" where
  "throw_error what s = Inl \<lparr>pe_what = what, pe_line = reject_line s\<rparr>"

definition throw_got :: "string \<Rightarrow> server \<Rightarrow> parser_error + 'a" where
  "throw_got what s = throw_error (what @ '' Got: '' @ token_got_string (ps_reject s)) s"

type_synonym 'a parser = "server \<Rightarrow> parser_error + 'a \<times> server"

definition bind_parser :: "'a parser \<Rightarrow> ('a \<Rightarrow> 'b parser) \<Rightarrow> 'b parser" where
  "bind_parser p f s = (case p s of Inl e \<Rightarrow> Inl e | Inr (a, s') \<Rightarrow> f a s')"

section \<open>What the server consumes\<close>

lemma fetch_remaining:
  "fetch allow n s = (t, s') \<Longrightarrow>
     0 \<le> tk_newlines t
     \<and> remaining s' + nat (tk_newlines t) + (if token_ok t then 1 else 0) \<le> remaining s + n"
proof (induction allow n s rule: fetch.induct)
  case (1 allow n s)
  obtain u s1 where u: "next_token s = (u, s1)" by force
  note r = next_token_remaining [OF u]
  show ?case
  proof (cases "tk_type u = Tok_NewLine \<and> \<not> allows allow Tok_NewLine")
    case True
    define s2 where "s2 = s1\<lparr>ps_line := ps_line s1 + 1\<rparr>"
    have "fetch allow (n + 1) s2 = (t, s')"
      using 1(2) u True by (simp add: fetch.simps [of allow n s] s2_def)
    moreover have "remaining s2 = remaining s1" by (simp add: s2_def remaining_def)
    ultimately show ?thesis
      using "1.IH" [of u s1] u True r by (auto simp: s2_def token_ok_def)
  next
    case False
    with 1(2) u r show ?thesis
      by (auto simp: fetch.simps [of allow n s] token_ok_def remaining_def split: if_splits)
  qed
qed

lemma put_back_remaining:
  "0 \<le> tk_newlines t \<Longrightarrow> remaining (put_back t s) = Suc (remaining s + nat (tk_newlines t))"
  by (simp add: put_back_def Let_def remaining_def)

lemma get_token_remaining:
  assumes "get_token allow s = (t, s')"
  shows "0 \<le> tk_newlines t
    \<and> remaining s' + nat (tk_newlines t) + (if token_ok t then 1 else 0) \<le> remaining s"
proof -
  obtain u s1 where u: "fetch allow 0 s = (u, s1)" by force
  have "token_ok u" if "\<not> allows allow (tk_type u)"
    using that by (auto simp: token_ok_def allows_def)
  with fetch_remaining [OF u] assms u show ?thesis
    by (auto simp: get_token_def put_back_remaining no_token_def token_ok_def split: if_splits)
qed

lemma get_token_shrinks:
  "(t, s') = get_token allow s \<Longrightarrow> token_ok t \<Longrightarrow> remaining s' < remaining s"
  using get_token_remaining [of allow s t s'] by auto

lemma get_token_if_remaining:
  assumes "get_token_if f allow s = (t, s')"
  shows "remaining s' + (if token_ok t then 1 else 0) \<le> remaining s"
proof -
  obtain u s1 where u: "get_token allow s = (u, s1)" by force
  with get_token_remaining [OF u] assms show ?thesis
    by (auto simp: get_token_if_def put_back_remaining split: if_splits)
qed

section \<open>Versions, scopes and expressions\<close>

definition is_text :: "string \<Rightarrow> token \<Rightarrow> bool" where
  "is_text s t \<longleftrightarrow> tok_string t = s"

definition is_op :: "operator \<Rightarrow> token \<Rightarrow> bool" where
  "is_op op t \<longleftrightarrow> tok_int t = op_code op"

definition parse_version :: "32 word parser" where
  "parse_version s =
     (case get_token (allow_of [Tok_Integer]) s of
        (t, s1) \<Rightarrow>
          if token_ok t
          then let version = push_bit 16 (word_of_int (tok_int t)) :: 32 word
               in case get_token_if (is_text ''.'') (allow_of [Tok_Symbol]) s1 of
                    (d, s2) \<Rightarrow>
                      if token_ok d
                      then (case get_token (allow_of [Tok_Integer]) s2 of
                              (t', s3) \<Rightarrow>
                                if token_ok t'
                                then Inr (version OR (word_of_int (tok_int t') AND 0xFFFF), s3)
                                else throw_got (''Expected number after '' @ quoted ''.'' @ '' in version.'') s3)
                      else Inr (version, s2)
          else throw_got (''Expected number after '' @ quoted ''version'') s1)"

definition scope_id_map :: "string \<Rightarrow> scope_type option" where
  "scope_id_map = [''character'' \<mapsto> Scope_Character, ''npc'' \<mapsto> Scope_NPC, ''map'' \<mapsto> Scope_Map,
     ''world'' \<mapsto> Scope_World]"

function parse_scopes :: "scope list \<Rightarrow> scope list parser" where
  "parse_scopes scopes s =
     (case get_token (allow_of [Tok_Identifier]) s of
        (t, s1) \<Rightarrow>
          if token_ok t
          then (case scope_id_map (tok_string t) of
                  None \<Rightarrow> Inr (scopes, put_back t s1)
                | Some ty \<Rightarrow>
                    (case get_token_if (is_text ''.'') (allow_of [Tok_Symbol]) s1 of
                       (d, s2) \<Rightarrow>
                         if token_ok d then parse_scopes (scopes @ [\<lparr>sc_type = ty, sc_args = []\<rparr>]) s2
                         else throw_got (''Expected '' @ quoted ''.'' @ '' after scope-identifier.'') s2))
          else Inr (scopes, s1))"
  by pat_completeness auto
termination
  by (relation "measure (\<lambda>(sc, s). remaining s)")
    (auto dest!: get_token_shrinks sym [of "(_, _)" "get_token_if _ _ _"] get_token_if_remaining)

declare parse_scopes.simps [simp del]

definition arg_end :: "token \<Rightarrow> bool" where
  "arg_end t \<longleftrightarrow> tk_type t = Tok_Symbol \<and> is_text '','' t
     \<or> tk_type t = Tok_Operator \<and> is_op RightParens t"

text \<open>The loop of \<open>ParseExpression\<close> over the arguments after the opening parenthesis.\<close>

function parse_args :: "variant list \<Rightarrow> variant list parser" where
  "parse_args args s =
     (case get_token (allow_of [Tok_String, Tok_Float, Tok_Integer]) s of
        (t, s1) \<Rightarrow>
          if token_ok t
          then (case get_token_if arg_end (allow_of [Tok_Symbol, Tok_Operator]) s1 of
                  (t', s2) \<Rightarrow>
                    if token_ok t'
                    then if is_op RightParens t' then Inr (args @ [tk_data t], s2)
                         else parse_args (args @ [tk_data t]) s2
                    else throw_got (''Expected '' @ quoted '','' @ '' or '' @ quoted '')''
                           @ '' after function-argument in function-argument-list.'') s2)
          else throw_got ''Expected function-argument in function-argument-list.'' s1)"
  by pat_completeness auto
termination
  by (relation "measure (\<lambda>(a, s). remaining s)")
    (auto dest!: sym [of "(_, _)"] get_token_remaining get_token_if_remaining)

declare parse_args.simps [simp del]

definition parse_goto :: "expression parser" where
  "parse_goto s =
     (case get_token (allow_of [Tok_Identifier]) s of
        (tt, s1) \<Rightarrow>
          if token_ok tt
          then Inr (empty_expression\<lparr>ex_function := ''setstate'', ex_args := [VString (tok_string tt)]\<rparr>, s1)
          else throw_got (''Expected identifier after '' @ quoted ''goto'' @ ''.'') s1)"

definition parse_call :: "string \<Rightarrow> expression parser" where
  "parse_call f s =
     (case parse_scopes [] s of
        Inl e \<Rightarrow> Inl e
      | Inr (scopes, s1) \<Rightarrow>
          let e = \<lparr>ex_scopes = scopes, ex_function = f, ex_args = []\<rparr>
          in case get_token_if (is_op LeftParens) (allow_of [Tok_Operator]) s1 of
               (t, s2) \<Rightarrow>
                 if token_ok t
                 then (case get_token_if (is_op RightParens) (allow_of [Tok_Operator]) s2 of
                         (t', s3) \<Rightarrow>
                           if token_ok t' then Inr (e, s3)
                           else bind_parser (parse_args [])
                                  (\<lambda>args s4. Inr (e\<lparr>ex_args := args\<rparr>, s4)) s3)
                 else throw_got (''Expected '' @ quoted ''('' @ '' after function-name.'') s2)"

definition parse_expression :: "expression parser" where
  "parse_expression s =
     (case get_token (allow_of [Tok_Identifier]) s of
        (t, s1) \<Rightarrow>
          if token_ok t
          then if tok_string t = ''goto'' then parse_goto s1 else parse_call (tok_string t) s1
          else Inr (empty_expression, s1))"

definition parse_quest_name :: "string parser" where
  "parse_quest_name s =
     (case get_token (allow_of [Tok_String]) s of
        (t, s1) \<Rightarrow>
          if token_ok t then Inr (tok_string t, s1)
          else throw_got (''Expected string after '' @ quoted ''questname'' @ ''.'') s1)"

definition parse_desc :: "string parser" where
  "parse_desc s =
     (case get_token (allow_of [Tok_String]) s of
        (t, s1) \<Rightarrow>
          if token_ok t then Inr (tok_string t, s1)
          else throw_got (''Expected string after '' @ quoted ''desc'' @ ''.'') s1)"

definition parse_action :: "action parser" where
  "parse_action = bind_parser parse_expression
     (\<lambda>e s. Inr (\<lparr>ac_cond = Cond_None, ac_cond_expr = empty_expression, ac_expr = e\<rparr>, s))"

definition parse_rule :: "rule parser" where
  "parse_rule = bind_parser parse_expression
     (\<lambda>e. bind_parser parse_action (\<lambda>a s. Inr (\<lparr>ru_expr = e, ru_action = a\<rparr>, s)))"

section \<open>Blocks\<close>

subsection \<open>No parser gives tokens back that it did not get\<close>

definition consuming :: "'a parser \<Rightarrow> bool" where
  "consuming p \<longleftrightarrow> (\<forall>s a s'. p s = Inr (a, s') \<longrightarrow> remaining s' \<le> remaining s)"

lemma consumingI: "(\<And>s a s'. p s = Inr (a, s') \<Longrightarrow> remaining s' \<le> remaining s) \<Longrightarrow> consuming p"
  by (simp add: consuming_def)

lemma consumingD: "consuming p \<Longrightarrow> p s = Inr (a, s') \<Longrightarrow> remaining s' \<le> remaining s"
  by (simp add: consuming_def)

lemma consuming_bind: "consuming p \<Longrightarrow> (\<And>a. consuming (f a)) \<Longrightarrow> consuming (bind_parser p f)"
  by (fastforce simp: consuming_def bind_parser_def split: sum.splits intro: order_trans)

lemma consuming_return [simp]: "consuming (\<lambda>s. Inr (f s, s))"
  by (simp add: consuming_def)

lemma throw_simps [simp]: "throw_error w s \<noteq> Inr r" "throw_got w s \<noteq> Inr r"
  by (simp_all add: throw_error_def throw_got_def)

lemmas server_remaining = get_token_remaining get_token_if_remaining

lemma parse_scopes_consuming: "parse_scopes sc s = Inr (a, s') \<Longrightarrow> remaining s' \<le> remaining s"
proof (induction sc s rule: parse_scopes.induct)
  case (1 sc s)
  then show ?case
    by (subst (asm) (2) parse_scopes.simps)
      (fastforce split: prod.splits if_splits option.splits dest!: server_remaining
        simp: put_back_remaining)
qed

lemma parse_args_consuming: "parse_args as s = Inr (a, s') \<Longrightarrow> remaining s' \<le> remaining s"
proof (induction as s rule: parse_args.induct)
  case (1 as s)
  then show ?case
    by (subst (asm) (2) parse_args.simps)
      (fastforce split: prod.splits if_splits dest!: server_remaining)
qed

lemma parse_call_consuming: "parse_call f s = Inr (a, s') \<Longrightarrow> remaining s' \<le> remaining s"
  by (auto simp: parse_call_def Let_def bind_parser_def split: sum.splits prod.splits if_splits
      dest!: server_remaining parse_scopes_consuming parse_args_consuming)

lemma parse_expression_consuming: "consuming parse_expression"
  by (rule consumingI)
    (auto simp: parse_expression_def parse_goto_def split: prod.splits if_splits
      dest!: server_remaining parse_call_consuming)

lemma parse_action_consuming: "consuming parse_action"
  unfolding parse_action_def by (intro consuming_bind parse_expression_consuming) simp

lemma parse_rule_consuming: "consuming parse_rule"
  unfolding parse_rule_def
  by (intro consuming_bind parse_expression_consuming parse_action_consuming) simp

lemma parse_desc_consuming: "consuming parse_desc"
  by (rule consumingI)
    (auto simp: parse_desc_def split: prod.splits if_splits dest!: server_remaining)

lemma parse_version_consuming: "consuming parse_version"
  by (rule consumingI)
    (auto simp: parse_version_def Let_def split: prod.splits if_splits dest!: server_remaining)

lemma parse_quest_name_consuming: "consuming parse_quest_name"
  by (rule consumingI)
    (auto simp: parse_quest_name_def split: prod.splits if_splits dest!: server_remaining)

lemmas parsers_consuming = parse_expression_consuming parse_action_consuming parse_rule_consuming
  parse_desc_consuming parse_version_consuming parse_quest_name_consuming

subsection \<open>State blocks\<close>

definition throw_if :: "bool \<Rightarrow> string \<Rightarrow> 'a parser \<Rightarrow> 'a parser" where
  "throw_if b what p s = (if b then throw_error what s else p s)"

text \<open>
  One entry of \<open>ParseRuleActionBlock\<close>, with the handler that \<open>ParseStateBlock\<close>, its only
  caller, passes for the entries \<open>desc\<close> and \<open>goal\<close>. \<open>None\<close> is the handler's \<open>false\<close>.
\<close>

definition add_action :: "conditional_type \<Rightarrow> rule \<Rightarrow> quest_state \<Rightarrow> quest_state" where
  "add_action cond r st =
     st\<lparr>qs_actions := qs_actions st
          @ [\<lparr>ac_cond = cond, ac_cond_expr = ru_expr r, ac_expr = ac_expr (ru_action r)\<rparr>]\<rparr>"

definition block_entry :: "string \<Rightarrow> bool \<Rightarrow> quest_state \<Rightarrow> (bool \<times> quest_state) option parser" where
  "block_entry entry has_desc st =
     (if entry = ''rule''
      then bind_parser parse_rule (\<lambda>r s. Inr (Some (has_desc, st\<lparr>qs_rules := qs_rules st @ [r]\<rparr>), s))
      else if entry = ''action''
      then bind_parser parse_action
             (\<lambda>a s. Inr (Some (has_desc, st\<lparr>qs_actions := qs_actions st @ [a]\<rparr>), s))
      else if entry = ''if''
      then bind_parser parse_rule (\<lambda>r s. Inr (Some (has_desc, add_action Cond_If r st), s))
      else if entry = ''elseif'' \<or> entry = ''elif''
      then bind_parser parse_rule (\<lambda>r s. Inr (Some (has_desc, add_action Cond_ElseIf r st), s))
      else if entry = ''else''
      then bind_parser parse_action
             (\<lambda>a s. Inr (Some (has_desc,
                st\<lparr>qs_actions := qs_actions st @ [a\<lparr>ac_cond := Cond_Else\<rparr>]\<rparr>), s))
      else if entry = ''desc''
      then throw_if has_desc ''State can only contain one description.''
             (bind_parser parse_desc (\<lambda>d s. Inr (Some (True, st\<lparr>qs_desc := d\<rparr>), s)))
      else if entry = ''goal''
      then bind_parser parse_rule
             (\<lambda>r s. Inr (Some (has_desc, st\<lparr>qs_rules := qs_rules st @ [r],
                qs_goal_rule := length (qs_rules st)\<rparr>), s))
      else (\<lambda>s. Inr (None, s)))"

definition block_error :: "string \<Rightarrow> server \<Rightarrow> parser_error + 'a" where
  "block_error name =
     throw_got (''Expected state-block entry (rule/action/if/elseif/else/goal/desc) or closing brace ''
       @ quoted ''}'' @ '' in state '' @ quoted name @ ''.'')"

lemma consuming_throw_if: "consuming p \<Longrightarrow> consuming (throw_if b what p)"
  by (auto simp: consuming_def throw_if_def)

lemma consuming_if: "consuming p \<Longrightarrow> consuming q \<Longrightarrow> consuming (if b then p else q)"
  by simp

lemmas consuming_rules = consuming_if consuming_bind consuming_throw_if consuming_return
  parsers_consuming

lemma block_entry_consuming: "consuming (block_entry entry has_desc st)"
  unfolding block_entry_def by (intro consuming_rules)

function parse_rule_action_block :: "string \<Rightarrow> bool \<Rightarrow> quest_state \<Rightarrow> quest_state parser" where
  "parse_rule_action_block name has_desc st s =
     (case get_token (allow_of [Tok_Identifier, Tok_Symbol]) s of
        (t, s1) \<Rightarrow>
          if \<not> token_ok t then block_error name s1
          else if tk_type t = Tok_Identifier
          then (case block_entry (tok_string t) has_desc st s1 of
                  Inl e \<Rightarrow> Inl e
                | Inr (None, s2) \<Rightarrow> block_error name (put_back t s2)
                | Inr (Some (has_desc', st'), s2) \<Rightarrow> parse_rule_action_block name has_desc' st' s2)
          else if tok_string t = ''}'' then Inr (st, s1)
          else if tok_string t = '';'' then parse_rule_action_block name has_desc st s1
          else block_error name (put_back t s1))"
  by pat_completeness auto
termination
  by (relation "measure (\<lambda>(n, has_desc, st, s). remaining s)")
    (auto dest: get_token_shrinks dest!: consumingD [OF block_entry_consuming])

declare parse_rule_action_block.simps [simp del]

definition parse_state_block :: "(string \<times> quest_state) parser" where
  "parse_state_block s =
     (case get_token (allow_of [Tok_Identifier]) s of
        (t, s1) \<Rightarrow>
          if token_ok t
          then let name = tok_string t
               in case get_token (allow_of [Tok_Symbol]) s1 of
                    (t', s2) \<Rightarrow>
                      if token_ok t' \<and> tok_string t' = ''{''
                      then bind_parser (parse_rule_action_block name False state_init)
                             (\<lambda>st s3. Inr ((name, st\<lparr>qs_name := name\<rparr>), s3)) s2
                      else throw_got (''Expected opening brace '' @ quoted ''{'' @ '' after state-name.'') s2
          else throw_got (''Expected state-name after '' @ quoted ''state'' @ ''.'') s1)"

subsection \<open>The main block\<close>

definition main_error :: "server \<Rightarrow> parser_error + 'a" where
  "main_error =
     throw_got (''Expected main-block entry (questname/version/hidden/hidden_end/disabled) or closing brace ''
       @ quoted ''}'' @ ''.'')"

record main_state =
  ms_has_questname :: bool
  ms_has_version :: bool
  ms_info :: quest_info

text \<open>One entry of \<open>ParseMain\<close>; \<open>None\<close> is its \<open>break\<close>.\<close>

definition main_entry :: "string \<Rightarrow> main_state \<Rightarrow> main_state option parser" where
  "main_entry entry m =
     (let info = ms_info m;
          put = (\<lambda>m' s. Inr (Some m', s))
      in if entry = ''questname''
      then throw_if (ms_has_questname m) ''Main-block can only contain one questname.''
             (bind_parser parse_quest_name
               (\<lambda>n. put (m\<lparr>ms_has_questname := True, ms_info := info\<lparr>qi_name := n\<rparr>\<rparr>)))
      else if entry = ''version''
      then throw_if (ms_has_version m) ''Main-block can only contain one version.''
             (bind_parser parse_version
               (\<lambda>v. put (m\<lparr>ms_has_version := True, ms_info := info\<lparr>qi_version := v\<rparr>\<rparr>)))
      else if entry = ''hidden''
      then throw_if (qi_hidden info \<noteq> NotHidden) ''Main-block can only contain one hidden attribute.''
             (put (m\<lparr>ms_info := info\<lparr>qi_hidden := Hidden\<rparr>\<rparr>))
      else if entry = ''hidden_end''
      then throw_if (qi_hidden info \<noteq> NotHidden) ''Main-block can only contain one hidden attribute.''
             (put (m\<lparr>ms_info := info\<lparr>qi_hidden := HiddenEnd\<rparr>\<rparr>))
      else if entry = ''disabled''
      then throw_if (qi_disabled info) ''Main-block can only contain one disabled attribute.''
             (put (m\<lparr>ms_info := info\<lparr>qi_disabled := True\<rparr>\<rparr>))
      else (\<lambda>s. Inr (None, s)))"

lemma main_entry_consuming: "consuming (main_entry entry m)"
  unfolding main_entry_def Let_def by (intro consuming_rules)

function parse_main_loop :: "main_state \<Rightarrow> quest_info parser" where
  "parse_main_loop m s =
     (case get_token (allow_of [Tok_Identifier, Tok_Symbol]) s of
        (t, s1) \<Rightarrow>
          if \<not> token_ok t then main_error s1
          else if tk_type t = Tok_Identifier
          then (case main_entry (tok_string t) m s1 of
                  Inl e \<Rightarrow> Inl e
                | Inr (None, s2) \<Rightarrow> main_error s2
                | Inr (Some m', s2) \<Rightarrow> parse_main_loop m' s2)
          else if tok_string t = ''}'' then Inr (ms_info m, s1)
          else main_error s1)"
  by pat_completeness auto
termination
  by (relation "measure (\<lambda>(m, s). remaining s)")
    (auto dest: get_token_shrinks dest!: consumingD [OF main_entry_consuming])

declare parse_main_loop.simps [simp del]

definition parse_main :: "quest_info parser" where
  "parse_main = parse_main_loop \<lparr>ms_has_questname = False, ms_has_version = False, ms_info = info_init\<rparr>"

definition parse_main_block :: "quest_info parser" where
  "parse_main_block s =
     (case get_token (allow_of [Tok_Symbol]) s of
        (t, s1) \<Rightarrow>
          if token_ok t \<and> tok_string t = ''{'' then parse_main s1
          else throw_got (''Expected opening brace '' @ quoted ''{'' @ '' after '' @ quoted ''main'' @ ''.'') s1)"

subsection \<open>The whole quest\<close>

lemma parse_rule_action_block_consuming: "consuming (parse_rule_action_block name has_desc st)"
proof (rule consumingI)
  fix s a s'
  show "parse_rule_action_block name has_desc st s = Inr (a, s') \<Longrightarrow> remaining s' \<le> remaining s"
  proof (induction name has_desc st s rule: parse_rule_action_block.induct)
    case (1 name has_desc st s)
    obtain t s1 where t: "get_token (allow_of [Tok_Identifier, Tok_Symbol]) s = (t, s1)" by force
    from 1 t get_token_remaining [OF t] show ?case
      by (fastforce simp: parse_rule_action_block.simps [of _ _ _ s] block_error_def
          split: if_splits sum.splits option.splits prod.splits
          dest!: consumingD [OF block_entry_consuming])
  qed
qed

lemma parse_main_loop_consuming: "consuming (parse_main_loop m)"
proof (rule consumingI)
  fix s a s'
  show "parse_main_loop m s = Inr (a, s') \<Longrightarrow> remaining s' \<le> remaining s"
  proof (induction m s rule: parse_main_loop.induct)
    case (1 m s)
    obtain t s1 where t: "get_token (allow_of [Tok_Identifier, Tok_Symbol]) s = (t, s1)" by force
    from 1 t get_token_remaining [OF t] show ?case
      by (fastforce simp: parse_main_loop.simps [of _ s] main_error_def
          split: if_splits sum.splits option.splits prod.splits
          dest!: consumingD [OF main_entry_consuming])
  qed
qed

lemma parse_state_block_consuming: "consuming parse_state_block"
  by (rule consumingI)
    (auto simp: parse_state_block_def Let_def bind_parser_def split: prod.splits if_splits sum.splits
      dest!: server_remaining consumingD [OF parse_rule_action_block_consuming])

lemma parse_main_block_consuming: "consuming parse_main_block"
  by (rule consumingI)
    (auto simp: parse_main_block_def parse_main_def split: prod.splits if_splits
      dest!: server_remaining consumingD [OF parse_main_loop_consuming])

definition global_error :: "server \<Rightarrow> parser_error + 'a" where
  "global_error = throw_got ''Expected block-identifier (main/state) in global scope.''"

function parse_global :: "quest \<Rightarrow> quest parser" where
  "parse_global q s =
     (case get_token (allow_of [Tok_Identifier, Tok_EndOfFile]) s of
        (t, s1) \<Rightarrow>
          if \<not> token_ok t then global_error s1
          else if tk_type t = Tok_Identifier
          then if tok_string t = ''main''
               then if qu_has_info q then throw_error ''Quest can only contain one main-block.'' s1
                    else (case parse_main_block s1 of
                            Inl e \<Rightarrow> Inl e
                          | Inr (info, s2) \<Rightarrow>
                              parse_global (q\<lparr>qu_info := info, qu_has_info := True\<rparr>) s2)
               else if tok_string t = ''state''
               then (case parse_state_block s1 of
                       Inl e \<Rightarrow> Inl e
                     | Inr (n_st, s2) \<Rightarrow>
                         if qu_states q (fst n_st) \<noteq> None
                         then throw_error (''State '' @ quoted (fst n_st) @ '' already exists'') s2
                         else parse_global (q\<lparr>qu_states := (qu_states q)(fst n_st \<mapsto> snd n_st)\<rparr>) s2)
               else global_error s1
          else if \<not> qu_has_info q then throw_error ''No main-block in quest file.'' s1
          else Inr (q, s1))"
  by pat_completeness auto
termination
  by (relation "measure (\<lambda>(q, s). remaining s)")
    (auto dest: get_token_shrinks dest!: consumingD [OF parse_main_block_consuming]
      consumingD [OF parse_state_block_consuming])

declare parse_global.simps [simp del]

definition parse_quest :: "token list \<Rightarrow> parser_error + quest" where
  "parse_quest ts =
     (case parse_global quest_init (server_init ts) of Inl e \<Rightarrow> Inl e | Inr (q, s) \<Rightarrow> Inr q)"

end
