(* ===== verification/EOPlus_Lexer.thy ===== *)
theory EOPlus_Lexer
  imports Prelude EOPlus_Types "HOL-Library.Sublist"
begin

text \<open>
  The lexer of the quest language (\<^verbatim>\<open>src/eoplus/lex.cpp\<close>, \<^verbatim>\<open>src/eoplus/lex.hpp\<close>).
  The input stream is the string still to be read; reading past its end fails and changes
  nothing, as \<open>std::istream::get\<close> does. \<open>None\<close> as the result of \<open>read_token\<close> or \<open>lex\<close>
  means that the code does not return: its line-comment loop never tests for the end of the
  input. An exception is \<open>Inl\<close>.
\<close>

section \<open>Character classes\<close>

fun ctype :: "string \<Rightarrow> char \<Rightarrow> bool" where
  "ctype [] c = False"
| "ctype (p # ps) c = (if p = c then True else ctype ps c)"

definition ctype_op :: "char \<Rightarrow> bool" where
  "ctype_op c = ctype ''()&|=!<>+-*/%&|!'' c"

definition ctype_symbol :: "char \<Rightarrow> bool" where
  "ctype_symbol c = ctype '';{}.,'' c"

definition ctype_whitespace :: "char \<Rightarrow> bool" where
  "ctype_whitespace c = is_space_char c"

definition ctype_alpha :: "char \<Rightarrow> bool" where
  "ctype_alpha c = is_alpha_char c"

definition ctype_digit :: "char \<Rightarrow> bool" where
  "ctype_digit c = is_digit_char c"

definition ctype_alnum :: "char \<Rightarrow> bool" where
  "ctype_alnum c = (ctype_alpha c \<or> ctype_digit c)"

definition ctype_ident_start :: "char \<Rightarrow> bool" where
  "ctype_ident_start c = (ctype_alpha c \<or> c = CHR ''_'' \<or> c = CHR ''$'')"

definition ctype_ident :: "char \<Rightarrow> bool" where
  "ctype_ident c = (c \<noteq> CHR ''$'' \<and> (ctype_ident_start c \<or> ctype_digit c))"

definition check_op :: "char \<Rightarrow> char \<Rightarrow> bool" where
  "check_op a b =
     (if a = CHR ''('' \<or> a = CHR '')'' \<or> a = CHR ''+'' then b = NUL
      else if a = CHR ''&'' then b = NUL \<or> b = CHR ''&''
      else if a = CHR ''|'' then b = NUL \<or> b = CHR ''|''
      else if a = CHR ''-'' then b = NUL \<or> b = UOP_ALT
      else if a = CHR ''*'' \<or> a = CHR ''/'' \<or> a = CHR ''%'' then b = NUL
      else if a = CHR ''<'' \<or> a = CHR ''>'' \<or> a = CHR ''!'' then b = NUL \<or> b = CHR ''=''
      else if a = CHR ''='' then b = CHR ''=''
      else False)"

section \<open>The lexer's state and its reads\<close>

record lexer =
  lx_row :: nat
  lx_col :: nat
  lx_in :: string
  lx_buf :: "token list"

definition lexer_init :: "string \<Rightarrow> lexer" where
  "lexer_init s = \<lparr>lx_row = 1, lx_col = 0, lx_in = s, lx_buf = []\<rparr>"

record lexer_error =
  le_what :: string
  le_line :: nat
  le_col :: nat

definition lexer_error_at :: "string \<Rightarrow> lexer \<Rightarrow> lexer_error" where
  "lexer_error_at what lx = \<lparr>le_what = what, le_line = lx_row lx, le_col = lx_col lx\<rparr>"

definition newline_char :: char where
  "newline_char = CHR 0x0A"

definition peek_char :: "lexer \<Rightarrow> char option" where
  "peek_char lx = (case lx_in lx of [] \<Rightarrow> None | c # cs \<Rightarrow> Some c)"

definition get_char :: "lexer \<Rightarrow> (char \<times> lexer) option" where
  "get_char lx =
     (case lx_in lx of
        [] \<Rightarrow> None
      | c # cs \<Rightarrow>
          (let lx1 = lx\<lparr>lx_in := cs, lx_col := lx_col lx + 1\<rparr>
           in Some (c, if c = newline_char
                then lx1\<lparr>lx_buf := lx_buf lx1 @ [token_of_type Tok_NewLine],
                         lx_row := lx_row lx1 + 1, lx_col := 0\<rparr>
                else lx1)))"

definition get_char_if :: "(char \<Rightarrow> bool) \<Rightarrow> lexer \<Rightarrow> (char \<times> lexer) option" where
  "get_char_if f lx =
     (case peek_char lx of
        None \<Rightarrow> None
      | Some cc \<Rightarrow> if f cc then get_char lx else None)"

text \<open>Every character read costs two units and can put one newline token in the buffer.\<close>

definition weight :: "lexer \<Rightarrow> nat" where
  "weight lx = 2 * length (lx_in lx) + length (lx_buf lx)"

lemma get_char_Some:
  "get_char lx = Some (c, lx') \<longleftrightarrow>
     (\<exists>cs. lx_in lx = c # cs \<and>
       lx' = (if c = newline_char
         then lx\<lparr>lx_in := cs, lx_col := 0, lx_row := lx_row lx + 1,
                 lx_buf := lx_buf lx @ [token_of_type Tok_NewLine]\<rparr>
         else lx\<lparr>lx_in := cs, lx_col := lx_col lx + 1\<rparr>))"
  by (auto simp: get_char_def Let_def split: list.splits)

lemma get_char_if_Some:
  "get_char_if f lx = Some (c, lx') \<longleftrightarrow> f c \<and> get_char lx = Some (c, lx')"
  by (auto simp: get_char_if_def peek_char_def get_char_Some split: list.splits)

lemma get_char_in: "get_char lx = Some (c, lx') \<Longrightarrow> lx_in lx = c # lx_in lx'"
  by (auto simp: get_char_Some split: if_splits)

lemma get_char_weight: "get_char lx = Some (c, lx') \<Longrightarrow> weight lx' < weight lx"
  by (auto simp: get_char_Some weight_def split: if_splits)

lemma get_char_length [termination_simp]:
  "get_char lx = Some (c, lx') \<Longrightarrow> length (lx_in lx') < length (lx_in lx)"
  by (simp add: get_char_in)

lemma get_char_if_length [termination_simp]:
  "get_char_if f lx = Some (c, lx') \<Longrightarrow> length (lx_in lx') < length (lx_in lx)"
  by (simp add: get_char_if_Some get_char_length)

section \<open>The readers of one kind of token\<close>

text \<open>
  \<open>ReadNumber\<close>. The guard against overflow tests \<open>number > INT_MAX / 10\<close>, sets \<open>number\<close>
  to \<open>INT_MAX\<close> and multiplies all the same; the result of that signed overflow is written
  out as two's complement.
\<close>

function read_digits :: "int \<Rightarrow> lexer \<Rightarrow> int \<times> lexer" where
  "read_digits number lx =
     (case get_char_if ctype_digit lx of
        None \<Rightarrow> (number, lx)
      | Some (c, lx') \<Rightarrow>
          (let number1 = (if number > int_max div 10 then int_max else number)
           in read_digits (s32 (s32 (number1 * 10) + digit_value c)) lx'))"
  by pat_completeness auto
termination
  by (relation "measure (\<lambda>(n, lx). length (lx_in lx))") (auto simp: get_char_if_length)

declare read_digits.simps [simp del]

definition read_number :: "lexer \<Rightarrow> token \<times> lexer" where
  "read_number lx =
     (case get_char_if ctype_digit lx of
        None \<Rightarrow> (no_token, lx)
      | Some (c, lx1) \<Rightarrow>
          (case read_digits (digit_value c) lx1 of
             (number, lx2) \<Rightarrow> (mk_token Tok_Integer (VInt number), lx2)))"

text \<open>
  The body of a string literal after its opening quote: \<open>s\<close> is what has been read. A
  string that is still open at the end of the input is returned as it stands.
\<close>

function read_string_body :: "bool \<Rightarrow> string \<Rightarrow> lexer \<Rightarrow> lexer_error + string \<times> lexer" where
  "read_string_body escape s lx =
     (case get_char lx of
        None \<Rightarrow> Inr (s, lx)
      | Some (c, lx') \<Rightarrow>
          if escape then read_string_body False (s @ [c]) lx'
          else if c = CHR 0x5C then read_string_body True s lx'
          else if c = CHR 0x22 then Inr (s, lx')
          else if c = newline_char
            then Inl (lexer_error_at ''Unterminated string on previous line'' lx')
          else read_string_body escape (s @ [c]) lx')"
  by pat_completeness auto
termination
  by (relation "measure (\<lambda>(e, s, lx). length (lx_in lx))") (auto simp: get_char_length)

declare read_string_body.simps [simp del]

definition read_string :: "lexer \<Rightarrow> lexer_error + token \<times> lexer" where
  "read_string lx =
     (case get_char_if (\<lambda>c. c = CHR 0x22) lx of
        None \<Rightarrow> Inr (no_token, lx)
      | Some (c, lx1) \<Rightarrow>
          (case read_string_body False [] lx1 of
             Inl e \<Rightarrow> Inl e
           | Inr (s, lx2) \<Rightarrow> Inr (mk_token Tok_String (VString s), lx2)))"

function read_ident_rest :: "string \<Rightarrow> lexer \<Rightarrow> string \<times> lexer" where
  "read_ident_rest s lx =
     (case get_char_if ctype_ident lx of
        None \<Rightarrow> (s, lx)
      | Some (c, lx') \<Rightarrow> read_ident_rest (s @ [c]) lx')"
  by pat_completeness auto
termination
  by (relation "measure (\<lambda>(s, lx). length (lx_in lx))") (auto simp: get_char_if_length)

declare read_ident_rest.simps [simp del]

text \<open>\<open>util::lowercase\<close>.\<close>

definition lowercase :: "string \<Rightarrow> string" where
  "lowercase s = map to_lower s"

definition read_identifier :: "lexer \<Rightarrow> token \<times> lexer" where
  "read_identifier lx =
     (case get_char_if ctype_ident_start lx of
        None \<Rightarrow> (no_token, lx)
      | Some (c, lx1) \<Rightarrow>
          (case read_ident_rest [c] lx1 of
             (s0, lx2) \<Rightarrow>
               (let s = lowercase s0
                in if s = ''true'' \<or> s = ''false''
                   then (mk_token Tok_Boolean (VBool (s = ''true'')), lx2)
                   else (mk_token Tok_Identifier (VString s), lx2))))"

definition read_symbol :: "lexer \<Rightarrow> token \<times> lexer" where
  "read_symbol lx =
     (case get_char_if ctype_symbol lx of
        None \<Rightarrow> (no_token, lx)
      | Some (c, lx1) \<Rightarrow> (mk_token Tok_Symbol (VString [c]), lx1))"

definition read_operator :: "lexer \<Rightarrow> token \<times> lexer" where
  "read_operator lx =
     (case get_char_if ctype_op lx of
        None \<Rightarrow> (no_token, lx)
      | Some (c, lx1) \<Rightarrow>
          (let cc = (case peek_char lx1 of None \<Rightarrow> NUL | Some x \<Rightarrow> x)
           in case (if check_op c cc
                    then (case get_char_if ctype_op lx1 of None \<Rightarrow> (cc, lx1) | Some r \<Rightarrow> r)
                    else (cc, lx1)) of
                (cc1, lx2) \<Rightarrow>
                  if check_op c cc1 then (mk_token Tok_Operator (VInt (uop2 c cc1)), lx2)
                  else if check_op c NUL then (mk_token Tok_Operator (VInt (uop2 c NUL)), lx2)
                  else (no_token, lx2)))"

text \<open>The loop over leading white space.\<close>

function skip_spaces :: "lexer \<Rightarrow> lexer" where
  "skip_spaces lx =
     (case get_char_if ctype_whitespace lx of
        None \<Rightarrow> lx
      | Some (c, lx') \<Rightarrow> skip_spaces lx')"
  by pat_completeness auto
termination
  by (relation "measure (\<lambda>lx. length (lx_in lx))") (auto simp: get_char_if_length)

declare skip_spaces.simps [simp del]

text \<open>
  The loop \<open>while (c != newline) GetChar(c);\<close> of a line comment. At the end of the
  input \<open>GetChar\<close> fails and leaves \<open>c\<close> alone, so the loop runs forever: \<open>None\<close>.
\<close>

partial_function (option) skip_line :: "char \<Rightarrow> lexer \<Rightarrow> lexer option" where
  "skip_line c lx =
     (if c = newline_char then Some lx
      else case get_char lx of
             None \<Rightarrow> skip_line c lx
           | Some cl \<Rightarrow> skip_line (fst cl) (snd cl))"

subsection \<open>What each reader consumes\<close>

text \<open>
  \<open>advances lx lx'\<close>: the input of \<open>lx'\<close> is a suffix of that of \<open>lx\<close>, and reading
  has not made the weight grow.
\<close>

definition advances :: "lexer \<Rightarrow> lexer \<Rightarrow> bool" where
  "advances lx lx' \<longleftrightarrow> suffix (lx_in lx') (lx_in lx) \<and> weight lx' \<le> weight lx"

lemma advances_refl [simp]: "advances lx lx"
  by (simp add: advances_def)

lemma advances_trans [trans]: "advances a b \<Longrightarrow> advances b c \<Longrightarrow> advances a c"
  by (auto simp: advances_def intro: suffix_order.trans)

lemma advances_get_char: "get_char lx = Some (c, lx') \<Longrightarrow> advances lx lx'"
  using get_char_weight by (fastforce simp: advances_def get_char_in suffix_ConsI)

lemma advances_get_char_if: "get_char_if f lx = Some (c, lx') \<Longrightarrow> advances lx lx'"
  by (simp add: get_char_if_Some advances_get_char)

lemma advances_read_digits: "read_digits n lx = (m, lx') \<Longrightarrow> advances lx lx'"
proof (induction n lx rule: read_digits.induct)
  case (1 number lx)
  then show ?case
    by (auto simp: read_digits.simps [of number lx] Let_def split: option.splits
        intro: advances_trans [OF advances_get_char_if])
qed

lemma advances_read_string_body: "read_string_body e s lx = Inr (s', lx') \<Longrightarrow> advances lx lx'"
proof (induction e s lx rule: read_string_body.induct)
  case (1 e s lx)
  then show ?case
    by (auto simp: read_string_body.simps [of e s lx] split: option.splits if_splits
        intro: advances_get_char advances_trans [OF advances_get_char])
qed

lemma advances_read_ident_rest: "read_ident_rest s lx = (s', lx') \<Longrightarrow> advances lx lx'"
proof (induction s lx rule: read_ident_rest.induct)
  case (1 s lx)
  then show ?case
    by (auto simp: read_ident_rest.simps [of s lx] split: option.splits
        intro: advances_trans [OF advances_get_char_if])
qed

lemma advances_skip_spaces: "advances lx (skip_spaces lx)"
proof (induction lx rule: skip_spaces.induct)
  case (1 lx)
  then show ?case
    by (auto simp: skip_spaces.simps [of lx] split: option.splits
        intro: advances_trans [OF advances_get_char_if])
qed

text \<open>A reader that returns a token has read at least one character.\<close>

definition consumes :: "lexer \<Rightarrow> token \<Rightarrow> lexer \<Rightarrow> bool" where
  "consumes lx t lx' \<longleftrightarrow> advances lx lx' \<and> (token_ok t \<longrightarrow> weight lx' < weight lx)"

lemma consumes_step:
  "get_char_if f lx = Some (c, lx1) \<Longrightarrow> advances lx1 lx' \<Longrightarrow> consumes lx t lx'"
  unfolding consumes_def
  by (auto simp: get_char_if_Some dest: advances_get_char get_char_weight
      intro: advances_trans) (auto simp: advances_def dest: get_char_weight)

lemma consumes_no_token [simp]: "consumes lx no_token lx"
  by (simp add: consumes_def)

lemma consumes_read_number: "read_number lx = (t, lx') \<Longrightarrow> consumes lx t lx'"
  by (auto simp: read_number_def split: option.splits prod.splits
      intro: consumes_step dest: advances_read_digits)

lemma consumes_read_string: "read_string lx = Inr (t, lx') \<Longrightarrow> consumes lx t lx'"
  by (auto simp: read_string_def split: option.splits prod.splits sum.splits
      intro: consumes_step dest: advances_read_string_body)

lemma consumes_read_identifier: "read_identifier lx = (t, lx') \<Longrightarrow> consumes lx t lx'"
  by (auto simp: read_identifier_def Let_def split: option.splits prod.splits if_splits
      intro: consumes_step dest: advances_read_ident_rest)

lemma consumes_read_symbol: "read_symbol lx = (t, lx') \<Longrightarrow> consumes lx t lx'"
  by (auto simp: read_symbol_def split: option.splits intro: consumes_step)

lemma consumes_read_operator: "read_operator lx = (t, lx') \<Longrightarrow> consumes lx t lx'"
  by (auto simp: read_operator_def Let_def split: option.splits prod.splits if_splits
      intro: consumes_step advances_get_char_if)

lemmas reader_consumes =
  consumes_read_number consumes_read_string consumes_read_identifier consumes_read_symbol
  consumes_read_operator


text \<open>The comment loop returns exactly when a newline is still to come.\<close>

lemma skip_line_newline:
  "newline_char \<in> insert c (set (lx_in lx)) \<Longrightarrow> \<exists>lx'. skip_line c lx = Some lx'"
proof (induction "lx_in lx" arbitrary: c lx)
  case Nil
  then show ?case by (simp add: skip_line.simps)
next
  case (Cons d ds)
  show ?case
  proof (cases "c = newline_char")
    case True
    then show ?thesis by (simp add: skip_line.simps)
  next
    case False
    obtain lx1 where lx1: "get_char lx = Some (d, lx1)" "lx_in lx1 = ds"
      using Cons.hyps(2) by (fastforce simp: get_char_def Let_def split: list.splits)
    with Cons False have "\<exists>lx'. skip_line d lx1 = Some lx'"
      by (metis insert_iff list.simps(15))
    with lx1 False show ?thesis by (simp add: skip_line.simps [of c lx])
  qed
qed

lemma skip_line_result:
  assumes "skip_line c lx = Some lx'"
  shows "advances lx lx' \<and> newline_char \<in> insert c (set (lx_in lx))"
proof (rule skip_line.raw_induct
    [where P = "\<lambda>c lx r. advances lx r \<and> newline_char \<in> insert c (set (lx_in lx))", OF _ assms])
  fix f c lx r
  assume IH: "\<And>c lx r. f c lx = Some r \<Longrightarrow> advances lx r \<and> newline_char \<in> insert c (set (lx_in lx))"
    and eq: "(if c = newline_char then Some lx
       else case get_char lx of None \<Rightarrow> f c lx | Some cl \<Rightarrow> f (fst cl) (snd cl)) = Some r"
  show "advances lx r \<and> newline_char \<in> insert c (set (lx_in lx))"
  proof (cases "get_char lx")
    case None
    with eq IH show ?thesis by (auto split: if_splits)
  next
    case (Some cl)
    then obtain d lx1 where d: "get_char lx = Some (d, lx1)" and cl: "cl = (d, lx1)"
      by (cases cl) auto
    show ?thesis
    proof (cases "c = newline_char")
      case True
      with eq show ?thesis by simp
    next
      case False
      with eq d have "f d lx1 = Some r" by simp
      then have "advances lx1 r" "newline_char \<in> insert d (set (lx_in lx1))"
        using IH by blast+
      with d show ?thesis
        using advances_trans [OF advances_get_char] get_char_in by fastforce
    qed
  qed
qed

lemma skip_line_None_iff: "skip_line c lx = None \<longleftrightarrow> newline_char \<notin> insert c (set (lx_in lx))"
  using skip_line_newline [of c lx] skip_line_result [of c lx]
  by (metis not_None_eq)

section \<open>ReadToken and Lex\<close>

text \<open>The end of \<open>ReadToken\<close>: an invalid token is the exception \<open>Unknown token\<close>.\<close>

definition finish_token :: "token \<times> lexer \<Rightarrow> (lexer_error + token \<times> lexer) option" where
  "finish_token r =
     (case r of (t, lx) \<Rightarrow>
        if tk_type t = Tok_Invalid then Some (Inl (lexer_error_at ''Unknown token'' lx))
        else Some (Inr (t, lx)))"

lemma read_operator_less:
  assumes "peek_char lx = Some c" "ctype_op c" "read_operator lx = (t, lx')"
  shows "weight lx' < weight lx"
proof -
  obtain lx1 where lx1: "get_char_if ctype_op lx = Some (c, lx1)"
    using assms(1,2) by (auto simp: get_char_if_def peek_char_def get_char_def Let_def split: list.splits)
  then have "advances lx1 lx'"
    using assms(3) by (auto simp: read_operator_def Let_def split: option.splits prod.splits if_splits
        intro: advances_get_char_if)
  moreover have "weight lx1 < weight lx"
    using lx1 by (simp add: get_char_if_Some get_char_weight)
  ultimately show ?thesis by (simp add: advances_def)
qed

function read_token :: "lexer \<Rightarrow> (lexer_error + token \<times> lexer) option" where
  "read_token lx0 =
     (let lx = skip_spaces lx0
      in case lx_buf lx of
           t # ts \<Rightarrow> Some (Inr (t, lx\<lparr>lx_buf := ts\<rparr>))
         | [] \<Rightarrow>
             (case peek_char lx of
                None \<Rightarrow> Some (Inr (token_of_type Tok_EndOfFile, lx))
              | Some c \<Rightarrow>
                  if ctype_digit c then finish_token (read_number lx)
                  else if ctype_ident_start c then finish_token (read_identifier lx)
                  else if ctype_symbol c then finish_token (read_symbol lx)
                  else if ctype_op c then
                    (case read_operator lx of
                       (t, lx1) \<Rightarrow>
                         if variant_int (tk_data t) = Some (uop2 (CHR ''/'') NUL)
                            \<and> peek_char lx1 = Some (CHR ''/'')
                         then (case skip_line c lx1 of
                                 None \<Rightarrow> None
                               | Some lx2 \<Rightarrow> read_token lx2)
                         else finish_token (t, lx1))
                  else if c = CHR 0x22 then
                    (case read_string lx of
                       Inl e \<Rightarrow> Some (Inl e)
                     | Inr r \<Rightarrow> finish_token r)
                  else finish_token (no_token, lx)))"
  by pat_completeness auto
termination
proof (relation "measure weight")
  fix lx0 x c t lx1 lx2
  assume x: "x = skip_spaces lx0" and c: "peek_char x = Some c" "ctype_op c"
    and op: "(t, lx1) = read_operator x" and line: "skip_line c lx1 = Some lx2"
  have "weight lx2 \<le> weight lx1"
    using skip_line_result [OF line] by (simp add: advances_def)
  also have "weight lx1 < weight x"
    by (rule read_operator_less [OF c op [symmetric]])
  also have "weight x \<le> weight lx0"
    using advances_skip_spaces [of lx0] by (simp add: x advances_def)
  finally show "(lx2, lx0) \<in> measure weight" by simp
qed simp

declare read_token.simps [simp del]

text \<open>The branches of \<open>ReadToken\<close>, by what is found after the white space.\<close>

lemma read_token_buffered:
  "lx_buf (skip_spaces lx) = t # ts \<Longrightarrow>
     read_token lx = Some (Inr (t, skip_spaces lx\<lparr>lx_buf := ts\<rparr>))"
  by (simp add: read_token.simps [of lx])

lemma read_token_eof:
  "lx_buf (skip_spaces lx) = [] \<Longrightarrow> peek_char (skip_spaces lx) = None \<Longrightarrow>
     read_token lx = Some (Inr (token_of_type Tok_EndOfFile, skip_spaces lx))"
  by (simp add: read_token.simps [of lx])

definition token_kind :: "char \<Rightarrow> token_type" where
  "token_kind c =
     (if ctype_digit c then Tok_Integer else if ctype_ident_start c then Tok_Identifier
      else if ctype_symbol c then Tok_Symbol else if ctype_op c then Tok_Operator
      else if c = CHR 0x22 then Tok_String else Tok_Invalid)"

definition at_token :: "lexer \<Rightarrow> char \<Rightarrow> bool" where
  "at_token lx c \<longleftrightarrow> lx_buf lx = [] \<and> peek_char lx = Some c"

definition at_comment :: "token \<times> lexer \<Rightarrow> bool" where
  "at_comment r \<longleftrightarrow> variant_int (tk_data (fst r)) = Some (uop2 (CHR ''/'') NUL)
     \<and> peek_char (snd r) = Some (CHR ''/'')"

lemma read_token_at:
  assumes "at_token (skip_spaces lx) c"
  shows "token_kind c = Tok_Integer \<Longrightarrow> read_token lx = finish_token (read_number (skip_spaces lx))"
    and "token_kind c = Tok_Identifier \<Longrightarrow>
      read_token lx = finish_token (read_identifier (skip_spaces lx))"
    and "token_kind c = Tok_Symbol \<Longrightarrow> read_token lx = finish_token (read_symbol (skip_spaces lx))"
    and "token_kind c = Tok_Operator \<Longrightarrow> at_comment (read_operator (skip_spaces lx)) \<Longrightarrow>
      read_token lx = Option.bind (skip_line c (snd (read_operator (skip_spaces lx)))) read_token"
    and "token_kind c = Tok_Operator \<Longrightarrow> \<not> at_comment (read_operator (skip_spaces lx)) \<Longrightarrow>
      read_token lx = finish_token (read_operator (skip_spaces lx))"
    and "token_kind c = Tok_String \<Longrightarrow> read_token lx =
      (case read_string (skip_spaces lx) of Inl e \<Rightarrow> Some (Inl e) | Inr r \<Rightarrow> finish_token r)"
    and "token_kind c = Tok_Invalid \<Longrightarrow> read_token lx = finish_token (no_token, skip_spaces lx)"
  using assms
  by (auto simp: read_token.simps [of lx] at_token_def token_kind_def at_comment_def Let_def
      split: if_splits prod.splits option.splits)

lemma token_kind_cases:
  obtains (number) "token_kind c = Tok_Integer" | (ident) "token_kind c = Tok_Identifier"
    | (symbol) "token_kind c = Tok_Symbol" | (oper) "token_kind c = Tok_Operator"
    | (str) "token_kind c = Tok_String" | (other) "token_kind c = Tok_Invalid"
proof -
  have "token_kind c \<in> {Tok_Integer, Tok_Identifier, Tok_Symbol, Tok_Operator, Tok_String, Tok_Invalid}"
    by (simp add: token_kind_def)
  with that show thesis by blast
qed

lemma read_token_position:
  obtains (buffered) t ts where "lx_buf lx = t # ts"
    | (eof) "lx_buf lx = []" "peek_char lx = None" | (char) c where "at_token lx c"
  by (cases "lx_buf lx"; cases "peek_char lx") (auto simp: at_token_def)

lemma finish_token_Inr:
  "finish_token (t, lx) = Some (Inr (t', lx')) \<longleftrightarrow> token_ok t \<and> t' = t \<and> lx' = lx"
  by (auto simp: finish_token_def token_ok_def)

lemma finish_token_Some: "\<exists>y. finish_token r = Some y"
  by (simp add: finish_token_def split: prod.splits)

lemma read_token_progress:
  "read_token lx = Some (Inr (t, lx')) \<Longrightarrow>
     suffix (lx_in lx') (lx_in lx) \<and> (token_ok t \<and> tk_type t \<noteq> Tok_EndOfFile \<longrightarrow> weight lx' < weight lx)"
proof (induction lx rule: read_token.induct)
  case (1 lx0)
  let ?x = "skip_spaces lx0"
  have sp: "advances lx0 ?x" by (rule advances_skip_spaces)
  have fin: ?case if "consumes ?x t lx'"
    using that sp by (auto simp: consumes_def advances_def intro: suffix_order.trans)
  show ?case
  proof (cases "lx_buf ?x")
    case (Cons b bs)
    with "1.prems" have "t = b" "lx' = ?x\<lparr>lx_buf := bs\<rparr>"
      by (simp_all add: read_token.simps [of lx0])
    with Cons sp show ?thesis by (auto simp: advances_def weight_def)
  next
    case Nil
    note buf = Nil
    show ?thesis
    proof (cases "peek_char ?x")
      case None
      with "1.prems" buf have "tk_type t = Tok_EndOfFile" "lx' = ?x"
        by (auto simp: read_token.simps [of lx0] token_of_type_def)
      with sp show ?thesis by (simp add: advances_def)
    next
      case (Some c)
      note pk = Some
      consider (digit) "ctype_digit c"
        | (ident) "\<not> ctype_digit c" "ctype_ident_start c"
        | (symbol) "\<not> ctype_digit c" "\<not> ctype_ident_start c" "ctype_symbol c"
        | (op) "\<not> ctype_digit c" "\<not> ctype_ident_start c" "\<not> ctype_symbol c" "ctype_op c"
        | (rest) "\<not> ctype_digit c" "\<not> ctype_ident_start c" "\<not> ctype_symbol c" "\<not> ctype_op c"
        by blast
      then show ?thesis
      proof cases
        case digit
        with "1.prems" buf pk have "read_number ?x = (t, lx')"
          by (cases "read_number ?x") (simp add: read_token.simps [of lx0] finish_token_Inr)
        then show ?thesis by (intro fin reader_consumes)
      next
        case ident
        with "1.prems" buf pk have "read_identifier ?x = (t, lx')"
          by (cases "read_identifier ?x") (simp add: read_token.simps [of lx0] finish_token_Inr)
        then show ?thesis by (intro fin reader_consumes)
      next
        case symbol
        with "1.prems" buf pk have "read_symbol ?x = (t, lx')"
          by (cases "read_symbol ?x") (simp add: read_token.simps [of lx0] finish_token_Inr)
        then show ?thesis by (intro fin reader_consumes)
      next
        case op
        obtain u lx1 where u: "read_operator ?x = (u, lx1)" by force
        show ?thesis
        proof (cases "variant_int (tk_data u) = Some (uop2 (CHR ''/'') NUL)
            \<and> peek_char lx1 = Some (CHR ''/'')")
          case False
          with "1.prems" buf pk op u have "read_operator ?x = (t, lx')"
            by (simp add: read_token.simps [of lx0] finish_token_Inr)
          then show ?thesis by (intro fin reader_consumes)
        next
          case True
          with "1.prems" buf pk op u obtain lx2 where lx2: "skip_line c lx1 = Some lx2"
            by (auto simp: read_token.simps [of lx0] split: option.splits)
          with True "1.prems" buf pk op u have "read_token lx2 = Some (Inr (t, lx'))"
            by (simp add: read_token.simps [of lx0])
          then have IH: "suffix (lx_in lx') (lx_in lx2)
              \<and> (token_ok t \<and> tk_type t \<noteq> Tok_EndOfFile \<longrightarrow> weight lx' < weight lx2)"
            using "1.IH" buf pk op u True lx2 by simp
          have "advances lx0 lx2"
            using sp reader_consumes(5) [OF u] skip_line_result [OF lx2]
            by (meson advances_trans consumes_def)
          with IH show ?thesis by (auto simp: advances_def intro: suffix_order.trans)
        qed
      next
        case rest
        with "1.prems" buf pk have "c = CHR 0x22 \<and> read_string ?x = Inr (t, lx')"
          by (auto simp: read_token.simps [of lx0] finish_token_Inr Let_def
              split: if_splits sum.splits)
        then show ?thesis by (intro fin) (simp add: reader_consumes)
      qed
    qed
  qed
qed

text \<open>
  \<open>Lexer::Lex\<close>: the tokens in order, closed by the token that ended the loop. The
  result is \<open>None\<close> when a call of \<open>ReadToken\<close> does not return.
\<close>

function lex :: "lexer \<Rightarrow> (lexer_error + token list) option" where
  "lex lx =
     (case read_token lx of
        None \<Rightarrow> None
      | Some (Inl e) \<Rightarrow> Some (Inl e)
      | Some (Inr (t, lx')) \<Rightarrow>
          if token_ok t \<and> tk_type t \<noteq> Tok_EndOfFile
          then (case lex lx' of
                  None \<Rightarrow> None
                | Some (Inl e) \<Rightarrow> Some (Inl e)
                | Some (Inr ts) \<Rightarrow> Some (Inr (t # ts)))
          else Some (Inr [t]))"
  by pat_completeness auto
termination
  by (relation "measure weight") (auto dest: read_token_progress)

declare lex.simps [simp del]

definition lex_source :: "string \<Rightarrow> (lexer_error + token list) option" where
  "lex_source s = lex (lexer_init s)"
end
