(* ===== verification/EOPlus_Lexer_Correct.thy ===== *)
theory EOPlus_Lexer_Correct
  imports EOPlus_Lexer
begin

text \<open>
  What the lexer guarantees: it returns on every text file (a text whose last line is
  closed), it never returns on a last line that is an open line comment, and it reads back
  any sequence of tokens from its printed form.
\<close>

section \<open>Termination\<close>

definition closed_text :: "string \<Rightarrow> bool" where
  "closed_text s \<longleftrightarrow> s = [] \<or> last s = newline_char"

lemma closed_text_suffix: "suffix s' s \<Longrightarrow> closed_text s \<Longrightarrow> closed_text s'"
  by (cases "s' = []") (auto simp: closed_text_def suffix_def last_append)

lemma closed_text_newline: "closed_text s \<Longrightarrow> s \<noteq> [] \<Longrightarrow> newline_char \<in> set s"
  using last_in_set by (force simp: closed_text_def)

lemma closed_text_advances: "advances lx lx' \<Longrightarrow> closed_text (lx_in lx) \<Longrightarrow> closed_text (lx_in lx')"
  by (auto simp: advances_def intro: closed_text_suffix)

lemma read_token_returns: "closed_text (lx_in lx) \<Longrightarrow> read_token lx \<noteq> None"
proof (induction "weight lx" arbitrary: lx rule: less_induct)
  case (less lx0)
  let ?x = "skip_spaces lx0"
  have closed: "closed_text (lx_in ?x)"
    using less.prems advances_skip_spaces closed_text_advances by blast
  show ?case
  proof (cases rule: read_token_position [of ?x])
    case (char c)
    show ?thesis
    proof (cases rule: token_kind_cases [of c])
      case oper
      show ?thesis
      proof (cases "at_comment (read_operator ?x)")
        case True
        obtain t lx1 where r: "read_operator ?x = (t, lx1)" by force
        have lx1: "closed_text (lx_in lx1)" "lx_in lx1 \<noteq> []"
          using reader_consumes(5) [OF r] closed closed_text_advances True r
          by (auto simp: consumes_def peek_char_def at_comment_def)
        then obtain lx2 where lx2: "skip_line c lx1 = Some lx2"
          using skip_line_newline closed_text_newline by blast
        have "weight lx1 < weight ?x"
          using char oper r by (intro read_operator_less)
            (auto simp: at_token_def token_kind_def split: if_splits)
        then have "weight lx2 < weight lx0" "closed_text (lx_in lx2)"
          using skip_line_result [OF lx2] advances_skip_spaces [of lx0] lx1 closed_text_advances
          by (auto simp: advances_def)
        with less.hyps char oper True r lx2 show ?thesis by (simp add: read_token_at)
      qed (use char oper in \<open>simp add: read_token_at finish_token_Some\<close>)
    qed (use char in \<open>simp_all add: read_token_at finish_token_Some split: sum.split\<close>)
  qed (simp_all add: read_token_buffered read_token_eof)
qed

lemma lex_returns: "closed_text (lx_in lx) \<Longrightarrow> lex lx \<noteq> None"
proof (induction lx rule: lex.induct)
  case (1 lx)
  have "lex lx' \<noteq> None" if "read_token lx = Some (Inr (t, lx'))"
    "token_ok t \<and> tk_type t \<noteq> Tok_EndOfFile" for t lx'
    using that 1 read_token_progress closed_text_suffix by blast
  with read_token_returns [OF "1.prems"] show ?case
    by (subst lex.simps) (auto split: option.splits sum.splits prod.splits)
qed

text \<open>C3: the lexer returns, with tokens or with an error, on every text that is empty or
  ends with a newline.\<close>

theorem lex_source_returns:
  assumes "closed_text s"
  shows "lex_source s \<noteq> None"
  using assms lex_returns by (simp add: lex_source_def lexer_init_def)

theorem lex_source_returns_witness:
  "closed_text [CHR ''/'', CHR ''/'', CHR ''x'', newline_char]
   \<and> lex_source [CHR ''/'', CHR ''/'', CHR ''x'', newline_char] \<noteq> None"
proof -
  have "closed_text [CHR ''/'', CHR ''/'', CHR ''x'', newline_char]"
    by (simp add: closed_text_def)
  with lex_source_returns show ?thesis by blast
qed

lemmas char_class_defs =
  ctype_op_def ctype_symbol_def ctype_whitespace_def ctype_alpha_def ctype_digit_def
  ctype_ident_start_def ctype_ident_def is_digit_char_def is_alpha_char_def is_upper_char_def
  is_lower_char_def is_space_char_def ccode_def newline_char_def

text \<open>C4: on a text that consists of a line comment without a newline the lexer never
  returns: the loop that skips the comment does not notice the end of the input.\<close>

theorem lex_source_open_comment_diverges:
  assumes "newline_char \<notin> set s"
  shows "lex_source (''//'' @ s) = None"
proof -
  define lx where "lx = lexer_init (''//'' @ s)"
  have sp: "skip_spaces lx = lx"
    by (subst skip_spaces.simps)
      (simp add: lx_def get_char_if_def peek_char_def lexer_init_def char_class_defs)
  obtain lx1 where op: "read_operator lx = (mk_token Tok_Operator (VInt 15), lx1)"
    and lx1: "lx_in lx1 = CHR ''/'' # s"
    by (simp add: lx_def read_operator_def get_char_if_def peek_char_def get_char_def lexer_init_def
        Let_def char_class_defs check_op_def NUL_def uop2_def u8_def char_of_def)
  have "skip_line (CHR ''/'') lx1 = None"
    using assms by (simp add: skip_line_None_iff newline_char_def lx1)
  moreover have "at_token (skip_spaces lx) (CHR ''/'')"
    unfolding sp by (simp add: lx_def at_token_def peek_char_def lexer_init_def)
  moreover have "token_kind (CHR ''/'') = Tok_Operator"
    by (simp add: token_kind_def char_class_defs)
  moreover have "at_comment (read_operator (skip_spaces lx))"
    by (simp add: sp op lx1 at_comment_def peek_char_def uop2_def u8_def NUL_def ccode_def)
  ultimately have "read_token lx = None"
    by (simp add: read_token_at sp op)
  then show ?thesis unfolding lex_source_def lx_def [symmetric] by (simp add: lex.simps [of lx])
qed

theorem lex_source_open_comment_diverges_witness:
  "newline_char \<notin> set '' end of file'' \<and> lex_source (''//'' @ '' end of file'') = None"
proof -
  have "newline_char \<notin> set '' end of file''" by (simp add: newline_char_def)
  with lex_source_open_comment_diverges show ?thesis by blast
qed

section \<open>The printed form of tokens\<close>

text \<open>
  \<open>print_token\<close> writes a token the way a quest file spells it, \<open>unlex\<close> writes a
  sequence of tokens with a space after each. A token is printable when the language has a
  spelling for it: identifiers are in lower case and are not \<open>true\<close> or \<open>false\<close>, strings have
  no newline, integers fit an \<open>int\<close>, and operators are those \<open>check_op\<close> admits.
\<close>

definition printable_ops :: "operator list" where
  "printable_ops = [LeftParens, RightParens, BitAnd, LogicalAnd, BitOr, LogicalOr, Equality,
     Inequality, LessThan, LessThanEqual, GreaterThan, GreaterThanEqual, Add, Subtract, Multiply,
     Divide, Modulo, LogicalNot]"

fun op_text :: "operator \<Rightarrow> string" where
  "op_text op = (case op_chars op of (a, b) \<Rightarrow> if b = NUL then [a] else [a, b])"

fun escape_char :: "char \<Rightarrow> string" where
  "escape_char c = (if c = CHR 0x22 \<or> c = CHR 0x5C then [CHR 0x5C, c] else [c])"

fun print_data :: "token_type \<Rightarrow> variant \<Rightarrow> string" where
  "print_data Tok_NewLine v = [newline_char]"
| "print_data Tok_String v =
     CHR 0x22 # concat (map escape_char (variant_string v)) @ [CHR 0x22]"
| "print_data Tok_Boolean v = (if variant_bool v = Some True then ''true'' else ''false'')"
| "print_data Tok_Operator v =
     (case find (\<lambda>op. variant_int v = Some (op_code op)) printable_ops of
        None \<Rightarrow> [] | Some op \<Rightarrow> op_text op)"
| "print_data ty v = variant_string v"

fun print_ok :: "token_type \<Rightarrow> variant \<Rightarrow> bool" where
  "print_ok Tok_Identifier (VString s) =
     (s \<noteq> [] \<and> ctype_ident_start (hd s) \<and> (\<forall>c \<in> set (tl s). ctype_ident c)
      \<and> (\<forall>c \<in> set s. \<not> is_upper_char c) \<and> s \<noteq> ''true'' \<and> s \<noteq> ''false'')"
| "print_ok Tok_String (VString s) = (newline_char \<notin> set s)"
| "print_ok Tok_Integer (VInt i) = (0 \<le> i \<and> i \<le> int_max)"
| "print_ok Tok_Boolean (VBool b) = True"
| "print_ok Tok_Operator (VInt i) = (i \<in> op_code ` set printable_ops)"
| "print_ok Tok_Symbol (VString s) = (length s = 1 \<and> ctype_symbol (hd s))"
| "print_ok Tok_NewLine (VInt i) = (i = 0)"
| "print_ok _ _ = False"

declare escape_char.simps [simp del]

lemma escape_special: "c = CHR 0x22 \<or> c = CHR 0x5C \<Longrightarrow> escape_char c = [CHR 0x5C, c]"
  by (simp add: escape_char.simps)

lemma escape_plain: "\<not> (c = CHR 0x22 \<or> c = CHR 0x5C) \<Longrightarrow> escape_char c = [c]"
  by (simp add: escape_char.simps)

definition printable :: "token \<Rightarrow> bool" where
  "printable t \<longleftrightarrow> tk_newlines t = 0 \<and> print_ok (tk_type t) (tk_data t)"

definition print_token :: "token \<Rightarrow> string" where
  "print_token t = print_data (tk_type t) (tk_data t)"

definition unlex :: "token list \<Rightarrow> string" where
  "unlex ts = concat (map (\<lambda>t. print_token t @ '' '') ts)"

lemma unlex_simps [simp]: "unlex [] = []" "unlex (t # ts) = print_token t @ CHR '' '' # unlex ts"
  by (simp_all add: unlex_def)

lemma printable_mk: "printable t \<Longrightarrow> t = mk_token (tk_type t) (tk_data t)"
  by (simp add: printable_def mk_token_def)

subsection \<open>Reading back\<close>

lemma get_char_if_hit:
  "lx_in lx = c # cs \<Longrightarrow> f c \<Longrightarrow> c \<noteq> newline_char \<Longrightarrow>
     get_char_if f lx = Some (c, lx\<lparr>lx_in := cs, lx_col := lx_col lx + 1\<rparr>)"
  by (simp add: get_char_if_Some get_char_Some)

lemma get_char_if_miss: "lx_in lx = c # cs \<Longrightarrow> \<not> f c \<Longrightarrow> get_char_if f lx = None"
  by (simp add: get_char_if_def peek_char_def)

lemma get_char_if_end: "lx_in lx = [] \<Longrightarrow> get_char_if f lx = None"
  by (simp add: get_char_if_def peek_char_def)

lemma newline_classes [simp]:
  "\<not> ctype_ident newline_char" "\<not> ctype_ident_start newline_char" "\<not> ctype_digit newline_char"
  "\<not> ctype_symbol newline_char" "\<not> ctype_op newline_char" "ctype_whitespace newline_char"
  by (simp_all add: char_class_defs)

definition reads :: "lexer \<Rightarrow> string \<Rightarrow> lexer \<Rightarrow> bool" where
  "reads lx rest lx' \<longleftrightarrow> lx_in lx' = rest \<and> lx_buf lx' = lx_buf lx"

lemma read_digits_reads:
  "\<forall>c \<in> set ds. ctype_digit c \<Longrightarrow> 0 \<le> acc \<Longrightarrow> dec_value acc ds \<le> int_max \<Longrightarrow>
   lx_in lx = ds @ CHR '' '' # rest \<Longrightarrow>
     \<exists>lx'. read_digits acc lx = (dec_value acc ds, lx') \<and> reads lx (CHR '' '' # rest) lx'"
proof (induction ds arbitrary: acc lx)
  case Nil
  then have "get_char_if ctype_digit lx = None"
    by (simp add: get_char_if_miss char_class_defs)
  with Nil show ?case by (simp add: read_digits.simps [of acc lx] reads_def)
next
  case (Cons d ds)
  have d: "is_digit_char d" "d \<noteq> newline_char" "0 \<le> digit_value d" "digit_value d \<le> 9"
    using Cons.prems(1) digit_value_range [of d] by (auto simp: char_class_defs)
  have "10 * acc + digit_value d \<le> dec_value acc (d # ds)"
    using Cons.prems d by (simp add: dec_value_mono ctype_digit_def)
  then have le: "10 * acc + digit_value d \<le> int_max"
    using Cons.prems(3) by linarith
  then have "\<not> acc > int_max div 10" "s32 (acc * 10) = acc * 10"
      "s32 (acc * 10 + digit_value d) = 10 * acc + digit_value d"
    using d(3,4) Cons.prems(2) by (simp_all add: int_max_def s32_def)
  moreover have "get_char_if ctype_digit lx =
      Some (d, lx\<lparr>lx_in := ds @ CHR '' '' # rest, lx_col := lx_col lx + 1\<rparr>)"
    using Cons.prems d by (simp add: get_char_if_hit)
  ultimately show ?case
    using Cons.IH [of "10 * acc + digit_value d"
        "lx\<lparr>lx_in := ds @ CHR '' '' # rest, lx_col := lx_col lx + 1\<rparr>"] Cons.prems d(3)
    by (simp add: read_digits.simps [of acc lx] reads_def)
qed

lemma read_string_body_reads:
  "newline_char \<notin> set s \<Longrightarrow> lx_in lx = concat (map escape_char s) @ CHR 0x22 # rest \<Longrightarrow>
     \<exists>lx'. read_string_body False acc lx = Inr (acc @ s, lx') \<and> reads lx rest lx'"
proof (induction s arbitrary: acc lx)
  case Nil
  then show ?case
    by (simp add: read_string_body.simps [of _ _ lx] get_char_def newline_char_def reads_def)
next
  case (Cons c s)
  let ?in = "concat (map escape_char s) @ CHR 0x22 # rest"
  have c: "c \<noteq> newline_char" using Cons.prems(1) by auto
  have IH: "\<exists>lx'. read_string_body False (acc @ [c]) lx1 = Inr (acc @ c # s, lx')
      \<and> reads lx1 rest lx'" if "lx_in lx1 = ?in" for lx1
    using Cons.IH [of lx1 "acc @ [c]"] Cons.prems(1) that by simp
  show ?case
  proof (cases "c = CHR 0x22 \<or> c = CHR 0x5C")
    case True
    let ?lx1 = "lx\<lparr>lx_in := ?in, lx_col := lx_col lx + 2\<rparr>"
    have "lx_in lx = CHR 0x5C # c # ?in"
      using Cons.prems(2) escape_special [OF True] by simp
    then have "read_string_body False acc lx = read_string_body False (acc @ [c]) ?lx1"
      using c
      by (simp add: read_string_body.simps [of False acc lx] read_string_body.simps [of True]
          get_char_def newline_char_def Let_def)
    with IH [of ?lx1] show ?thesis by (simp add: reads_def)
  next
    case False
    let ?lx1 = "lx\<lparr>lx_in := ?in, lx_col := lx_col lx + 1\<rparr>"
    have "lx_in lx = c # ?in"
      using Cons.prems(2) escape_plain [OF False] by simp
    then have "read_string_body False acc lx = read_string_body False (acc @ [c]) ?lx1"
      using c False
      by (simp add: read_string_body.simps [of False acc lx] get_char_def Let_def)
    with IH [of ?lx1] show ?thesis by (simp add: reads_def)
  qed
qed

lemma read_ident_rest_reads:
  "\<forall>c \<in> set cs. ctype_ident c \<Longrightarrow> lx_in lx = cs @ CHR '' '' # rest \<Longrightarrow>
     \<exists>lx'. read_ident_rest acc lx = (acc @ cs, lx') \<and> reads lx (CHR '' '' # rest) lx'"
proof (induction cs arbitrary: acc lx)
  case Nil
  then have "get_char_if ctype_ident lx = None"
    by (simp add: get_char_if_miss char_class_defs)
  with Nil show ?case by (simp add: read_ident_rest.simps [of acc lx] reads_def)
next
  case (Cons c cs)
  have "c \<noteq> newline_char" using Cons.prems(1) newline_classes by auto
  with Cons.prems have "get_char_if ctype_ident lx =
      Some (c, lx\<lparr>lx_in := cs @ CHR '' '' # rest, lx_col := lx_col lx + 1\<rparr>)"
    by (simp add: get_char_if_hit)
  with Cons.IH [of "lx\<lparr>lx_in := cs @ CHR '' '' # rest, lx_col := lx_col lx + 1\<rparr>" "acc @ [c]"] Cons.prems
  show ?case by (simp add: read_ident_rest.simps [of acc lx] reads_def)
qed

lemma printable_cases:
  assumes "printable t"
  obtains (ident) s where "t = mk_token Tok_Identifier (VString s)"
      "print_ok Tok_Identifier (VString s)"
    | (str) s where "t = mk_token Tok_String (VString s)" "newline_char \<notin> set s"
    | (int) i where "t = mk_token Tok_Integer (VInt i)" "0 \<le> i" "i \<le> int_max"
    | (boolean) b where "t = mk_token Tok_Boolean (VBool b)"
    | (oper) op where "t = mk_token Tok_Operator (VInt (op_code op))" "op \<in> set printable_ops"
    | (symbol) c where "t = mk_token Tok_Symbol (VString [c])" "ctype_symbol c"
    | (newline) "t = mk_token Tok_NewLine (VInt 0)"
proof -
  from assms have "t = mk_token (tk_type t) (tk_data t)" "print_ok (tk_type t) (tk_data t)"
    by (simp_all add: printable_mk printable_def [of t])
  then show thesis
    using that
    by (cases "tk_type t"; cases "tk_data t")
      (auto simp: length_Suc_conv)
qed

text \<open>What the reader for the kind of a printed token yields.\<close>

definition reader_for :: "token_type \<Rightarrow> lexer \<Rightarrow> lexer_error + token \<times> lexer" where
  "reader_for ty lx =
     (case ty of
        Tok_Integer \<Rightarrow> Inr (read_number lx) | Tok_Identifier \<Rightarrow> Inr (read_identifier lx)
      | Tok_Symbol \<Rightarrow> Inr (read_symbol lx) | Tok_Operator \<Rightarrow> Inr (read_operator lx)
      | Tok_String \<Rightarrow> read_string lx | _ \<Rightarrow> Inr (no_token, lx))"

lemma read_token_reader:
  assumes "at_token (skip_spaces lx) c" "reader_for (token_kind c) (skip_spaces lx) = Inr (t, lx')"
    and "token_ok t" "token_kind c = Tok_Operator \<Longrightarrow> \<not> at_comment (t, lx')"
  shows "read_token lx = Some (Inr (t, lx'))"
  using assms by (cases rule: token_kind_cases [of c])
    (auto simp: read_token_at reader_for_def finish_token_def token_ok_def)

lemma read_identifier_reads:
  assumes "ctype_ident_start c" "\<forall>c \<in> set s. ctype_ident c" "lx_in lx = c # s @ CHR '' '' # rest"
  shows "\<exists>lx'. read_identifier lx =
      ((if lowercase (c # s) \<in> {''true'', ''false''}
        then mk_token Tok_Boolean (VBool (lowercase (c # s) = ''true''))
        else mk_token Tok_Identifier (VString (lowercase (c # s)))), lx')
      \<and> reads lx (CHR '' '' # rest) lx'"
proof -
  have "c \<noteq> newline_char" using assms(1) newline_classes by auto
  define lx1 where "lx1 = lx\<lparr>lx_in := s @ CHR '' '' # rest, lx_col := lx_col lx + 1\<rparr>"
  have "get_char_if ctype_ident_start lx = Some (c, lx1)"
    using assms \<open>c \<noteq> newline_char\<close> by (simp add: get_char_if_hit lx1_def)
  moreover obtain lx2 where "read_ident_rest [c] lx1 = (c # s, lx2)" "reads lx1 (CHR '' '' # rest) lx2"
    using read_ident_rest_reads [OF assms(2), of lx1 rest "[c]"] by (auto simp: lx1_def)
  ultimately show ?thesis by (simp add: read_identifier_def Let_def reads_def lx1_def)
qed

lemma read_number_reads:
  assumes "0 \<le> i" "i \<le> int_max" "lx_in lx = dec_of_int i @ CHR '' '' # rest"
  shows "\<exists>lx'. read_number lx = (mk_token Tok_Integer (VInt i), lx')
      \<and> reads lx (CHR '' '' # rest) lx'"
proof -
  obtain d ds where ds: "dec_of_nat (nat i) = d # ds"
    by (metis dec_of_nat_nonempty neq_Nil_conv)
  then have digits: "\<forall>c \<in> set (d # ds). ctype_digit c"
    using dec_of_nat_digits [of _ "nat i"] by (auto simp: ctype_digit_def)
  then have d: "d \<noteq> newline_char" "0 \<le> digit_value d"
    using newline_classes digit_value_range by (auto simp: ctype_digit_def)
  have val: "dec_value (digit_value d) ds = i"
    using dec_value_dec_of_nat [of "nat i"] assms(1) by (simp add: ds)
  let ?lx = "lx\<lparr>lx_in := ds @ CHR '' '' # rest, lx_col := lx_col lx + 1\<rparr>"
  have "get_char_if ctype_digit lx = Some (d, ?lx)"
    using assms digits d ds by (simp add: get_char_if_hit dec_of_int_def)
  with read_digits_reads [of ds "digit_value d" ?lx] digits d val assms(2)
  show ?thesis by (auto simp: read_number_def reads_def)
qed

lemma read_operator_reads:
  assumes "op \<in> set printable_ops" "lx_in lx = op_text op @ CHR '' '' # rest"
  shows "\<exists>lx'. read_operator lx = (mk_token Tok_Operator (VInt (op_code op)), lx')
      \<and> reads lx (CHR '' '' # rest) lx'"
  using assms
  by (auto simp: printable_ops_def read_operator_def get_char_if_def peek_char_def get_char_def
      Let_def reads_def check_op_def uop2_def u8_def NUL_def UOP_ALT_def ccode_def ctype_op_def
      newline_char_def char_of_def)

subsection \<open>A printed token is read back\<close>

lemma symbol_kind:
  assumes "ctype_symbol c"
  shows "token_kind c = Tok_Symbol" "\<not> ctype_whitespace c"
proof -
  from assms have "c \<in> set '';{}.,''"
    by (simp add: ctype_symbol_def split: if_splits)
  then have "token_kind c = Tok_Symbol \<and> \<not> ctype_whitespace c"
    by (simp, elim disjE) (simp_all add: token_kind_def char_class_defs)
  then show "token_kind c = Tok_Symbol" "\<not> ctype_whitespace c" by auto
qed

lemma operator_kind:
  assumes "ctype_op c"
  shows "token_kind c = Tok_Operator" "\<not> ctype_whitespace c"
proof -
  from assms have "c \<in> set ''()&|=!<>+-*/%''"
    by (simp add: ctype_op_def split: if_splits)
  then have "token_kind c = Tok_Operator \<and> \<not> ctype_whitespace c"
    by (simp, elim disjE) (simp_all add: token_kind_def char_class_defs)
  then show "token_kind c = Tok_Operator" "\<not> ctype_whitespace c" by auto
qed

lemma reader_for_print:
  assumes "printable t" "tk_type t \<noteq> Tok_NewLine" "lx_in lx = print_token t @ CHR '' '' # rest"
  shows "\<exists>c lx'. peek_char lx = Some c \<and> \<not> ctype_whitespace c
    \<and> reader_for (token_kind c) lx = Inr (t, lx') \<and> reads lx (CHR '' '' # rest) lx'
    \<and> (token_kind c = Tok_Operator \<longrightarrow> \<not> at_comment (t, lx'))"
  using assms(1)
proof (cases rule: printable_cases)
  case (ident s)
  then obtain c s' where s: "s = c # s'" "ctype_ident_start c" "\<forall>c \<in> set s'. ctype_ident c"
    by (cases s) auto
  have low: "lowercase s = s"
    using ident(2) by (simp add: lowercase_def map_idI)
  have k: "token_kind c = Tok_Identifier" "\<not> ctype_whitespace c"
    using s(2) by (auto simp: token_kind_def char_class_defs)
  have "lx_in lx = c # s' @ CHR '' '' # rest"
    using assms(3) ident(1) s(1) by (simp add: print_token_def)
  with read_identifier_reads [OF s(2,3) this] low ident s(1) k show ?thesis
    by (auto simp: reader_for_def peek_char_def)
next
  case (boolean b)
  define s where "s = (if b then ''rue'' else ''alse'')"
  define c where "c = (if b then CHR ''t'' else CHR ''f'')"
  have s: "ctype_ident_start c" "\<forall>c \<in> set s. ctype_ident c"
    by (simp_all add: s_def c_def char_class_defs)
  have k: "token_kind c = Tok_Identifier" "\<not> ctype_whitespace c"
    by (simp_all add: c_def token_kind_def char_class_defs)
  have "lx_in lx = c # s @ CHR '' '' # rest"
    using assms(3) boolean by (simp add: print_token_def s_def c_def)
  moreover have "lowercase (c # s) = (if b then ''true'' else ''false'')"
    by (simp add: c_def s_def lowercase_def to_lower_def is_upper_char_def ccode_def)
  ultimately show ?thesis
    using read_identifier_reads [OF s, of lx rest] k boolean
    by (cases b) (auto simp: reader_for_def peek_char_def)
next
  case (int i)
  obtain d ds where ds: "dec_of_int i = d # ds" "ctype_digit d"
    using int(2) dec_of_nat_digits [of _ "nat i"] dec_of_nat_nonempty [of "nat i"]
    by (cases "dec_of_nat (nat i)") (auto simp: dec_of_int_def ctype_digit_def)
  then have k: "token_kind d = Tok_Integer" "\<not> ctype_whitespace d"
    by (auto simp: token_kind_def char_class_defs)
  have "lx_in lx = dec_of_int i @ CHR '' '' # rest"
    using assms(3) int(1) by (simp add: print_token_def)
  with read_number_reads [OF int(2,3) this] int(1) k ds(1) show ?thesis
    by (auto simp: reader_for_def peek_char_def)
next
  case (str s)
  then have inp: "lx_in lx = CHR 0x22 # concat (map escape_char s) @ CHR 0x22 # CHR '' '' # rest"
    using assms(3) by (simp add: print_token_def)
  have k: "token_kind (CHR 0x22) = Tok_String" "\<not> ctype_whitespace (CHR 0x22)"
    by (simp_all add: token_kind_def char_class_defs)
  define lx1 where "lx1 = lx\<lparr>lx_in := concat (map escape_char s) @ CHR 0x22 # CHR '' '' # rest,
    lx_col := lx_col lx + 1\<rparr>"
  have "get_char_if (\<lambda>c. c = CHR 0x22) lx = Some (CHR 0x22, lx1)"
    using inp by (simp add: get_char_if_hit newline_char_def lx1_def)
  moreover obtain lx2 where "read_string_body False [] lx1 = Inr (s, lx2)"
      "reads lx1 (CHR '' '' # rest) lx2"
    using read_string_body_reads [OF str(2), of lx1 "CHR '' '' # rest" "[]"]
    by (auto simp: lx1_def)
  ultimately show ?thesis
    using str(1) k inp by (simp add: reader_for_def peek_char_def read_string_def reads_def lx1_def)
next
  case (symbol c)
  note k = symbol_kind [OF symbol(2)]
  have "c \<noteq> newline_char" using symbol(2) newline_classes by auto
  moreover have inp: "lx_in lx = c # CHR '' '' # rest"
    using assms(3) symbol(1) by (simp add: print_token_def)
  ultimately show ?thesis
    using symbol k
    by (simp add: reader_for_def peek_char_def read_symbol_def get_char_if_hit reads_def)
next
  case (oper op)
  have "find (\<lambda>op'. op = op') printable_ops = Some op"
    using oper(2) by (auto simp: printable_ops_def)
  then have inp: "lx_in lx = op_text op @ CHR '' '' # rest"
    using assms(3) oper(1) by (simp add: print_token_def)
  obtain c cs where c: "op_text op = c # cs" "ctype_op c"
    using oper(2) by (auto simp: printable_ops_def NUL_def ctype_op_def char_of_def)
  note k = operator_kind [OF c(2)]
  from read_operator_reads [OF oper(2) inp] c(1) k oper(1) inp show ?thesis
    by (auto simp: reader_for_def peek_char_def reads_def at_comment_def)
qed (use assms in simp)

lemma skip_spaces_blank:
  "lx_in lx = CHR '' '' # cs \<Longrightarrow> skip_spaces lx = skip_spaces (lx\<lparr>lx_in := cs, lx_col := lx_col lx + 1\<rparr>)"
  by (subst skip_spaces.simps) (simp add: get_char_if_hit char_class_defs)

lemma skip_spaces_newline:
  "lx_in lx = newline_char # cs \<Longrightarrow> skip_spaces lx =
     skip_spaces (lx\<lparr>lx_in := cs, lx_col := 0, lx_row := lx_row lx + 1,
       lx_buf := lx_buf lx @ [token_of_type Tok_NewLine]\<rparr>)"
proof -
  assume "lx_in lx = newline_char # cs"
  then have "get_char_if ctype_whitespace lx = Some (newline_char,
      lx\<lparr>lx_in := cs, lx_col := 0, lx_row := lx_row lx + 1,
        lx_buf := lx_buf lx @ [token_of_type Tok_NewLine]\<rparr>)"
    by (simp add: get_char_if_Some get_char_Some)
  then show ?thesis by (subst skip_spaces.simps) simp
qed

lemma skip_spaces_stop:
  "peek_char lx = None \<or> (\<exists>c. peek_char lx = Some c \<and> \<not> ctype_whitespace c) \<Longrightarrow> skip_spaces lx = lx"
  by (subst skip_spaces.simps) (auto simp: get_char_if_def)

text \<open>Skipping white space moves the leading newline tokens of a printed text to the buffer.\<close>

lemma skip_spaces_unlex:
  "\<forall>t \<in> set ts. printable t \<Longrightarrow> lx_in lx = unlex ts \<Longrightarrow>
     \<exists>nls ts'. ts = nls @ ts' \<and> (ts' \<noteq> [] \<longrightarrow> tk_type (hd ts') \<noteq> Tok_NewLine)
       \<and> lx_in (skip_spaces lx) = unlex ts' \<and> lx_buf (skip_spaces lx) = lx_buf lx @ nls"
proof (induction ts arbitrary: lx)
  case Nil
  then have "skip_spaces lx = lx"
    by (simp add: skip_spaces_stop peek_char_def)
  with Nil show ?case by simp
next
  case (Cons t ts)
  show ?case
  proof (cases "tk_type t = Tok_NewLine")
    case True
    then have t: "t = token_of_type Tok_NewLine"
      using Cons.prems(1) by (auto simp: token_of_type_def elim!: printable_cases [of t])
    define lx1 where "lx1 = lx\<lparr>lx_in := unlex ts, lx_col := 1, lx_row := lx_row lx + 1,
        lx_buf := lx_buf lx @ [t]\<rparr>"
    have "lx_in lx = newline_char # CHR '' '' # unlex ts"
      using Cons.prems(2) t by (simp add: print_token_def token_of_type_def)
    then have "skip_spaces lx = skip_spaces lx1"
      by (cases lx) (simp add: skip_spaces_newline skip_spaces_blank lx1_def t)
    moreover obtain nls ts' where "ts = nls @ ts'"
        "ts' \<noteq> [] \<longrightarrow> tk_type (hd ts') \<noteq> Tok_NewLine"
        "lx_in (skip_spaces lx1) = unlex ts'" "lx_buf (skip_spaces lx1) = lx_buf lx1 @ nls"
      using Cons.IH [of lx1] Cons.prems(1) by (auto simp: lx1_def)
    ultimately show ?thesis
      by (intro exI [of _ "t # nls"] exI [of _ ts']) (simp add: lx1_def)
  next
    case False
    with Cons.prems have "\<exists>c. peek_char lx = Some c \<and> \<not> ctype_whitespace c"
      using reader_for_print [of t lx "unlex ts"] by auto
    then have "skip_spaces lx = lx" by (simp add: skip_spaces_stop)
    with Cons.prems(2) False show ?thesis by (intro exI [of _ "[]"] exI [of _ "t # ts"]) simp
  qed
qed

lemma lex_buffered_or_printed:
  "\<forall>t \<in> set (bs @ ts). printable t \<Longrightarrow> lx_buf lx = bs \<Longrightarrow>
   lx_in lx = unlex ts \<or> lx_in lx = CHR '' '' # unlex ts \<Longrightarrow>
     lex lx = Some (Inr (bs @ ts @ [token_of_type Tok_EndOfFile]))"
proof (induction "length bs + length ts" arbitrary: bs ts lx rule: less_induct)
  case less
  define lx0 where "lx0 = (if lx_in lx = unlex ts then lx
    else lx\<lparr>lx_in := unlex ts, lx_col := lx_col lx + 1\<rparr>)"
  have lx0: "lx_in lx0 = unlex ts" "lx_buf lx0 = bs" "skip_spaces lx = skip_spaces lx0"
    using less.prems(2,3) skip_spaces_blank [of lx "unlex ts"] by (auto simp: lx0_def)
  obtain nls ts' where sp: "ts = nls @ ts'" "ts' \<noteq> [] \<longrightarrow> tk_type (hd ts') \<noteq> Tok_NewLine"
      "lx_in (skip_spaces lx) = unlex ts'" "lx_buf (skip_spaces lx) = bs @ nls"
    using skip_spaces_unlex [of ts lx0] less.prems(1) lx0 by auto
  have step: ?case if "read_token lx = Some (Inr (t, lx'))" "printable t"
    "bs @ ts = t # bs' @ ts''" "lx_buf lx' = bs'"
    "lx_in lx' = unlex ts'' \<or> lx_in lx' = CHR '' '' # unlex ts''" for t lx' bs' ts''
  proof -
    have ok: "token_ok t \<and> tk_type t \<noteq> Tok_EndOfFile"
      using that(2) by (auto simp: token_ok_def elim!: printable_cases [of t])
    have "length bs + length ts = Suc (length bs' + length ts'')"
      using arg_cong [OF that(3), of length] by simp
    moreover have "\<forall>t \<in> set (bs' @ ts''). printable t"
      using less.prems(1) by (simp add: that(3) del: set_append)
    ultimately have "lex lx' = Some (Inr (bs' @ ts'' @ [token_of_type Tok_EndOfFile]))"
      using that(4,5) by (intro less.hyps) simp_all
    moreover have "bs @ ts @ [token_of_type Tok_EndOfFile] = t # bs' @ ts'' @ [token_of_type Tok_EndOfFile]"
      using that(3) by (metis append.assoc append_Cons)
    ultimately show ?thesis
      using that(1) ok by (simp add: lex.simps [of lx])
  qed
  show ?case
  proof (cases "bs @ nls")
    case (Cons t bs')
    with sp have "read_token lx = Some (Inr (t, skip_spaces lx\<lparr>lx_buf := bs'\<rparr>))"
      by (simp add: read_token_buffered)
    moreover have "bs @ ts = t # bs' @ ts'"
      using Cons sp(1) by (metis append.assoc append_Cons)
    moreover from this have "printable t"
      using less.prems(1) by (metis list.set_intros(1))
    ultimately show ?thesis using sp by (intro step) auto
  next
    case Nil
    note empty = Nil
    show ?thesis
    proof (cases ts')
      case Nil
      with empty sp have "read_token lx = Some (Inr (token_of_type Tok_EndOfFile, skip_spaces lx))"
        by (simp add: read_token_eof peek_char_def)
      with empty sp(1) Nil show ?thesis by (simp add: lex.simps [of lx] token_of_type_def)
    next
      case (Cons t ts'')
      with sp less.prems(1) have t: "printable t" "tk_type t \<noteq> Tok_NewLine"
        "lx_in (skip_spaces lx) = print_token t @ CHR '' '' # unlex ts''" by auto
      then obtain c lx' where c: "peek_char (skip_spaces lx) = Some c"
          "reader_for (token_kind c) (skip_spaces lx) = Inr (t, lx')"
          "reads (skip_spaces lx) (CHR '' '' # unlex ts'') lx'"
          "token_kind c = Tok_Operator \<longrightarrow> \<not> at_comment (t, lx')"
        using reader_for_print by blast
      have "token_ok t"
        using t(1) by (auto simp: token_ok_def elim!: printable_cases [of t])
      with c empty sp(4) have "read_token lx = Some (Inr (t, lx'))"
        by (intro read_token_reader [of lx c]) (auto simp: at_token_def)
      with t(1) c(3) empty sp Cons show ?thesis
        by (intro step [of t lx' "[]" ts'']) (auto simp: reads_def)
    qed
  qed
qed

text \<open>C2: lexing the printed form of any sequence of printable tokens gives the sequence
  back, followed by the end-of-file token.\<close>

theorem lex_source_unlex:
  assumes "\<forall>t \<in> set ts. printable t"
  shows "lex_source (unlex ts) = Some (Inr (ts @ [token_of_type Tok_EndOfFile]))"
  using lex_buffered_or_printed [of "[]" ts "lexer_init (unlex ts)"] assms
  by (simp add: lex_source_def lexer_init_def)

definition sample_tokens :: "token list" where
  "sample_tokens =
    [mk_token Tok_Identifier (VString ''main''), mk_token Tok_Symbol (VString ''{''),
     mk_token Tok_NewLine (VInt 0), mk_token Tok_String (VString [CHR ''a'', CHR 0x22, CHR ''b'']),
     mk_token Tok_Integer (VInt 2147483647), mk_token Tok_Operator (VInt (op_code Divide)),
     mk_token Tok_Boolean (VBool True), mk_token Tok_NewLine (VInt 0)]"

theorem lex_source_unlex_witness:
  "list_all printable sample_tokens
   \<and> lex_source (unlex sample_tokens) = Some (Inr (sample_tokens @ [token_of_type Tok_EndOfFile]))"
proof -
  have "\<forall>t \<in> set sample_tokens. printable t"
    by (simp add: sample_tokens_def printable_def printable_ops_def char_class_defs int_max_def)
  with lex_source_unlex [of sample_tokens] show ?thesis by (simp add: list_all_iff)
qed

section \<open>Integer literals that do not fit\<close>

text \<open>the guard of \<open>ReadNumber\<close> against overflow does not saturate: it sets the number
  to \<open>INT_MAX\<close> and then multiplies it, so that 2147483650 is read as \<open>-10\<close>.\<close>

theorem read_number_overflow:
  "\<exists>lx'. read_number (lexer_init ''2147483650'') = (mk_token Tok_Integer (VInt (- 10)), lx')"
  by (simp add: read_number_def lexer_init_def get_char_if_def peek_char_def get_char_def Let_def
      read_digits.simps char_class_defs digit_value_def s32_def int_max_def)

end
