(* ===== verification/EOPlus_Parser_Correct.thy ===== *)
theory EOPlus_Parser_Correct
  imports EOPlus_Parser EOPlus_Lexer_Correct
begin

text \<open>
  What the parser guarantees: its result depends on the tokens that are not newlines only,
  it reads back every well-formed quest from its printed form, and where its error
  messages are wrong.
\<close>

section \<open>The stream of significant tokens\<close>

definition significant :: "token list \<Rightarrow> (token_type \<times> variant) list" where
  "significant ts = map (\<lambda>t. (tk_type t, tk_data t)) (filter (\<lambda>t. tk_type t \<noteq> Tok_NewLine) ts)"

definition stream :: "server \<Rightarrow> (token_type \<times> variant) list" where
  "stream s = significant (ps_buf s @ ps_in s)"

lemma significant_simps [simp]:
  "significant [] = []"
  "significant (t # ts) =
     (if tk_type t = Tok_NewLine then significant ts else (tk_type t, tk_data t) # significant ts)"
  "significant (ts @ us) = significant ts @ significant us"
  by (simp_all add: significant_def)

lemma significant_newlines [simp]: "significant (replicate n (token_of_type Tok_NewLine)) = []"
  by (simp add: significant_def token_of_type_def)

lemma stream_put_back [simp]:
  "tk_type t \<noteq> Tok_NewLine \<Longrightarrow> stream (put_back t s) = (tk_type t, tk_data t) # stream s"
  by (simp add: stream_def put_back_def Let_def)

lemma stream_line [simp]: "stream (s\<lparr>ps_line := l\<rparr>) = stream s"
  by (simp add: stream_def)

lemma next_token_stream:
  "next_token s = (t, s') \<Longrightarrow>
     (stream s = [] \<and> t = no_token \<and> stream s' = [])
     \<or> (if tk_type t = Tok_NewLine then stream s = stream s'
        else stream s = (tk_type t, tk_data t) # stream s')"
  by (auto simp: next_token_def x_get_token_def stream_def split: list.splits)

lemma fetch_stream:
  "fetch allow n s = (t, s') \<Longrightarrow> \<not> allows allow Tok_NewLine \<Longrightarrow>
     tk_type t \<noteq> Tok_NewLine
     \<and> (stream s = (tk_type t, tk_data t) # stream s'
        \<or> stream s = [] \<and> tk_type t = Tok_Invalid \<and> stream s' = [])"
proof (induction allow n s rule: fetch.induct)
  case (1 allow n s)
  obtain u s1 where u: "next_token s = (u, s1)" by force
  show ?case
  proof (cases "tk_type u = Tok_NewLine")
    case True
    with 1(2,3) u have "fetch allow (n + 1) (s1\<lparr>ps_line := ps_line s1 + 1\<rparr>) = (t, s')"
      by (simp add: fetch.simps [of allow n s])
    with "1.IH" [of u s1 "s1\<lparr>ps_line := ps_line s1 + 1\<rparr>"] 1(3) u True next_token_stream [OF u]
    show ?thesis by (auto simp: no_token_def)
  next
    case False
    with 1(2) u next_token_stream [OF u] show ?thesis
      by (auto simp: fetch.simps [of allow n s] no_token_def)
  qed
qed

lemma allows_masks [simp]:
  "allows (allow_of [Tok_Integer]) ty \<longleftrightarrow> ty \<in> {Tok_Invalid, Tok_Integer}"
  "allows (allow_of [Tok_Symbol]) ty \<longleftrightarrow> ty \<in> {Tok_Invalid, Tok_Symbol}"
  "allows (allow_of [Tok_Identifier]) ty \<longleftrightarrow> ty \<in> {Tok_Invalid, Tok_Identifier}"
  "allows (allow_of [Tok_String]) ty \<longleftrightarrow> ty \<in> {Tok_Invalid, Tok_String}"
  "allows (allow_of [Tok_Operator]) ty \<longleftrightarrow> ty \<in> {Tok_Invalid, Tok_Operator}"
  "allows (allow_of [Tok_String, Tok_Float, Tok_Integer]) ty
     \<longleftrightarrow> ty \<in> {Tok_Invalid, Tok_String, Tok_Float, Tok_Integer}"
  "allows (allow_of [Tok_Symbol, Tok_Operator]) ty \<longleftrightarrow> ty \<in> {Tok_Invalid, Tok_Symbol, Tok_Operator}"
  "allows (allow_of [Tok_Identifier, Tok_Symbol]) ty
     \<longleftrightarrow> ty \<in> {Tok_Invalid, Tok_Identifier, Tok_Symbol}"
  "allows (allow_of [Tok_Identifier, Tok_EndOfFile]) ty
     \<longleftrightarrow> ty \<in> {Tok_Invalid, Tok_Identifier, Tok_EndOfFile}"
  by (cases ty; simp add: allows_def allow_of_def)+

lemma get_token_hit:
  assumes "stream s = (ty, d) # r" "allows allow ty" "\<not> allows allow Tok_NewLine"
  obtains t s' where "get_token allow s = (t, s')" "tk_type t = ty" "tk_data t = d" "stream s' = r"
proof -
  obtain u s1 where u: "fetch allow 0 s = (u, s1)" by force
  from fetch_stream [OF u assms(3)] assms u show thesis
    by (intro that [of u s1]) (auto simp: get_token_def)
qed

lemma get_token_miss:
  assumes "stream s = (ty, d) # r" "\<not> allows allow ty" "\<not> allows allow Tok_NewLine"
  obtains s' where "get_token allow s = (no_token, s')" "stream s' = stream s"
proof -
  obtain u s1 where u: "fetch allow 0 s = (u, s1)" by force
  from fetch_stream [OF u assms(3)] assms u show thesis
    by (intro that [of "put_back u s1"]) (auto simp: get_token_def)
qed

section \<open>Parsers as transformers of the stream\<close>

text \<open>\<open>runs p ts a ts'\<close>: on any server with the stream \<open>ts\<close>, however the newlines lie, \<open>p\<close>
  returns \<open>a\<close> and leaves the stream \<open>ts'\<close>.\<close>

definition runs ::
  "'a parser \<Rightarrow> (token_type \<times> variant) list \<Rightarrow> 'a \<Rightarrow> (token_type \<times> variant) list \<Rightarrow> bool" where
  "runs p ts a ts' \<longleftrightarrow> (\<forall>s. stream s = ts \<longrightarrow> (\<exists>s'. p s = Inr (a, s') \<and> stream s' = ts'))"

lemma runs_return: "runs (\<lambda>s. Inr (a, s)) ts a ts"
  by (simp add: runs_def)

lemma runs_get:
  assumes "allows allow ty" "\<not> allows allow Tok_NewLine"
    and "\<And>t. tk_type t = ty \<Longrightarrow> tk_data t = d \<Longrightarrow> runs (k t) r a ts'"
  shows "runs (\<lambda>s. case get_token allow s of (t, s1) \<Rightarrow> k t s1) ((ty, d) # r) a ts'"
  unfolding runs_def
proof (intro allI impI)
  fix s
  assume "stream s = (ty, d) # r"
  then obtain t s' where "get_token allow s = (t, s')" "tk_type t = ty" "tk_data t = d" "stream s' = r"
    using get_token_hit assms(1,2) by blast
  with assms(3) [of t] show "\<exists>s'. (case get_token allow s of (t, s1) \<Rightarrow> k t s1) = Inr (a, s') \<and> stream s' = ts'"
    by (simp add: runs_def)
qed

lemma runs_miss:
  assumes "\<not> allows allow ty" "\<not> allows allow Tok_NewLine" "runs (k no_token) ((ty, d) # r) a ts'"
  shows "runs (\<lambda>s. case get_token allow s of (t, s1) \<Rightarrow> k t s1) ((ty, d) # r) a ts'"
  unfolding runs_def
proof (intro allI impI)
  fix s
  assume s: "stream s = (ty, d) # r"
  then obtain s' where "get_token allow s = (no_token, s')" "stream s' = stream s"
    using get_token_miss assms(1,2) by blast
  with s assms(3) show "\<exists>s'. (case get_token allow s of (t, s1) \<Rightarrow> k t s1) = Inr (a, s') \<and> stream s' = ts'"
    by (simp add: runs_def)
qed

lemma runs_get_if:
  assumes "allows allow ty" "\<not> allows allow Tok_NewLine" "ty \<noteq> Tok_Invalid"
    and "\<And>t. tk_type t = ty \<Longrightarrow> tk_data t = d \<Longrightarrow> f t"
    and "\<And>t. tk_type t = ty \<Longrightarrow> tk_data t = d \<Longrightarrow> runs (k t) r a ts'"
  shows "runs (\<lambda>s. case get_token_if f allow s of (t, s1) \<Rightarrow> k t s1) ((ty, d) # r) a ts'"
proof -
  have "runs (\<lambda>s. case get_token allow s of (t, s1) \<Rightarrow>
      (case (if token_ok t \<and> \<not> f t then (no_token, put_back t s1) else (t, s1)) of (t, s1) \<Rightarrow> k t s1))
      ((ty, d) # r) a ts'"
    by (rule runs_get) (use assms in \<open>simp_all add: token_ok_def\<close>)
  then show ?thesis by (simp add: get_token_if_def runs_def case_prod_beta)
qed

lemma runs_miss_if:
  assumes "\<not> allows allow Tok_NewLine" "ty \<noteq> Tok_Invalid" "ty \<noteq> Tok_NewLine"
    and "\<And>t. allows allow ty \<Longrightarrow> tk_type t = ty \<Longrightarrow> tk_data t = d \<Longrightarrow> \<not> f t"
    and "runs (k no_token) ((ty, d) # r) a ts'"
  shows "runs (\<lambda>s. case get_token_if f allow s of (t, s1) \<Rightarrow> k t s1) ((ty, d) # r) a ts'"
proof -
  let ?k = "\<lambda>t s1. (case (if token_ok t \<and> \<not> f t then (no_token, put_back t s1) else (t, s1)) of
      (t, s1) \<Rightarrow> k t s1)"
  have "runs (\<lambda>s. case get_token allow s of (t, s1) \<Rightarrow> ?k t s1) ((ty, d) # r) a ts'"
  proof (cases "allows allow ty")
    case True
    have "runs (?k t) r a ts'" if "tk_type t = ty" "tk_data t = d" for t
      using that assms True by (auto simp: runs_def token_ok_def)
    with True assms(1) show ?thesis by (rule runs_get)
  next
    case False
    with assms show ?thesis by (intro runs_miss) simp_all
  qed
  then show ?thesis by (simp add: get_token_if_def runs_def case_prod_beta)
qed

lemma runs_bind:
  "runs p ts a ts1 \<Longrightarrow> runs (f a) ts1 b ts2 \<Longrightarrow> runs (bind_parser p f) ts b ts2"
  by (fastforce simp: runs_def bind_parser_def)

lemma runs_case:
  "runs p ts a ts1 \<Longrightarrow> runs (f a) ts1 b ts2 \<Longrightarrow>
     runs (\<lambda>s. case p s of Inl e \<Rightarrow> Inl e | Inr (a, s1) \<Rightarrow> f a s1) ts b ts2"
  by (fastforce simp: runs_def)

lemma runs_throw_if: "\<not> b \<Longrightarrow> runs p ts a ts' \<Longrightarrow> runs (throw_if b what p) ts a ts'"
  by (simp add: runs_def throw_if_def)

section \<open>The printed form of a quest\<close>

type_synonym sig_token = "token_type \<times> variant"

definition ident :: "string \<Rightarrow> sig_token" where "ident s = (Tok_Identifier, VString s)"
definition symb :: "string \<Rightarrow> sig_token" where "symb s = (Tok_Symbol, VString s)"
definition text_lit :: "string \<Rightarrow> sig_token" where "text_lit s = (Tok_String, VString s)"
definition number :: "int \<Rightarrow> sig_token" where "number i = (Tok_Integer, VInt i)"
definition oper :: "operator \<Rightarrow> sig_token" where "oper op = (Tok_Operator, VInt (op_code op))"

lemmas sig_token_defs = ident_def symb_def text_lit_def number_def oper_def

fun scope_name :: "scope_type \<Rightarrow> string" where
  "scope_name Scope_Default = ''''"
| "scope_name Scope_Character = ''character''"
| "scope_name Scope_NPC = ''npc''"
| "scope_name Scope_Map = ''map''"
| "scope_name Scope_World = ''world''"

fun arg_token :: "variant \<Rightarrow> sig_token" where
  "arg_token (VInt i) = number i"
| "arg_token (VString s) = text_lit s"
| "arg_token (VBool b) = (Tok_Boolean, VBool b)"

fun args_tokens :: "variant list \<Rightarrow> sig_token list" where
  "args_tokens [] = [oper RightParens]"
| "args_tokens [v] = [arg_token v, oper RightParens]"
| "args_tokens (v # vs) = arg_token v # symb '','' # args_tokens vs"

text \<open>The scopes of a call follow its name: this is the order in which the parser reads them.\<close>

definition expr_tokens :: "expression \<Rightarrow> sig_token list" where
  "expr_tokens e =
     ident (ex_function e) # concat (map (\<lambda>sc. [ident (scope_name (sc_type sc)), symb ''.'']) (ex_scopes e))
     @ oper LeftParens # args_tokens (ex_args e)"

fun is_argument :: "variant \<Rightarrow> bool" where
  "is_argument (VBool b) = False"
| "is_argument v = True"

definition valid_expr :: "expression \<Rightarrow> bool" where
  "valid_expr e \<longleftrightarrow> ex_function e \<noteq> ''goto'' \<and> (\<forall>v \<in> set (ex_args e). is_argument v)
     \<and> (\<forall>sc \<in> set (ex_scopes e). sc_type sc \<noteq> Scope_Default \<and> sc_args sc = [])"

definition action_tokens :: "action \<Rightarrow> sig_token list" where
  "action_tokens a =
     (case ac_cond a of
        Cond_None \<Rightarrow> ident ''action'' # expr_tokens (ac_expr a)
      | Cond_If \<Rightarrow> ident ''if'' # expr_tokens (ac_cond_expr a) @ expr_tokens (ac_expr a)
      | Cond_ElseIf \<Rightarrow> ident ''elseif'' # expr_tokens (ac_cond_expr a) @ expr_tokens (ac_expr a)
      | Cond_Else \<Rightarrow> ident ''else'' # expr_tokens (ac_expr a))"

definition valid_action :: "action \<Rightarrow> bool" where
  "valid_action a \<longleftrightarrow> valid_expr (ac_expr a)
     \<and> (if ac_cond a \<in> {Cond_None, Cond_Else} then ac_cond_expr a = empty_expression
        else valid_expr (ac_cond_expr a))"

definition rule_tokens :: "string \<Rightarrow> rule \<Rightarrow> sig_token list" where
  "rule_tokens kw r = ident kw # expr_tokens (ru_expr r) @ expr_tokens (ac_expr (ru_action r))"

definition valid_rule :: "rule \<Rightarrow> bool" where
  "valid_rule r \<longleftrightarrow> valid_expr (ru_expr r) \<and> valid_action (ru_action r) \<and> ac_cond (ru_action r) = Cond_None"

text \<open>The goal rule is the one printed with \<open>goal\<close>; rule 0 is the default and needs no mark.\<close>

definition goal_word :: "nat \<Rightarrow> nat \<Rightarrow> string" where
  "goal_word g i = (if i = g \<and> g \<noteq> 0 then ''goal'' else ''rule'')"

fun rules_tokens :: "nat \<Rightarrow> nat \<Rightarrow> rule list \<Rightarrow> sig_token list" where
  "rules_tokens g i [] = []"
| "rules_tokens g i (r # rs) = rule_tokens (goal_word g i) r @ rules_tokens g (Suc i) rs"

definition state_tokens :: "quest_state \<Rightarrow> sig_token list" where
  "state_tokens st =
     [ident ''state'', ident (qs_name st), symb ''{'', ident ''desc'', text_lit (qs_desc st)]
     @ rules_tokens (qs_goal_rule st) 0 (qs_rules st) @ concat (map action_tokens (qs_actions st))
     @ [symb ''}'']"

definition valid_state :: "quest_state \<Rightarrow> bool" where
  "valid_state st \<longleftrightarrow> (\<forall>r \<in> set (qs_rules st). valid_rule r) \<and> (\<forall>a \<in> set (qs_actions st). valid_action a)
     \<and> (qs_goal_rule st = 0 \<or> qs_goal_rule st < length (qs_rules st))"

definition info_tokens :: "quest_info \<Rightarrow> sig_token list" where
  "info_tokens i =
     [ident ''main'', symb ''{'', ident ''questname'', text_lit (qi_name i), ident ''version'',
      number (uint (drop_bit 16 (qi_version i))), symb ''.'', number (uint (qi_version i AND 0xFFFF))]
     @ (case qi_hidden i of NotHidden \<Rightarrow> [] | Hidden \<Rightarrow> [ident ''hidden''] | HiddenEnd \<Rightarrow> [ident ''hidden_end''])
     @ (if qi_disabled i then [ident ''disabled''] else []) @ [symb ''}'']"

definition quest_tokens :: "quest_info \<Rightarrow> quest_state list \<Rightarrow> sig_token list" where
  "quest_tokens i sts = info_tokens i @ concat (map state_tokens sts) @ [(Tok_EndOfFile, VInt 0)]"

section \<open>Reading it back\<close>

lemma scope_id_map_name: "sc_type sc \<noteq> Scope_Default \<Longrightarrow> scope_id_map (scope_name (sc_type sc)) = Some (sc_type sc)"
  by (cases "sc_type sc") (simp_all add: scope_id_map_def)

lemma tok_reads [simp]:
  "tk_data t = VString s \<Longrightarrow> tok_string t = s" "tk_data t = VInt i \<Longrightarrow> tok_int t = i"
  by (simp_all add: tok_string_def tok_int_def)

lemma runs_scopes:
  assumes "\<forall>sc \<in> set scs. sc_type sc \<noteq> Scope_Default \<and> sc_args sc = []"
    and "ty \<notin> {Tok_Identifier, Tok_Invalid, Tok_NewLine}"
  shows "runs (parse_scopes acc)
    (concat (map (\<lambda>sc. [ident (scope_name (sc_type sc)), symb ''.'']) scs) @ (ty, d) # r) (acc @ scs) ((ty, d) # r)"
  using assms(1)
proof (induction scs arbitrary: acc)
  case Nil
  show ?case
    unfolding parse_scopes.simps [of acc, abs_def] using assms(2)
    by (auto intro!: runs_miss runs_return)
next
  case (Cons sc scs)
  then have sc: "scope_id_map (scope_name (sc_type sc)) = Some (sc_type sc)" "\<lparr>sc_type = sc_type sc, sc_args = []\<rparr> = sc"
    by (simp_all add: scope_id_map_name)
  have "runs (parse_scopes (acc @ [sc])) (concat (map (\<lambda>sc. [ident (scope_name (sc_type sc)), symb ''.'']) scs)
      @ (ty, d) # r) (acc @ sc # scs) ((ty, d) # r)"
    using Cons.IH [of "acc @ [sc]"] Cons.prems by simp
  then show ?case
    unfolding parse_scopes.simps [of acc, abs_def] sig_token_defs list.map concat.simps append.simps
    by (intro runs_get) (auto simp: token_ok_def sc is_text_def intro!: runs_get_if)
qed

lemma is_op_reads [simp]: "tk_data t = VInt i \<Longrightarrow> is_op op t \<longleftrightarrow> i = op_code op"
  by (auto simp: is_op_def)

lemma is_op_comma [simp]: "tk_data t = VString '','' \<Longrightarrow> \<not> is_op op t"
  by (cases op) (simp_all add: is_op_def tok_int_def is_digit_char_def ccode_def)

lemma args_tokens_Cons:
  "args_tokens (v # vs) = arg_token v # (if vs = [] then [oper RightParens] else symb '','' # args_tokens vs)"
  by (cases vs) simp_all

lemma arg_token_cases:
  assumes "is_argument v"
  obtains ty where "arg_token v = (ty, v)" "ty \<in> {Tok_String, Tok_Integer}"
  using assms by (cases v) (simp_all add: text_lit_def number_def)

lemma runs_args:
  assumes "\<forall>v \<in> set vs. is_argument v" "vs \<noteq> []"
  shows "runs (parse_args acc) (args_tokens vs @ r) (acc @ vs) r"
  using assms
proof (induction vs arbitrary: acc)
  case (Cons v vs)
  obtain ty where ty: "arg_token v = (ty, v)" "ty \<in> {Tok_String, Tok_Integer}"
    using Cons.prems(1) arg_token_cases by (metis list.set_intros(1))
  show ?case
  proof (cases "vs = []")
    case True
    have "runs (parse_args acc) ((ty, v) # (Tok_Operator, VInt (op_code RightParens)) # r) (acc @ [v]) r"
      unfolding parse_args.simps [of acc, abs_def] using ty(2)
      by (intro runs_get) (auto simp: token_ok_def arg_end_def intro!: runs_get_if runs_return)
    with True ty(1) show ?thesis by (simp add: oper_def)
  next
    case False
    have IH: "runs (parse_args (acc @ [v])) (args_tokens vs @ r) (acc @ v # vs) r"
      using Cons.IH [of "acc @ [v]"] Cons.prems False by simp
    have "runs (parse_args acc) ((ty, v) # (Tok_Symbol, VString '','') # args_tokens vs @ r) (acc @ v # vs) r"
      unfolding parse_args.simps [of acc, abs_def] using ty(2) IH
      by (intro runs_get) (auto simp: token_ok_def arg_end_def is_text_def intro!: runs_get_if)
    with False ty(1) show ?thesis by (simp add: args_tokens_Cons symb_def)
  qed
qed simp

lemma runs_call:
  assumes "valid_expr e"
  shows "runs (parse_call (ex_function e)) (tl (expr_tokens e) @ r) e r"
proof -
  have e: "e = \<lparr>ex_scopes = ex_scopes e, ex_function = ex_function e, ex_args = ex_args e\<rparr>" by simp
  have sc: "runs (parse_scopes []) (concat (map (\<lambda>sc. [ident (scope_name (sc_type sc)), symb ''.'']) (ex_scopes e))
      @ oper LeftParens # args_tokens (ex_args e) @ r) (ex_scopes e) (oper LeftParens # args_tokens (ex_args e) @ r)"
    using runs_scopes [of "ex_scopes e" Tok_Operator "[]"] assms by (simp add: valid_expr_def oper_def)
  let ?e = "\<lparr>ex_scopes = ex_scopes e, ex_function = ex_function e, ex_args = []\<rparr>"
  have args: "runs (\<lambda>s. case get_token_if (is_op RightParens) (allow_of [Tok_Operator]) s of (t', s3) \<Rightarrow>
      if token_ok t' then Inr (?e, s3)
      else bind_parser (parse_args []) (\<lambda>args s4. Inr (?e\<lparr>ex_args := args\<rparr>, s4)) s3)
      (args_tokens (ex_args e) @ r) e r" (is "runs ?p _ _ _")
  proof (cases "ex_args e")
    case Nil
    have "runs ?p (oper RightParens # r) ?e r"
      by (auto simp: token_ok_def oper_def intro!: runs_get_if runs_return)
    moreover have "?e = e" using Nil by (cases e) simp
    ultimately show ?thesis using Nil by simp
  next
    case (Cons v vs)
    then obtain ty where ty: "arg_token v = (ty, v)" "ty \<in> {Tok_String, Tok_Integer}"
      using assms arg_token_cases by (metis list.set_intros(1) valid_expr_def)
    define ts where "ts = args_tokens (ex_args e) @ r"
    have "?e\<lparr>ex_args := ex_args e\<rparr> = e" by (cases e) simp
    have "runs (parse_args []) ts (ex_args e) r"
      using assms Cons runs_args [of "ex_args e" "[]"] by (simp add: valid_expr_def ts_def)
    then have "runs (bind_parser (parse_args []) (\<lambda>args s4. Inr (?e\<lparr>ex_args := args\<rparr>, s4))) ts
        (?e\<lparr>ex_args := ex_args e\<rparr>) r"
      by (rule runs_bind) (rule runs_return)
    then have "runs (bind_parser (parse_args []) (\<lambda>args s4. Inr (?e\<lparr>ex_args := args\<rparr>, s4))) ts e r"
      using \<open>?e\<lparr>ex_args := ex_args e\<rparr> = e\<close> by (simp only:)
    moreover obtain ts' where "ts = (ty, v) # ts'"
      using Cons ty by (simp add: ts_def args_tokens_Cons)
    ultimately show ?thesis
      unfolding ts_def [symmetric] using ty(2) by (auto intro!: runs_miss_if)
  qed
  have "tl (expr_tokens e) @ r = concat (map (\<lambda>sc. [ident (scope_name (sc_type sc)), symb ''.'']) (ex_scopes e))
     @ oper LeftParens # args_tokens (ex_args e) @ r"
    by (simp add: expr_tokens_def)
  moreover have "runs (parse_call (ex_function e)) \<dots> e r"
    unfolding parse_call_def [abs_def] Let_def
    by (rule runs_case [OF sc], unfold oper_def, rule runs_get_if)
      (use args in \<open>simp_all add: token_ok_def\<close>)
  ultimately show ?thesis by simp
qed

lemma runs_expression:
  assumes "valid_expr e"
  shows "runs parse_expression (expr_tokens e @ r) e r"
proof -
  define ts where "ts = tl (expr_tokens e) @ r"
  have "runs parse_expression ((Tok_Identifier, VString (ex_function e)) # ts) e r"
    unfolding parse_expression_def [abs_def]
    using runs_call [OF assms, of r] assms
    by (intro runs_get) (auto simp: token_ok_def valid_expr_def ts_def)
  then show ?thesis by (simp add: expr_tokens_def ident_def ts_def)
qed

lemma runs_action:
  "valid_expr e \<Longrightarrow> runs parse_action (expr_tokens e @ r)
     \<lparr>ac_cond = Cond_None, ac_cond_expr = empty_expression, ac_expr = e\<rparr> r"
  unfolding parse_action_def by (rule runs_bind, erule runs_expression, rule runs_return)

lemma runs_rule:
  "valid_expr e \<Longrightarrow> valid_expr e' \<Longrightarrow> runs parse_rule (expr_tokens e @ expr_tokens e' @ r)
     \<lparr>ru_expr = e, ru_action = \<lparr>ac_cond = Cond_None, ac_cond_expr = empty_expression, ac_expr = e'\<rparr>\<rparr> r"
  unfolding parse_rule_def
  by (rule runs_bind, erule runs_expression, rule runs_bind, erule runs_action, rule runs_return)

lemma valid_rule_eq:
  "valid_rule r \<Longrightarrow> \<lparr>ru_expr = ru_expr r,
     ru_action = \<lparr>ac_cond = Cond_None, ac_cond_expr = empty_expression, ac_expr = ac_expr (ru_action r)\<rparr>\<rparr> = r"
  by (cases r; cases "ru_action r") (simp add: valid_rule_def valid_action_def)

subsection \<open>State blocks\<close>

lemma block_step:
  assumes "runs (block_entry kw b st) ts (Some (b', st')) ts1"
    and "runs (parse_rule_action_block name b' st') ts1 a ts2"
  shows "runs (parse_rule_action_block name b st) (ident kw # ts) a ts2"
  unfolding runs_def
proof (intro allI impI)
  fix s
  assume "stream s = ident kw # ts"
  then obtain t s1 where t: "get_token (allow_of [Tok_Identifier, Tok_Symbol]) s = (t, s1)"
      "tk_type t = Tok_Identifier" "tk_data t = VString kw" "stream s1 = ts"
    using get_token_hit [of s Tok_Identifier "VString kw" ts "allow_of [Tok_Identifier, Tok_Symbol]"]
    by (auto simp: ident_def)
  with assms(1) obtain s2 where s2: "block_entry kw b st s1 = Inr (Some (b', st'), s2)" "stream s2 = ts1"
    by (auto simp: runs_def)
  with assms(2) obtain s3 where "parse_rule_action_block name b' st' s2 = Inr (a, s3)" "stream s3 = ts2"
    by (auto simp: runs_def)
  with t s2 show "\<exists>s'. parse_rule_action_block name b st s = Inr (a, s') \<and> stream s' = ts2"
    by (simp add: parse_rule_action_block.simps [of _ _ _ s] token_ok_def)
qed

lemma block_close: "runs (parse_rule_action_block name b st) (symb ''}'' # r) st r"
  unfolding runs_def
proof (intro allI impI)
  fix s
  assume "stream s = symb ''}'' # r"
  then obtain t s1 where t: "get_token (allow_of [Tok_Identifier, Tok_Symbol]) s = (t, s1)"
      "tk_type t = Tok_Symbol" "tk_data t = VString ''}''" "stream s1 = r"
    using get_token_hit [of s Tok_Symbol "VString ''}''" r "allow_of [Tok_Identifier, Tok_Symbol]"]
    by (auto simp: symb_def)
  then show "\<exists>s'. parse_rule_action_block name b st s = Inr (st, s') \<and> stream s' = r"
    by (simp add: parse_rule_action_block.simps [of _ _ _ s] token_ok_def)
qed

lemma entry_rule:
  assumes "valid_rule ru"
  shows "runs (block_entry (goal_word g i) b st) (tl (rule_tokens (goal_word g i) ru) @ r)
    (Some (b, st\<lparr>qs_rules := qs_rules st @ [ru],
       qs_goal_rule := if i = g \<and> g \<noteq> 0 then length (qs_rules st) else qs_goal_rule st\<rparr>)) r"
proof -
  have v: "valid_expr (ru_expr ru)" "valid_expr (ac_expr (ru_action ru))"
    using assms by (simp_all add: valid_rule_def valid_action_def)
  have run: "runs parse_rule (expr_tokens (ru_expr ru) @ expr_tokens (ac_expr (ru_action ru)) @ r) ru r"
    using runs_rule [OF v] valid_rule_eq [OF assms] by simp
  show ?thesis
    by (auto simp: block_entry_def goal_word_def rule_tokens_def intro: runs_bind [OF run] runs_return)
qed

lemma runs_rules:
  assumes "\<forall>ru \<in> set rs. valid_rule ru" "i = length (qs_rules st)"
    and "runs (parse_rule_action_block name b (st\<lparr>qs_rules := qs_rules st @ rs,
      qs_goal_rule := if i \<le> g \<and> g < i + length rs \<and> g \<noteq> 0 then g else qs_goal_rule st\<rparr>)) ts a r"
  shows "runs (parse_rule_action_block name b st) (rules_tokens g i rs @ ts) a r"
  using assms
proof (induction rs arbitrary: i st)
  case Nil
  have "(if i \<le> g \<and> g < i + length [] \<and> g \<noteq> 0 then g else qs_goal_rule st) = qs_goal_rule st" by simp
  with Nil show ?case by (cases st) simp
next
  case (Cons ru rs)
  let ?st = "st\<lparr>qs_rules := qs_rules st @ [ru],
    qs_goal_rule := if i = g \<and> g \<noteq> 0 then length (qs_rules st) else qs_goal_rule st\<rparr>"
  have fin: "?st\<lparr>qs_rules := qs_rules ?st @ rs,
      qs_goal_rule := if Suc i \<le> g \<and> g < Suc i + length rs \<and> g \<noteq> 0 then g else qs_goal_rule ?st\<rparr>
    = st\<lparr>qs_rules := qs_rules st @ ru # rs,
      qs_goal_rule := if i \<le> g \<and> g < i + length (ru # rs) \<and> g \<noteq> 0 then g else qs_goal_rule st\<rparr>"
    using Cons.prems(2) by (cases st) auto
  have "runs (parse_rule_action_block name b ?st) (rules_tokens g (Suc i) rs @ ts) a r"
  proof (rule Cons.IH)
    show "runs (parse_rule_action_block name b (?st\<lparr>qs_rules := qs_rules ?st @ rs,
      qs_goal_rule := if Suc i \<le> g \<and> g < Suc i + length rs \<and> g \<noteq> 0 then g else qs_goal_rule ?st\<rparr>)) ts a r"
      unfolding fin by (rule Cons.prems(3))
  qed (use Cons.prems in simp_all)
  then have "runs (parse_rule_action_block name b st)
      (ident (goal_word g i) # tl (rule_tokens (goal_word g i) ru) @ rules_tokens g (Suc i) rs @ ts) a r"
    using Cons.prems(1) by (intro block_step [OF entry_rule]) simp_all
  then show ?case by (simp add: rule_tokens_def)
qed

lemma entry_action:
  assumes "valid_action ac"
  shows "\<exists>kw ts. action_tokens ac @ r = ident kw # ts
    \<and> runs (block_entry kw b st) ts (Some (b, st\<lparr>qs_actions := qs_actions st @ [ac]\<rparr>)) r"
proof -
  note v = assms [unfolded valid_action_def]
  show ?thesis
  proof (cases "ac_cond ac")
    case Cond_None
    then have "runs parse_action (expr_tokens (ac_expr ac) @ r) ac r"
      using v runs_action [of "ac_expr ac" r] by (cases ac) simp
    from runs_bind [OF this runs_return, of "\<lambda>a. Some (b, st\<lparr>qs_actions := qs_actions st @ [a]\<rparr>)"] Cond_None
    show ?thesis
      by (intro exI [of _ "''action''"]) (simp add: action_tokens_def block_entry_def)
  next
    case Cond_Else
    have run: "runs parse_action (expr_tokens (ac_expr ac) @ r) (ac\<lparr>ac_cond := Cond_None\<rparr>) r"
      using v Cond_Else runs_action [of "ac_expr ac" r] by (cases ac) simp
    have "ac\<lparr>ac_cond := Cond_None\<rparr>\<lparr>ac_cond := Cond_Else\<rparr> = ac"
      using Cond_Else by (cases ac) simp
    note runs_bind [OF run runs_return, of "\<lambda>a. Some (b, st\<lparr>qs_actions := qs_actions st @ [a\<lparr>ac_cond := Cond_Else\<rparr>]\<rparr>)",
        unfolded this]
    with Cond_Else show ?thesis
      by (intro exI [of _ "''else''"]) (simp add: action_tokens_def block_entry_def)
  next
    case Cond_If
    with v have e: "valid_expr (ac_cond_expr ac)" "valid_expr (ac_expr ac)" by simp_all
    have "add_action Cond_If \<lparr>ru_expr = ac_cond_expr ac, ru_action =
        \<lparr>ac_cond = Cond_None, ac_cond_expr = empty_expression, ac_expr = ac_expr ac\<rparr>\<rparr> st
      = st\<lparr>qs_actions := qs_actions st @ [ac]\<rparr>"
      using Cond_If by (cases ac) (simp add: add_action_def)
    with runs_bind [OF runs_rule [OF e, of r] runs_return, of "\<lambda>r. Some (b, add_action Cond_If r st)"] Cond_If
    show ?thesis
      by (intro exI [of _ "''if''"]) (simp add: action_tokens_def block_entry_def)
  next
    case Cond_ElseIf
    with v have e: "valid_expr (ac_cond_expr ac)" "valid_expr (ac_expr ac)" by simp_all
    have "add_action Cond_ElseIf \<lparr>ru_expr = ac_cond_expr ac, ru_action =
        \<lparr>ac_cond = Cond_None, ac_cond_expr = empty_expression, ac_expr = ac_expr ac\<rparr>\<rparr> st
      = st\<lparr>qs_actions := qs_actions st @ [ac]\<rparr>"
      using Cond_ElseIf by (cases ac) (simp add: add_action_def)
    with runs_bind [OF runs_rule [OF e, of r] runs_return, of "\<lambda>r. Some (b, add_action Cond_ElseIf r st)"] Cond_ElseIf
    show ?thesis
      by (intro exI [of _ "''elseif''"]) (simp add: action_tokens_def block_entry_def)
  qed
qed

lemma runs_actions:
  assumes "\<forall>ac \<in> set acs. valid_action ac"
    and "runs (parse_rule_action_block name b (st\<lparr>qs_actions := qs_actions st @ acs\<rparr>)) ts a r"
  shows "runs (parse_rule_action_block name b st) (concat (map action_tokens acs) @ ts) a r"
  using assms
proof (induction acs arbitrary: st)
  case Nil
  then show ?case by simp
next
  case (Cons ac acs)
  let ?st = "st\<lparr>qs_actions := qs_actions st @ [ac]\<rparr>"
  have "runs (parse_rule_action_block name b ?st) (concat (map action_tokens acs) @ ts) a r"
    using Cons.prems by (intro Cons.IH) simp_all
  moreover obtain kw ts' where "action_tokens ac @ concat (map action_tokens acs) @ ts = ident kw # ts'"
      "runs (block_entry kw b st) ts' (Some (b, ?st)) (concat (map action_tokens acs) @ ts)"
    using entry_action [of ac "concat (map action_tokens acs) @ ts" b st] Cons.prems(1) by auto
  ultimately show ?case by (simp add: block_step)
qed

lemma entry_desc:
  "runs (block_entry ''desc'' False st) (text_lit d # r) (Some (True, st\<lparr>qs_desc := d\<rparr>)) r"
proof -
  have "runs parse_desc (text_lit d # r) d r"
    unfolding parse_desc_def [abs_def] text_lit_def
    by (rule runs_get) (simp_all add: token_ok_def runs_return)
  from runs_throw_if [OF _ runs_bind [OF this runs_return], of False] show ?thesis
    by (simp add: block_entry_def)
qed

text \<open>The parsed state has \<open>has_desc\<close> unset: the code never assigns it.\<close>

definition as_parsed :: "quest_state \<Rightarrow> quest_state" where
  "as_parsed st = st\<lparr>qs_has_desc := False\<rparr>"

lemma runs_state_block:
  assumes "valid_state st"
  shows "runs parse_state_block (tl (state_tokens st) @ r) (qs_name st, as_parsed st) r"
proof -
  define st3 where "st3 = (as_parsed st)\<lparr>qs_name := ''''\<rparr>"
  define st2 where "st2 = st3\<lparr>qs_actions := []\<rparr>"
  define st1 where "st1 = state_init\<lparr>qs_desc := qs_desc st\<rparr>"
  have 3: "st2\<lparr>qs_actions := qs_actions st2 @ qs_actions st\<rparr> = st3"
    by (cases st) (simp add: st2_def st3_def as_parsed_def)
  have 2: "st1\<lparr>qs_rules := qs_rules st1 @ qs_rules st, qs_goal_rule := if 0 \<le> qs_goal_rule st
      \<and> qs_goal_rule st < 0 + length (qs_rules st) \<and> qs_goal_rule st \<noteq> 0 then qs_goal_rule st
      else qs_goal_rule st1\<rparr> = st2"
    using assms by (cases st) (auto simp: st1_def st2_def st3_def state_init_def as_parsed_def valid_state_def)
  let ?acs = "concat (map action_tokens (qs_actions st)) @ symb ''}'' # r"
  have "runs (parse_rule_action_block (qs_name st) True st3) (symb ''}'' # r) st3 r"
    by (rule block_close)
  then have "runs (parse_rule_action_block (qs_name st) True st2) ?acs st3 r"
    using assms 3 by (intro runs_actions) (simp_all add: valid_state_def)
  then have "runs (parse_rule_action_block (qs_name st) True st1)
      (rules_tokens (qs_goal_rule st) 0 (qs_rules st) @ ?acs) st3 r"
    using assms by (intro runs_rules, unfold 2) (simp_all add: valid_state_def st1_def state_init_def)
  then have body: "runs (parse_rule_action_block (qs_name st) False state_init)
      (ident ''desc'' # text_lit (qs_desc st) # rules_tokens (qs_goal_rule st) 0 (qs_rules st) @ ?acs) st3 r"
    unfolding st1_def by (rule block_step [OF entry_desc])
  have "st3\<lparr>qs_name := qs_name st\<rparr> = as_parsed st"
    by (cases st) (simp add: st3_def as_parsed_def)
  with runs_bind [OF body runs_return, of "\<lambda>st3. (qs_name st, st3\<lparr>qs_name := qs_name st\<rparr>)"]
  have "runs parse_state_block ((Tok_Identifier, VString (qs_name st)) # (Tok_Symbol, VString ''{'')
      # ident ''desc'' # text_lit (qs_desc st) # rules_tokens (qs_goal_rule st) 0 (qs_rules st) @ ?acs)
      (qs_name st, as_parsed st) r"
    unfolding parse_state_block_def [abs_def] Let_def
    by (intro runs_get) (auto simp: token_ok_def intro!: runs_get)
  then show ?thesis by (simp add: state_tokens_def ident_def symb_def)
qed

subsection \<open>The main block and the quest\<close>

lemma main_step:
  assumes "runs (main_entry kw m) ts (Some m') ts1" and "runs (parse_main_loop m') ts1 a ts2"
  shows "runs (parse_main_loop m) (ident kw # ts) a ts2"
  unfolding runs_def
proof (intro allI impI)
  fix s
  assume "stream s = ident kw # ts"
  then obtain t s1 where t: "get_token (allow_of [Tok_Identifier, Tok_Symbol]) s = (t, s1)"
      "tk_type t = Tok_Identifier" "tk_data t = VString kw" "stream s1 = ts"
    using get_token_hit [of s Tok_Identifier "VString kw" ts "allow_of [Tok_Identifier, Tok_Symbol]"]
    by (auto simp: ident_def)
  with assms(1) obtain s2 where s2: "main_entry kw m s1 = Inr (Some m', s2)" "stream s2 = ts1"
    by (auto simp: runs_def)
  with assms(2) obtain s3 where "parse_main_loop m' s2 = Inr (a, s3)" "stream s3 = ts2"
    by (auto simp: runs_def)
  with t s2 show "\<exists>s'. parse_main_loop m s = Inr (a, s') \<and> stream s' = ts2"
    by (simp add: parse_main_loop.simps [of _ s] token_ok_def)
qed

lemma main_close: "runs (parse_main_loop m) (symb ''}'' # r) (ms_info m) r"
  unfolding runs_def
proof (intro allI impI)
  fix s
  assume "stream s = symb ''}'' # r"
  then obtain t s1 where t: "get_token (allow_of [Tok_Identifier, Tok_Symbol]) s = (t, s1)"
      "tk_type t = Tok_Symbol" "tk_data t = VString ''}''" "stream s1 = r"
    using get_token_hit [of s Tok_Symbol "VString ''}''" r "allow_of [Tok_Identifier, Tok_Symbol]"]
    by (auto simp: symb_def)
  then show "\<exists>s'. parse_main_loop m s = Inr (ms_info m, s') \<and> stream s' = r"
    by (simp add: parse_main_loop.simps [of _ s] token_ok_def)
qed

lemma main_disabled:
  assumes "\<not> qi_disabled (ms_info m)"
  shows "runs (parse_main_loop m) ((if b then [ident ''disabled''] else []) @ symb ''}'' # r)
    (ms_info m\<lparr>qi_disabled := b\<rparr>) r"
proof (cases b)
  case True
  let ?m = "m\<lparr>ms_info := ms_info m\<lparr>qi_disabled := True\<rparr>\<rparr>"
  have "runs (main_entry ''disabled'' m) (symb ''}'' # r) (Some ?m) (symb ''}'' # r)"
    using assms by (simp add: main_entry_def Let_def runs_def throw_if_def)
  with main_close [of ?m r] True show ?thesis by (simp add: main_step)
next
  case False
  with assms main_close [of m r] show ?thesis by (cases m; cases "ms_info m") simp
qed

lemma main_hidden:
  assumes "qi_hidden (ms_info m) = NotHidden" "runs (parse_main_loop (m\<lparr>ms_info := ms_info m\<lparr>qi_hidden := h\<rparr>\<rparr>)) ts a r"
  shows "runs (parse_main_loop m)
    ((case h of NotHidden \<Rightarrow> [] | Hidden \<Rightarrow> [ident ''hidden''] | HiddenEnd \<Rightarrow> [ident ''hidden_end'']) @ ts) a r"
proof (cases h)
  case NotHidden
  with assms show ?thesis by (cases m; cases "ms_info m") simp
next
  case Hidden
  have "runs (main_entry ''hidden'' m) ts (Some (m\<lparr>ms_info := ms_info m\<lparr>qi_hidden := h\<rparr>\<rparr>)) ts"
    using assms(1) Hidden by (simp add: main_entry_def Let_def runs_def throw_if_def)
  with assms(2) Hidden show ?thesis by (simp add: main_step)
next
  case HiddenEnd
  have "runs (main_entry ''hidden_end'' m) ts (Some (m\<lparr>ms_info := ms_info m\<lparr>qi_hidden := h\<rparr>\<rparr>)) ts"
    using assms(1) HiddenEnd by (simp add: main_entry_def Let_def runs_def throw_if_def)
  with assms(2) HiddenEnd show ?thesis by (simp add: main_step)
qed

lemma runs_version:
  "runs parse_version (number (uint (drop_bit 16 v)) # symb ''.'' # number (uint (v AND 0xFFFF)) # r) v r"
proof -
  have "push_bit 16 (drop_bit 16 v) OR (v AND mask 16) = (v :: 32 word)"
    by (rule bit_word_eqI) (auto simp: bit_simps)
  then have "push_bit 16 (drop_bit 16 v) OR (v AND 0xFFFF) = v"
    by (simp add: mask_eq_exp_minus_1)
  then show ?thesis
    unfolding parse_version_def [abs_def] Let_def number_def symb_def
    by (intro runs_get) (auto simp: token_ok_def is_text_def intro!: runs_get_if runs_get runs_return)
qed

lemma entry_version:
  assumes "\<not> ms_has_version m"
  shows "runs (main_entry ''version'' m)
    (number (uint (drop_bit 16 v)) # symb ''.'' # number (uint (v AND 0xFFFF)) # r)
    (Some (m\<lparr>ms_has_version := True, ms_info := ms_info m\<lparr>qi_version := v\<rparr>\<rparr>)) r"
proof -
  note run = runs_throw_if [OF _ runs_bind [OF runs_version [of v r] runs_return], of False]
  from run show ?thesis using assms by (simp add: main_entry_def Let_def)
qed

lemma entry_questname:
  assumes "\<not> ms_has_questname m"
  shows "runs (main_entry ''questname'' m) (text_lit n # r)
    (Some (m\<lparr>ms_has_questname := True, ms_info := ms_info m\<lparr>qi_name := n\<rparr>\<rparr>)) r"
proof -
  have "runs parse_quest_name (text_lit n # r) n r"
    unfolding parse_quest_name_def [abs_def] text_lit_def
    by (rule runs_get) (simp_all add: token_ok_def runs_return)
  from runs_throw_if [OF _ runs_bind [OF this runs_return], of False] assms show ?thesis
    by (simp add: main_entry_def Let_def)
qed

lemma runs_main_block: "runs parse_main_block (tl (info_tokens i) @ r) i r"
proof -
  let ?m0 = "\<lparr>ms_has_questname = False, ms_has_version = False, ms_info = info_init\<rparr>"
  let ?m1 = "?m0\<lparr>ms_has_questname := True, ms_info := info_init\<lparr>qi_name := qi_name i\<rparr>\<rparr>"
  let ?m2 = "?m1\<lparr>ms_has_version := True, ms_info := ms_info ?m1\<lparr>qi_version := qi_version i\<rparr>\<rparr>"
  let ?m3 = "?m2\<lparr>ms_info := ms_info ?m2\<lparr>qi_hidden := qi_hidden i\<rparr>\<rparr>"
  let ?dis = "(if qi_disabled i then [ident ''disabled''] else []) @ symb ''}'' # r"
  let ?hid = "(case qi_hidden i of NotHidden \<Rightarrow> [] | Hidden \<Rightarrow> [ident ''hidden''] | HiddenEnd \<Rightarrow> [ident ''hidden_end''])
    @ ?dis"
  let ?ver = "number (uint (drop_bit 16 (qi_version i))) # symb ''.'' # number (uint (qi_version i AND 0xFFFF)) # ?hid"
  have info: "ms_info ?m3\<lparr>qi_disabled := qi_disabled i\<rparr> = i"
    by (cases i) (simp add: info_init_def)
  have "runs (parse_main_loop ?m3) ?dis (ms_info ?m3\<lparr>qi_disabled := qi_disabled i\<rparr>) r"
    by (rule main_disabled) (simp add: info_init_def)
  then have "runs (parse_main_loop ?m3) ?dis i r" unfolding info .
  then have 2: "runs (parse_main_loop ?m2) ?hid i r"
    by (intro main_hidden) (simp_all add: info_init_def)
  have "runs (main_entry ''version'' ?m1) ?ver (Some ?m2) ?hid"
    using entry_version [of ?m1 "qi_version i" ?hid] by simp
  from main_step [OF this 2] have 1: "runs (parse_main_loop ?m1) (ident ''version'' # ?ver) i r" .
  have "runs (main_entry ''questname'' ?m0) (text_lit (qi_name i) # ident ''version'' # ?ver) (Some ?m1)
      (ident ''version'' # ?ver)"
    using entry_questname [of ?m0] by simp
  from main_step [OF this 1]
  have "runs parse_main (ident ''questname'' # text_lit (qi_name i) # ident ''version'' # ?ver) i r"
    unfolding parse_main_def .
  then have "runs parse_main_block ((Tok_Symbol, VString ''{'') # ident ''questname'' # text_lit (qi_name i)
      # ident ''version'' # ?ver) i r"
    unfolding parse_main_block_def [abs_def] by (intro runs_get) (simp_all add: token_ok_def)
  then show ?thesis by (simp add: info_tokens_def symb_def)
qed

lemma global_hit:
  assumes "stream s = (ty, d) # ts" "ty \<in> {Tok_Identifier, Tok_EndOfFile}"
  obtains t s1 where "get_token (allow_of [Tok_Identifier, Tok_EndOfFile]) s = (t, s1)"
      "tk_type t = ty" "tk_data t = d" "stream s1 = ts" "token_ok t"
  using get_token_hit [of s ty d ts "allow_of [Tok_Identifier, Tok_EndOfFile]"] assms
  by (auto simp: token_ok_def)

lemma runs_states:
  assumes "\<forall>st \<in> set sts. valid_state st" "distinct (map qs_name sts)" "qu_has_info q"
    and "\<forall>st \<in> set sts. qu_states q (qs_name st) = None"
  shows "runs (parse_global q) (concat (map state_tokens sts) @ [(Tok_EndOfFile, d)])
    (q\<lparr>qu_states := qu_states q ++ map_of (map (\<lambda>st. (qs_name st, as_parsed st)) sts)\<rparr>) []"
  using assms
proof (induction sts arbitrary: q)
  case Nil
  show ?case
    unfolding runs_def
  proof (intro allI impI)
    fix s
    assume "stream s = concat (map state_tokens []) @ [(Tok_EndOfFile, d)]"
    then have s: "stream s = (Tok_EndOfFile, d) # []" by simp
    obtain t s1 where "get_token (allow_of [Tok_Identifier, Tok_EndOfFile]) s = (t, s1)"
        "tk_type t = Tok_EndOfFile" "tk_data t = d" "stream s1 = []" "token_ok t"
      by (rule global_hit [OF s]) auto
    with Nil show "\<exists>s'. parse_global q s = Inr (q\<lparr>qu_states := qu_states q
        ++ map_of (map (\<lambda>st. (qs_name st, as_parsed st)) [])\<rparr>, s') \<and> stream s' = []"
      by (simp add: parse_global.simps [of q])
  qed
next
  case (Cons st sts)
  let ?rest = "concat (map state_tokens sts) @ [(Tok_EndOfFile, d)]"
  let ?q = "q\<lparr>qu_states := (qu_states q)(qs_name st \<mapsto> as_parsed st)\<rparr>"
  have "runs (parse_global ?q) ?rest (?q\<lparr>qu_states := qu_states ?q
      ++ map_of (map (\<lambda>st. (qs_name st, as_parsed st)) sts)\<rparr>) []"
    using Cons.prems by (intro Cons.IH) (auto simp: rev_image_eqI)
  moreover have "qu_states ?q ++ map_of (map (\<lambda>st. (qs_name st, as_parsed st)) sts)
      = qu_states q ++ map_of (map (\<lambda>st. (qs_name st, as_parsed st)) (st # sts))"
    using Cons.prems(2) by (auto simp: map_add_upd_left map_add_upd dom_map_of_conv_image_fst image_image)
  ultimately have IH: "runs (parse_global ?q) ?rest (q\<lparr>qu_states := qu_states q
      ++ map_of (map (\<lambda>st. (qs_name st, as_parsed st)) (st # sts))\<rparr>) []" by simp
  have block: "runs parse_state_block (tl (state_tokens st) @ ?rest) (qs_name st, as_parsed st) ?rest"
    using Cons.prems by (intro runs_state_block) simp
  show ?case
    unfolding runs_def
  proof (intro allI impI)
    fix s
    assume "stream s = concat (map state_tokens (st # sts)) @ [(Tok_EndOfFile, d)]"
    then have s: "stream s = (Tok_Identifier, VString ''state'') # tl (state_tokens st) @ ?rest"
      by (simp add: state_tokens_def ident_def)
    obtain t s1 where t: "get_token (allow_of [Tok_Identifier, Tok_EndOfFile]) s = (t, s1)"
        "tk_type t = Tok_Identifier" "tk_data t = VString ''state''"
        "stream s1 = tl (state_tokens st) @ ?rest" "token_ok t"
      by (rule global_hit [OF s]) auto
    with block obtain s2 where s2: "parse_state_block s1 = Inr ((qs_name st, as_parsed st), s2)" "stream s2 = ?rest"
      by (auto simp: runs_def)
    with IH obtain s3 where "parse_global ?q s2 = Inr (q\<lparr>qu_states := qu_states q
        ++ map_of (map (\<lambda>st. (qs_name st, as_parsed st)) (st # sts))\<rparr>, s3)" "stream s3 = []"
      by (auto simp: runs_def)
    with t s2 Cons.prems(4) show "\<exists>s'. parse_global q s = Inr (q\<lparr>qu_states := qu_states q
        ++ map_of (map (\<lambda>st. (qs_name st, as_parsed st)) (st # sts))\<rparr>, s') \<and> stream s' = []"
      by (simp add: parse_global.simps [of q])
  qed
qed

definition quest_of :: "quest_info \<Rightarrow> quest_state list \<Rightarrow> quest" where
  "quest_of i sts = \<lparr>qu_has_info = True, qu_info = i,
     qu_states = map_of (map (\<lambda>st. (qs_name st, as_parsed st)) sts)\<rparr>"

lemma runs_quest:
  assumes "\<forall>st \<in> set sts. valid_state st" "distinct (map qs_name sts)"
  shows "runs (parse_global quest_init) (quest_tokens i sts) (quest_of i sts) []"
  unfolding runs_def
proof (intro allI impI)
  fix s
  let ?rest = "concat (map state_tokens sts) @ [(Tok_EndOfFile, VInt 0)]"
  let ?q = "quest_init\<lparr>qu_info := i, qu_has_info := True\<rparr>"
  have no_info: "\<not> qu_has_info quest_init" by (simp add: quest_init_def)
  assume "stream s = quest_tokens i sts"
  then have s: "stream s = (Tok_Identifier, VString ''main'') # tl (info_tokens i) @ ?rest"
    by (simp add: quest_tokens_def info_tokens_def ident_def)
  obtain t s1 where t: "get_token (allow_of [Tok_Identifier, Tok_EndOfFile]) s = (t, s1)"
      "tk_type t = Tok_Identifier" "tk_data t = VString ''main''" "stream s1 = tl (info_tokens i) @ ?rest" "token_ok t"
    by (rule global_hit [OF s]) auto
  obtain s2 where s2: "parse_main_block s1 = Inr (i, s2)" "stream s2 = ?rest"
    using runs_main_block [of i ?rest] t(4) unfolding runs_def by blast
  have "runs (parse_global ?q) ?rest (quest_of i sts) []"
    using runs_states [of sts ?q "VInt 0"] assms by (simp add: quest_init_def quest_of_def)
  with s2 obtain s3 where "parse_global ?q s2 = Inr (quest_of i sts, s3)" "stream s3 = []"
    by (auto simp: runs_def)
  with t s2 show "\<exists>s'. parse_global quest_init s = Inr (quest_of i sts, s') \<and> stream s' = []"
    by (simp add: parse_global.simps [of quest_init] no_info)
qed

section \<open>Properties\<close>

text \<open>however newlines are put between the tokens of the printed form of a well-formed
  quest, the parser accepts them and returns the quest: its main block, and each state
  under its name.\<close>

theorem parse_quest_printed:
  assumes "\<forall>st \<in> set sts. valid_state st" "distinct (map qs_name sts)"
    and "significant ts = quest_tokens i sts"
  shows "parse_quest ts = Inr (quest_of i sts)"
proof -
  have "stream (server_init ts) = quest_tokens i sts"
    using assms(3) by (simp add: stream_def server_init_def)
  with runs_quest [OF assms(1,2)] obtain s where
    "parse_global quest_init (server_init ts) = Inr (quest_of i sts, s)"
    unfolding runs_def by blast
  then show ?thesis by (simp add: parse_quest_def)
qed

definition sample_info :: quest_info where
  "sample_info = \<lparr>qi_name = ''Bee keeper'', qi_version = 0x10002, qi_hidden = Hidden, qi_disabled = False\<rparr>"

definition sample_call :: "string \<Rightarrow> variant list \<Rightarrow> expression" where
  "sample_call f as = \<lparr>ex_scopes = [], ex_function = f, ex_args = as\<rparr>"

definition sample_action :: action where
  "sample_action = \<lparr>ac_cond = Cond_None, ac_cond_expr = empty_expression,
     ac_expr = sample_call ''addnpctext'' [VInt 3, VString ''Hello'']\<rparr>"

definition sample_state :: quest_state where
  "sample_state = \<lparr>qs_name = ''begin'', qs_has_desc = False, qs_desc = ''Talk to the keeper'',
     qs_rules = [\<lparr>ru_expr = sample_call ''talkedtonpc'' [VInt 3],
       ru_action = \<lparr>ac_cond = Cond_None, ac_cond_expr = empty_expression,
         ac_expr = sample_call ''setstate'' [VString ''end'']\<rparr>\<rparr>],
     qs_actions = [sample_action, sample_action\<lparr>ac_cond := Cond_If,
       ac_cond_expr := sample_call ''ismale'' []\<rparr>],
     qs_goal_rule = 0\<rparr>"

lemmas sample_defs = sample_info_def sample_call_def sample_action_def sample_state_def

lemma sample_valid: "valid_state sample_state"
  by (simp add: sample_defs valid_state_def valid_rule_def valid_action_def valid_expr_def)

definition as_token :: "sig_token \<Rightarrow> token" where
  "as_token x = mk_token (fst x) (snd x)"

definition newline_free :: "sig_token list \<Rightarrow> bool" where
  "newline_free xs \<longleftrightarrow> (\<forall>x \<in> set xs. fst x \<noteq> Tok_NewLine)"

lemma newline_free_simps [simp]:
  "newline_free []" "newline_free (x # xs) \<longleftrightarrow> fst x \<noteq> Tok_NewLine \<and> newline_free xs"
  "newline_free (xs @ ys) \<longleftrightarrow> newline_free xs \<and> newline_free ys"
  "newline_free (concat xss) \<longleftrightarrow> (\<forall>xs \<in> set xss. newline_free xs)"
  by (auto simp: newline_free_def)

lemma significant_as_token: "newline_free xs \<Longrightarrow> significant (map as_token xs) = xs"
  by (induction xs) (auto simp: as_token_def)

lemma newline_free_args [simp]: "newline_free (args_tokens vs)"
proof (induction vs)
  case (Cons v vs)
  have "fst (arg_token v) \<noteq> Tok_NewLine" by (cases v) (simp_all add: sig_token_defs)
  with Cons show ?case by (simp add: args_tokens_Cons sig_token_defs)
qed (simp add: sig_token_defs)

lemma newline_free_expr [simp]: "newline_free (expr_tokens e)"
  by (simp add: expr_tokens_def sig_token_defs)

lemma newline_free_rules [simp]: "newline_free (rules_tokens g i rs)"
  by (induction rs arbitrary: i) (simp_all add: rule_tokens_def sig_token_defs)

lemma newline_free_action [simp]: "newline_free (action_tokens ac)"
  by (cases "ac_cond ac") (simp_all add: action_tokens_def sig_token_defs)

lemma newline_free_quest [simp]: "newline_free (quest_tokens i sts)"
  by (simp add: quest_tokens_def info_tokens_def state_tokens_def sig_token_defs split: hidden_type.split)

theorem parse_quest_printed_witness:
  "valid_state sample_state
   \<and> parse_quest (map as_token (quest_tokens sample_info [sample_state]))
     = Inr (quest_of sample_info [sample_state])"
  using parse_quest_printed [of "[sample_state]" "map as_token (quest_tokens sample_info [sample_state])"]
    sample_valid significant_as_token [OF newline_free_quest] by simp

text \<open>
  \<open>Quest::Quest\<close>: lex the whole input, then parse it. \<open>None\<close> when the lexer does not
  return; an exception is that of the lexer or that of the parser.
\<close>

definition load_quest :: "string \<Rightarrow> ((lexer_error + parser_error) + quest) option" where
  "load_quest src =
     (case lex_source src of
        None \<Rightarrow> None
      | Some (Inl e) \<Rightarrow> Some (Inl (Inl e))
      | Some (Inr ts) \<Rightarrow>
          Some (case parse_quest ts of Inl e \<Rightarrow> Inl (Inr e) | Inr q \<Rightarrow> Inr q))"

text \<open>C1: a well-formed quest whose tokens can be spelled is loaded back from its source text:
  the lexer and the parser together invert the printer.\<close>

theorem load_quest_printed:
  assumes "\<forall>st \<in> set sts. valid_state st" "distinct (map qs_name sts)"
    and "\<forall>x \<in> set (butlast (quest_tokens i sts)). printable (as_token x)"
  shows "load_quest (unlex (map as_token (butlast (quest_tokens i sts)))) = Some (Inr (quest_of i sts))"
proof -
  let ?ts = "map as_token (butlast (quest_tokens i sts))"
  have lexed: "lex_source (unlex ?ts) = Some (Inr (?ts @ [token_of_type Tok_EndOfFile]))"
    using assms(3) lex_buffered_or_printed [of "[]" ?ts "lexer_init (unlex ?ts)"]
    by (simp add: lex_source_def lexer_init_def)
  have q: "butlast (quest_tokens i sts) @ [(Tok_EndOfFile, VInt 0)] = quest_tokens i sts"
    by (simp add: quest_tokens_def butlast_append)
  have ts: "?ts @ [token_of_type Tok_EndOfFile] = map as_token (quest_tokens i sts)"
    using arg_cong [OF q, of "map as_token"] by (simp add: as_token_def token_of_type_def)
  have "stream (server_init (map as_token (quest_tokens i sts))) = quest_tokens i sts"
    by (simp add: stream_def server_init_def significant_as_token newline_free_quest)
  with runs_quest [OF assms(1,2)] obtain s where
    "parse_global quest_init (server_init (map as_token (quest_tokens i sts))) = Inr (quest_of i sts, s)"
    unfolding runs_def by blast
  with lexed ts show ?thesis by (simp add: load_quest_def parse_quest_def)
qed

lemma sample_words:
  "print_ok Tok_Identifier (VString ''main'')" "print_ok Tok_Identifier (VString ''questname'')"
  "print_ok Tok_Identifier (VString ''version'')" "print_ok Tok_Identifier (VString ''hidden'')"
  "print_ok Tok_Identifier (VString ''state'')" "print_ok Tok_Identifier (VString ''begin'')"
  "print_ok Tok_Identifier (VString ''desc'')" "print_ok Tok_Identifier (VString ''rule'')"
  "print_ok Tok_Identifier (VString ''action'')" "print_ok Tok_Identifier (VString ''if'')"
  "print_ok Tok_Identifier (VString ''talkedtonpc'')" "print_ok Tok_Identifier (VString ''setstate'')"
  "print_ok Tok_Identifier (VString ''addnpctext'')" "print_ok Tok_Identifier (VString ''ismale'')"
  by (simp_all add: char_class_defs)

lemma sample_symbols:
  "print_ok Tok_Symbol (VString ''{'')" "print_ok Tok_Symbol (VString ''}'')"
  "print_ok Tok_Symbol (VString ''.'')" "print_ok Tok_Symbol (VString '','')"
  "print_ok Tok_Operator (VInt 8)" "print_ok Tok_Operator (VInt 9)"
  by (simp_all add: char_class_defs printable_ops_def)

theorem load_quest_printed_witness:
  "list_all (\<lambda>x. printable (as_token x)) (butlast (quest_tokens sample_info [sample_state]))
   \<and> load_quest (unlex (map as_token (butlast (quest_tokens sample_info [sample_state]))))
     = Some (Inr (quest_of sample_info [sample_state]))"
proof -
  have "\<forall>x \<in> set (butlast (quest_tokens sample_info [sample_state])). printable (as_token x)"
    by (simp add: quest_tokens_def info_tokens_def state_tokens_def rule_tokens_def action_tokens_def
        expr_tokens_def goal_word_def sample_defs sig_token_defs as_token_def printable_def
        sample_words sample_symbols int_max_def newline_char_def del: print_ok.simps(1,5,6))
  with load_quest_printed [of "[sample_state]" sample_info] sample_valid show ?thesis
    by (simp add: list_all_iff)
qed

section \<open>Line numbers\<close>

text \<open>The line reached plus the newlines still to come: the number of lines of the file.\<close>

definition newline_count :: "token list \<Rightarrow> int" where
  "newline_count ts = int (length (filter (\<lambda>t. tk_type t = Tok_NewLine) ts))"

definition total_lines :: "server \<Rightarrow> int" where
  "total_lines s = ps_line s + newline_count (ps_buf s @ ps_in s)"

lemma newline_count_simps [simp]:
  "newline_count [] = 0"
  "newline_count (t # ts) = (if tk_type t = Tok_NewLine then 1 else 0) + newline_count ts"
  "newline_count (ts @ us) = newline_count ts + newline_count us"
  "newline_count (replicate n (token_of_type Tok_NewLine)) = int n"
  by (simp_all add: newline_count_def token_of_type_def)

lemma next_token_lines:
  "next_token s = (t, s') \<Longrightarrow> total_lines s = total_lines s' + (if tk_type t = Tok_NewLine then 1 else 0)"
  by (auto simp: next_token_def x_get_token_def total_lines_def no_token_def split: list.splits)

lemma fetch_lines:
  "fetch allow n s = (t, s') \<Longrightarrow> \<not> allows allow Tok_NewLine \<Longrightarrow> total_lines s' = total_lines s"
proof (induction allow n s rule: fetch.induct)
  case (1 allow n s)
  obtain u s1 where u: "next_token s = (u, s1)" by force
  have l: "total_lines (s1\<lparr>ps_line := ps_line s1 + 1\<rparr>) = total_lines s1 + 1"
    by (simp add: total_lines_def)
  show ?case
  proof (cases "tk_type u = Tok_NewLine")
    case True
    with 1(2,3) u have "fetch allow (n + 1) (s1\<lparr>ps_line := ps_line s1 + 1\<rparr>) = (t, s')"
      by (simp add: fetch.simps [of allow n s])
    with "1.IH" [of u s1 "s1\<lparr>ps_line := ps_line s1 + 1\<rparr>"] 1(3) u True next_token_lines [OF u] l
    show ?thesis by simp
  next
    case False
    with 1(2) u next_token_lines [OF u] show ?thesis by (simp add: fetch.simps [of allow n s])
  qed
qed

lemma put_back_lines:
  "0 \<le> tk_newlines t \<Longrightarrow> tk_type t \<noteq> Tok_NewLine \<Longrightarrow> total_lines (put_back t s) = total_lines s"
  by (simp add: total_lines_def put_back_def Let_def)

lemma get_token_lines:
  assumes "get_token allow s = (t, s')" "\<not> allows allow Tok_NewLine"
  shows "total_lines s' = total_lines s" and "tk_type t \<noteq> Tok_NewLine"
proof -
  obtain u s1 where u: "fetch allow 0 s = (u, s1)" by force
  have "tk_type u \<noteq> Tok_NewLine" "0 \<le> tk_newlines u" "total_lines s1 = total_lines s"
    using fetch_stream [OF u assms(2)] fetch_remaining [OF u] fetch_lines [OF u assms(2)] by auto
  with assms u show "total_lines s' = total_lines s" "tk_type t \<noteq> Tok_NewLine"
    by (auto simp: get_token_def put_back_lines no_token_def split: if_splits)
qed

text \<open>reading a token and putting it back keep the line number in step with the newlines
  still to come: the line reached plus those newlines is always the number of lines of the
  file.\<close>

theorem get_token_if_lines:
  assumes "get_token_if f allow s = (t, s')" "\<not> allows allow Tok_NewLine"
  shows "total_lines s' = total_lines s"
proof -
  obtain u s1 where u: "get_token allow s = (u, s1)" by force
  with get_token_lines [OF u assms(2)] get_token_remaining [OF u] assms(1) show ?thesis
    by (auto simp: get_token_if_def put_back_lines split: if_splits)
qed

definition sample_lines :: "token list" where
  "sample_lines = [token_of_type Tok_NewLine, token_of_type Tok_NewLine, mk_token Tok_Symbol (VString '';'')]"

theorem get_token_if_lines_witness:
  "\<not> allows (allow_of [Tok_Symbol]) Tok_NewLine
   \<and> total_lines (snd (get_token_if (is_text ''.'') (allow_of [Tok_Symbol]) (server_init sample_lines))) = 3"
proof -
  have "total_lines (server_init sample_lines) = 3"
    by (simp add: total_lines_def server_init_def sample_lines_def token_of_type_def)
  moreover have "total_lines (snd (get_token_if (is_text ''.'') (allow_of [Tok_Symbol]) (server_init sample_lines)))
      = total_lines (server_init sample_lines)"
    by (rule get_token_if_lines [OF prod.collapse [symmetric]]) simp
  ultimately show ?thesis by simp
qed

section \<open>Errors the parser should not make\<close>

text \<open>C5: a call with its scope in front, such as \<open>character.giveitem(1)\<close>, is rejected: the
  first identifier is taken as the name of the function whatever follows it, and the scopes
  are looked for after it.\<close>

theorem scoped_call_rejected:
  assumes "stream s = ident sc # symb ''.'' # ts" "sc \<noteq> ''goto''"
  shows "\<exists>l. parse_expression s = Inl \<lparr>pe_what = ''Expected '' @ quoted ''('' @ '' after function-name. Got: symbol ''
    @ quoted ''.'', pe_line = l\<rparr>"
proof -
  obtain t s1 where t: "get_token (allow_of [Tok_Identifier]) s = (t, s1)"
      "tk_type t = Tok_Identifier" "tk_data t = VString sc" "stream s1 = (Tok_Symbol, VString ''.'') # ts"
    using assms(1) get_token_hit [of s Tok_Identifier "VString sc" _ "allow_of [Tok_Identifier]"]
    by (auto simp: ident_def symb_def)
  obtain s2 where s2: "parse_scopes [] s1 = Inr ([], s2)" "stream s2 = (Tok_Symbol, VString ''.'') # ts"
    using runs_scopes [of "[]" Tok_Symbol "[]" "VString ''.''" ts] t(4) by (auto simp: runs_def)
  obtain u s3 where u: "fetch (allow_of [Tok_Operator]) 0 s2 = (u, s3)" by force
  have "(tk_type u, tk_data u) = (Tok_Symbol, VString ''.'')"
    using fetch_stream [OF u] s2(2) by auto
  then have "get_token_if (is_op LeftParens) (allow_of [Tok_Operator]) s2 = (no_token, put_back u s3)"
      "token_got_string (ps_reject (put_back u s3)) = ''symbol '' @ quoted ''.''"
    using u by (auto simp: get_token_if_def get_token_def token_got_string_def put_back_def Let_def)
  with t s2 assms(2) show ?thesis
    by (simp add: parse_expression_def parse_call_def token_ok_def no_token_def Let_def throw_got_def throw_error_def)
qed

definition sample_scoped :: "token list" where
  "sample_scoped = [mk_token Tok_Identifier (VString ''character''), mk_token Tok_Symbol (VString ''.''),
     mk_token Tok_Identifier (VString ''giveitem''), mk_token Tok_Operator (VInt 8)]"

theorem scoped_call_rejected_witness:
  "stream (server_init sample_scoped) = ident ''character'' # symb ''.''
       # [(Tok_Identifier, VString ''giveitem''), (Tok_Operator, VInt 8)]
   \<and> (\<exists>e. parse_expression (server_init sample_scoped) = Inl e)"
proof -
  have "stream (server_init sample_scoped) = ident ''character'' # symb ''.''
       # [(Tok_Identifier, VString ''giveitem''), (Tok_Operator, VInt 8)]"
    by (simp add: sample_scoped_def stream_def server_init_def ident_def symb_def)
  with scoped_call_rejected [OF this] show ?thesis by auto
qed

text \<open>a syntax error after a rule's function name that stands two lines below it is reported
  on the line of the name: putting the offending token back puts it in front of the newlines it
  came with, and reading it again does not count them.\<close>

theorem error_line_too_low:
  "\<exists>what. parse_expression (server_init
     [mk_token Tok_Identifier (VString ''ismale''), token_of_type Tok_NewLine, token_of_type Tok_NewLine,
      mk_token Tok_Symbol (VString ''}'')]) = Inl \<lparr>pe_what = what, pe_line = 1\<rparr>"
  by (simp add: parse_expression_def parse_call_def parse_scopes.simps get_token_if_def get_token_def
      fetch.simps next_token_def x_get_token_def server_init_def token_of_type_def token_ok_def no_token_def
      mk_token_def put_back_def Let_def tok_string_def throw_got_def throw_error_def reject_line_def
      eval_nat_numeral)

end
