(* ===== verification/Packet.thy ===== *)
theory Packet
  imports Prelude
begin

unbundle bit_operations_syntax

text \<open>
  The wire format (\<^verbatim>\<open>src/packet.cpp\<close>, \<^verbatim>\<open>src/packet.hpp\<close>, \<^verbatim>\<open>src/fwd/packet.hpp\<close>): names of
  packet families and actions, the base-253 numbers, the scrambling of packets, the reader
  and the builder. A byte is an \<open>8 word\<close>; \<open>std::size_t\<close> and \<open>unsigned int\<close> values are
  naturals with the reduction modulo their width written out. Reads outside a string are
  \<open>None\<close> or an \<open>Inl\<close>: the code's behaviour is undefined there.
\<close>

section \<open>Families and actions\<close>

datatype packet_family =
    PACKET_INTERNAL | PACKET_CONNECTION | PACKET_ACCOUNT | PACKET_CHARACTER | PACKET_LOGIN
  | PACKET_WELCOME | PACKET_WALK | PACKET_FACE | PACKET_CHAIR | PACKET_EMOTE | PACKET_ATTACK
  | PACKET_SPELL | PACKET_SHOP | PACKET_ITEM | PACKET_STATSKILL | PACKET_GLOBAL | PACKET_TALK
  | PACKET_WARP | PACKET_JUKEBOX | PACKET_PLAYERS | PACKET_AVATAR | PACKET_PARTY
  | PACKET_REFRESH | PACKET_NPC | PACKET_PLAYER_RANGE | PACKET_NPC_RANGE | PACKET_RANGE
  | PACKET_PAPERDOLL | PACKET_EFFECT | PACKET_TRADE | PACKET_CHEST | PACKET_DOOR
  | PACKET_MESSAGE | PACKET_BANK | PACKET_LOCKER | PACKET_BARBER | PACKET_GUILD | PACKET_MUSIC
  | PACKET_SIT | PACKET_RECOVER | PACKET_BOARD | PACKET_CAST | PACKET_ARENA | PACKET_PRIEST
  | PACKET_MARRIAGE | PACKET_ADMININTERACT | PACKET_CITIZEN | PACKET_QUEST | PACKET_BOOK
  | PACKET_F_INIT

fun family_code :: "packet_family \<Rightarrow> nat" where
  "family_code PACKET_INTERNAL = 0"
| "family_code PACKET_CONNECTION = 1"
| "family_code PACKET_ACCOUNT = 2"
| "family_code PACKET_CHARACTER = 3"
| "family_code PACKET_LOGIN = 4"
| "family_code PACKET_WELCOME = 5"
| "family_code PACKET_WALK = 6"
| "family_code PACKET_FACE = 7"
| "family_code PACKET_CHAIR = 8"
| "family_code PACKET_EMOTE = 9"
| "family_code PACKET_ATTACK = 11"
| "family_code PACKET_SPELL = 12"
| "family_code PACKET_SHOP = 13"
| "family_code PACKET_ITEM = 14"
| "family_code PACKET_STATSKILL = 16"
| "family_code PACKET_GLOBAL = 17"
| "family_code PACKET_TALK = 18"
| "family_code PACKET_WARP = 19"
| "family_code PACKET_JUKEBOX = 21"
| "family_code PACKET_PLAYERS = 22"
| "family_code PACKET_AVATAR = 23"
| "family_code PACKET_PARTY = 24"
| "family_code PACKET_REFRESH = 25"
| "family_code PACKET_NPC = 26"
| "family_code PACKET_PLAYER_RANGE = 27"
| "family_code PACKET_NPC_RANGE = 28"
| "family_code PACKET_RANGE = 29"
| "family_code PACKET_PAPERDOLL = 30"
| "family_code PACKET_EFFECT = 31"
| "family_code PACKET_TRADE = 32"
| "family_code PACKET_CHEST = 33"
| "family_code PACKET_DOOR = 34"
| "family_code PACKET_MESSAGE = 35"
| "family_code PACKET_BANK = 36"
| "family_code PACKET_LOCKER = 37"
| "family_code PACKET_BARBER = 38"
| "family_code PACKET_GUILD = 39"
| "family_code PACKET_MUSIC = 40"
| "family_code PACKET_SIT = 41"
| "family_code PACKET_RECOVER = 42"
| "family_code PACKET_BOARD = 43"
| "family_code PACKET_CAST = 44"
| "family_code PACKET_ARENA = 45"
| "family_code PACKET_PRIEST = 46"
| "family_code PACKET_MARRIAGE = 47"
| "family_code PACKET_ADMININTERACT = 48"
| "family_code PACKET_CITIZEN = 49"
| "family_code PACKET_QUEST = 50"
| "family_code PACKET_BOOK = 51"
| "family_code PACKET_F_INIT = 255"

definition all_families :: "packet_family list" where
  "all_families =
    [PACKET_INTERNAL, PACKET_CONNECTION, PACKET_ACCOUNT, PACKET_CHARACTER, PACKET_LOGIN,
     PACKET_WELCOME, PACKET_WALK, PACKET_FACE, PACKET_CHAIR, PACKET_EMOTE, PACKET_ATTACK,
     PACKET_SPELL, PACKET_SHOP, PACKET_ITEM, PACKET_STATSKILL, PACKET_GLOBAL, PACKET_TALK,
     PACKET_WARP, PACKET_JUKEBOX, PACKET_PLAYERS, PACKET_AVATAR, PACKET_PARTY, PACKET_REFRESH,
     PACKET_NPC, PACKET_PLAYER_RANGE, PACKET_NPC_RANGE, PACKET_RANGE, PACKET_PAPERDOLL,
     PACKET_EFFECT, PACKET_TRADE, PACKET_CHEST, PACKET_DOOR, PACKET_MESSAGE, PACKET_BANK,
     PACKET_LOCKER, PACKET_BARBER, PACKET_GUILD, PACKET_MUSIC, PACKET_SIT, PACKET_RECOVER,
     PACKET_BOARD, PACKET_CAST, PACKET_ARENA, PACKET_PRIEST, PACKET_MARRIAGE,
     PACKET_ADMININTERACT, PACKET_CITIZEN, PACKET_QUEST, PACKET_BOOK, PACKET_F_INIT]"

fun family_name :: "packet_family \<Rightarrow> string" where
  "family_name PACKET_INTERNAL = ''INTERNAL''"
| "family_name PACKET_CONNECTION = ''Connection''"
| "family_name PACKET_ACCOUNT = ''Account''"
| "family_name PACKET_CHARACTER = ''Character''"
| "family_name PACKET_LOGIN = ''Login''"
| "family_name PACKET_WELCOME = ''Welcome''"
| "family_name PACKET_WALK = ''Walk''"
| "family_name PACKET_FACE = ''Face''"
| "family_name PACKET_CHAIR = ''Chair''"
| "family_name PACKET_EMOTE = ''Emote''"
| "family_name PACKET_ATTACK = ''Attack''"
| "family_name PACKET_SPELL = ''Spell''"
| "family_name PACKET_SHOP = ''Shop''"
| "family_name PACKET_ITEM = ''Item''"
| "family_name PACKET_STATSKILL = ''StatSkill''"
| "family_name PACKET_GLOBAL = ''Global''"
| "family_name PACKET_TALK = ''Talk''"
| "family_name PACKET_WARP = ''Warp''"
| "family_name PACKET_JUKEBOX = ''Jukebox''"
| "family_name PACKET_PLAYERS = ''Players''"
| "family_name PACKET_AVATAR = ''Avatar''"
| "family_name PACKET_PARTY = ''Party''"
| "family_name PACKET_REFRESH = ''Refresh''"
| "family_name PACKET_NPC = ''NPC''"
| "family_name PACKET_PLAYER_RANGE = ''PlayerRange''"
| "family_name PACKET_NPC_RANGE = ''NpcRange''"
| "family_name PACKET_RANGE = ''Range''"
| "family_name PACKET_PAPERDOLL = ''Paperdoll''"
| "family_name PACKET_EFFECT = ''Effect''"
| "family_name PACKET_TRADE = ''Trade''"
| "family_name PACKET_CHEST = ''Chest''"
| "family_name PACKET_DOOR = ''Door''"
| "family_name PACKET_MESSAGE = ''Message''"
| "family_name PACKET_BANK = ''Bank''"
| "family_name PACKET_LOCKER = ''Locker''"
| "family_name PACKET_BARBER = ''Barber''"
| "family_name PACKET_GUILD = ''Guild''"
| "family_name PACKET_MUSIC = ''Music''"
| "family_name PACKET_SIT = ''Sit''"
| "family_name PACKET_RECOVER = ''Recover''"
| "family_name PACKET_BOARD = ''Board''"
| "family_name PACKET_CAST = ''Cast''"
| "family_name PACKET_ARENA = ''Arena''"
| "family_name PACKET_PRIEST = ''Priest''"
| "family_name PACKET_MARRIAGE = ''Marriage''"
| "family_name PACKET_ADMININTERACT = ''AdminInteract''"
| "family_name PACKET_CITIZEN = ''Citizen''"
| "family_name PACKET_QUEST = ''Quest''"
| "family_name PACKET_BOOK = ''Book''"
| "family_name PACKET_F_INIT = ''Init''"

datatype packet_action =
    PACKET_REQUEST | PACKET_ACCEPT | PACKET_REPLY | PACKET_REMOVE | PACKET_AGREE
  | PACKET_CREATE | PACKET_ADD | PACKET_PLAYER | PACKET_TAKE | PACKET_USE | PACKET_BUY
  | PACKET_SELL | PACKET_OPEN | PACKET_CLOSE | PACKET_MSG | PACKET_SPEC | PACKET_ADMIN
  | PACKET_LIST | PACKET_TELL | PACKET_REPORT | PACKET_ANNOUNCE | PACKET_SERVER | PACKET_DROP
  | PACKET_JUNK | PACKET_OBTAIN | PACKET_GET | PACKET_KICK | PACKET_RANK | PACKET_TARGET_SELF
  | PACKET_TARGET_OTHER | PACKET_TARGET_GROUP | PACKET_DIALOG | PACKET_INTERNAL_NULL
  | PACKET_INTERNAL_WARP | PACKET_PING | PACKET_PONG | PACKET_NET3 | PACKET_A_INIT

fun action_code :: "packet_action \<Rightarrow> nat" where
  "action_code PACKET_REQUEST = 1"
| "action_code PACKET_ACCEPT = 2"
| "action_code PACKET_REPLY = 3"
| "action_code PACKET_REMOVE = 4"
| "action_code PACKET_AGREE = 5"
| "action_code PACKET_CREATE = 6"
| "action_code PACKET_ADD = 7"
| "action_code PACKET_PLAYER = 8"
| "action_code PACKET_TAKE = 9"
| "action_code PACKET_USE = 10"
| "action_code PACKET_BUY = 11"
| "action_code PACKET_SELL = 12"
| "action_code PACKET_OPEN = 13"
| "action_code PACKET_CLOSE = 14"
| "action_code PACKET_MSG = 15"
| "action_code PACKET_SPEC = 16"
| "action_code PACKET_ADMIN = 17"
| "action_code PACKET_LIST = 18"
| "action_code PACKET_TELL = 20"
| "action_code PACKET_REPORT = 21"
| "action_code PACKET_ANNOUNCE = 22"
| "action_code PACKET_SERVER = 23"
| "action_code PACKET_DROP = 24"
| "action_code PACKET_JUNK = 25"
| "action_code PACKET_OBTAIN = 26"
| "action_code PACKET_GET = 27"
| "action_code PACKET_KICK = 28"
| "action_code PACKET_RANK = 29"
| "action_code PACKET_TARGET_SELF = 30"
| "action_code PACKET_TARGET_OTHER = 31"
| "action_code PACKET_TARGET_GROUP = 33"
| "action_code PACKET_DIALOG = 34"
| "action_code PACKET_INTERNAL_NULL = 128"
| "action_code PACKET_INTERNAL_WARP = 129"
| "action_code PACKET_PING = 240"
| "action_code PACKET_PONG = 241"
| "action_code PACKET_NET3 = 242"
| "action_code PACKET_A_INIT = 255"

definition all_actions :: "packet_action list" where
  "all_actions =
    [PACKET_REQUEST, PACKET_ACCEPT, PACKET_REPLY, PACKET_REMOVE, PACKET_AGREE, PACKET_CREATE,
     PACKET_ADD, PACKET_PLAYER, PACKET_TAKE, PACKET_USE, PACKET_BUY, PACKET_SELL, PACKET_OPEN,
     PACKET_CLOSE, PACKET_MSG, PACKET_SPEC, PACKET_ADMIN, PACKET_LIST, PACKET_TELL,
     PACKET_REPORT, PACKET_ANNOUNCE, PACKET_SERVER, PACKET_DROP, PACKET_JUNK, PACKET_OBTAIN,
     PACKET_GET, PACKET_KICK, PACKET_RANK, PACKET_TARGET_SELF, PACKET_TARGET_OTHER,
     PACKET_TARGET_GROUP, PACKET_DIALOG, PACKET_INTERNAL_NULL, PACKET_INTERNAL_WARP,
     PACKET_PING, PACKET_PONG, PACKET_NET3, PACKET_A_INIT]"

fun action_name :: "packet_action \<Rightarrow> string" where
  "action_name PACKET_REQUEST = ''Request''"
| "action_name PACKET_ACCEPT = ''Accept''"
| "action_name PACKET_REPLY = ''Reply''"
| "action_name PACKET_REMOVE = ''Remove''"
| "action_name PACKET_AGREE = ''Agree''"
| "action_name PACKET_CREATE = ''Create''"
| "action_name PACKET_ADD = ''Add''"
| "action_name PACKET_PLAYER = ''Player''"
| "action_name PACKET_TAKE = ''Take''"
| "action_name PACKET_USE = ''Use''"
| "action_name PACKET_BUY = ''Buy''"
| "action_name PACKET_SELL = ''Sell''"
| "action_name PACKET_OPEN = ''Open''"
| "action_name PACKET_CLOSE = ''Close''"
| "action_name PACKET_MSG = ''Msg''"
| "action_name PACKET_SPEC = ''Spec''"
| "action_name PACKET_ADMIN = ''Admin''"
| "action_name PACKET_LIST = ''List''"
| "action_name PACKET_TELL = ''Tell''"
| "action_name PACKET_REPORT = ''Report''"
| "action_name PACKET_ANNOUNCE = ''Announce''"
| "action_name PACKET_SERVER = ''Server''"
| "action_name PACKET_DROP = ''Drop''"
| "action_name PACKET_JUNK = ''Junk''"
| "action_name PACKET_OBTAIN = ''Obtain''"
| "action_name PACKET_GET = ''Get''"
| "action_name PACKET_KICK = ''Kick''"
| "action_name PACKET_RANK = ''Rank''"
| "action_name PACKET_TARGET_SELF = ''TargetSelf''"
| "action_name PACKET_TARGET_OTHER = ''TargetOther''"
| "action_name PACKET_TARGET_GROUP = ''TargetGroup''"
| "action_name PACKET_DIALOG = ''Dialog''"
| "action_name PACKET_INTERNAL_NULL = ''INTERNAL_NULL''"
| "action_name PACKET_INTERNAL_WARP = ''INTERNAL_WARP''"
| "action_name PACKET_PING = ''Ping''"
| "action_name PACKET_PONG = ''Pong''"
| "action_name PACKET_NET3 = ''Net3''"
| "action_name PACKET_A_INIT = ''Init''"

text \<open>\<open>GetFamilyName\<close> and \<open>GetActionName\<close> on any byte, named or not.\<close>

definition get_family_name :: "nat \<Rightarrow> string" where
  "get_family_name n =
     (case find (\<lambda>f. family_code f = n) all_families of None \<Rightarrow> ''UNKNOWN'' | Some f \<Rightarrow> family_name f)"

definition get_action_name :: "nat \<Rightarrow> string" where
  "get_action_name n =
     (case find (\<lambda>a. action_code a = n) all_actions of None \<Rightarrow> ''UNKNOWN'' | Some a \<Rightarrow> action_name a)"

section \<open>Numbers\<close>

type_synonym byte = "8 word"

definition MAX1 :: nat where "MAX1 = 253"
definition MAX2 :: nat where "MAX2 = 64009"
definition MAX3 :: nat where "MAX3 = 16194277"

definition number_digit :: "byte \<Rightarrow> nat" where
  "number_digit b0 =
     (let b1 = (if b0 = 254 then 1 else b0);
          b2 = (if b1 = 0 then 128 else b1)
      in unat (b2 - 1))"

definition number :: "byte \<Rightarrow> byte \<Rightarrow> byte \<Rightarrow> byte \<Rightarrow> nat" where
  "number b1 b2 b3 b4 =
     (number_digit b4 * MAX3 + number_digit b3 * MAX2 + number_digit b2 * MAX1 + number_digit b1)
       mod 2 ^ 32"

text \<open>\<open>ENumber(unsigned int)\<close>; the argument is reduced to 32 bits on entry.\<close>

definition enumber :: "nat \<Rightarrow> byte list" where
  "enumber arg =
     (let onumber = arg mod 2 ^ 32;
          b3 = (if onumber \<ge> MAX3 then of_nat (onumber div MAX3 + 1) else 254);
          n3 = (if onumber \<ge> MAX3 then onumber mod MAX3 else onumber);
          b2 = (if onumber \<ge> MAX2 then of_nat (n3 div MAX2 + 1) else 254);
          n2 = (if onumber \<ge> MAX2 then n3 mod MAX2 else n3);
          b1 = (if onumber \<ge> MAX1 then of_nat (n2 div MAX1 + 1) else 254);
          n1 = (if onumber \<ge> MAX1 then n2 mod MAX1 else n2);
          b0 = of_nat (n1 + 1)
      in [b0, b1, b2, b3])"

text \<open>The second result of \<open>ENumber\<close>: how many of the bytes are to be sent.\<close>

definition enumber_size :: "nat \<Rightarrow> nat" where
  "enumber_size n =
     (let bytes = enumber n
      in if bytes ! 3 \<noteq> 0 then 4 else if bytes ! 2 \<noteq> 0 then 3 else if bytes ! 1 \<noteq> 0 then 2 else 1)"

definition pid :: "byte \<Rightarrow> byte \<Rightarrow> 16 word" where
  "pid family action = ucast family OR push_bit 8 (ucast action)"

definition epid :: "16 word \<Rightarrow> byte list" where
  "epid i = [ucast (drop_bit 8 i), ucast (i AND 0xFF)]"

lemmas max_defs = MAX1_def MAX2_def MAX3_def

lemma enumber_length [simp]: "length (enumber n) = 4"
  by (simp add: enumber_def Let_def)

lemma number_digit_of_nat: "n < 253 \<Longrightarrow> number_digit (of_nat (n + 1)) = n"
proof -
  assume n: "n < 253"
  have u: "unat (of_nat (n + 1) :: byte) = n + 1"
    using n by (simp only: unat_of_nat) simp
  then have "of_nat (n + 1) \<noteq> (254 :: byte)" "of_nat (n + 1) \<noteq> (0 :: byte)"
    using n by auto
  moreover have "unat (of_nat (n + 1) - 1 :: byte) = n"
    using n by (simp add: unat_of_nat)
  ultimately show ?thesis by (simp only: number_digit_def Let_def if_False)
qed

lemma number_digit_254 [simp]: "number_digit 254 = 0"
  by (simp add: number_digit_def)

lemma number_digit_le: "number_digit b \<le> 254"
proof -
  have "unat (x - 1) \<le> 254" if "x \<noteq> 0" for x :: byte
  proof -
    have "unat (x - 1) = unat x - 1" using that by (simp add: unat_minus_one)
    moreover have "unat x < 2 ^ LENGTH(8)" by (rule unsigned_less)
    ultimately show ?thesis by simp
  qed
  then show ?thesis by (simp add: number_digit_def Let_def)
qed

lemma number_no_wrap:
  "number b1 b2 b3 b4 =
     number_digit b4 * MAX3 + number_digit b3 * MAX2 + number_digit b2 * MAX1 + number_digit b1"
  using number_digit_le [of b1] number_digit_le [of b2] number_digit_le [of b3] number_digit_le [of b4]
  by (simp add: number_def max_defs)

lemma number_enumber_eq:
  assumes "n < 253 ^ 4"
  shows "number (enumber n ! 0) (enumber n ! 1) (enumber n ! 2) (enumber n ! 3) = n"
proof -
  have n: "n mod 2 ^ 32 = n" using assms by simp
  define n3 where "n3 = n mod MAX3"
  define n2 where "n2 = n3 mod MAX2"
  have q: "n div MAX3 < 253" "n3 div MAX2 < 253" "n2 div MAX1 < 253" "n2 mod MAX1 < 253"
    using assms by (simp_all add: n3_def n2_def max_defs less_mult_imp_div_less div_less_iff_less_mult)
  have small: "n < MAX3 \<Longrightarrow> n3 = n" "n < MAX2 \<Longrightarrow> n3 div MAX2 = 0 \<and> n2 = n" "n < MAX1 \<Longrightarrow> n2 div MAX1 = 0 \<and> n2 mod MAX1 = n"
    by (auto simp: n3_def n2_def max_defs)
  have e: "enumber n = [of_nat (n2 mod MAX1 + 1),
      if n \<ge> MAX1 then of_nat (n2 div MAX1 + 1) else 254,
      if n \<ge> MAX2 then of_nat (n3 div MAX2 + 1) else 254,
      if n \<ge> MAX3 then of_nat (n div MAX3 + 1) else 254]"
  proof -
    have "(if n \<ge> MAX3 then n mod MAX3 else n) = n3" "(if n \<ge> MAX2 then n3 mod MAX2 else n3) = n2"
      "(if n \<ge> MAX1 then n2 mod MAX1 else n2) = n2 mod MAX1"
      using small by (auto simp: n3_def n2_def max_defs)
    then show ?thesis by (simp only: enumber_def n Let_def)
  qed
  have "number_digit (if n \<ge> m then of_nat (q + 1) else 254) = q" if "q < 253" "n < m \<Longrightarrow> q = 0" for m q
    using that number_digit_of_nat [of q] by auto
  then have "number (enumber n ! 0) (enumber n ! 1) (enumber n ! 2) (enumber n ! 3)
      = n div MAX3 * MAX3 + n3 div MAX2 * MAX2 + n2 div MAX1 * MAX1 + n2 mod MAX1"
    using q small number_digit_of_nat [OF q(4)] by (simp add: number_no_wrap e)
  also have "\<dots> = n" by (simp add: n3_def n2_def)
  finally show ?thesis .
qed

text \<open>C14: \<open>Number\<close> inverts \<open>ENumber\<close> on every number below \<open>253 ^ 4\<close>.\<close>

theorem number_enumber:
  assumes "n < 253 ^ 4"
  shows "number (enumber n ! 0) (enumber n ! 1) (enumber n ! 2) (enumber n ! 3) = n"
  using assms by (rule number_enumber_eq)

theorem number_enumber_witness:
  "(1000000000 :: nat) < 253 ^ 4
   \<and> number (enumber 1000000000 ! 0) (enumber 1000000000 ! 1) (enumber 1000000000 ! 2) (enumber 1000000000 ! 3)
     = 1000000000"
  using number_enumber [of 1000000000] by simp

text \<open>a packet identifier is taken apart into the action and the family it was made of.\<close>

theorem epid_pid: "epid (pid family action) = [action, family]"
proof -
  have "ucast (drop_bit 8 (pid family action)) = action"
    by (rule bit_word_eqI) (auto simp: pid_def bit_simps dest: bit_imp_le_length)
  moreover have "ucast (pid family action AND mask 8) = family"
    by (rule bit_word_eqI) (auto simp: pid_def bit_simps dest: bit_imp_le_length)
  ultimately show ?thesis by (simp add: epid_def mask_eq_exp_minus_1)
qed

text \<open>C15: the names of packet families identify them: no two families share a name,
  and a byte is named \<open>UNKNOWN\<close> exactly when it is no family's code.\<close>

theorem family_names_identify:
  "inj family_name
   \<and> (\<forall>f. get_family_name (family_code f) = family_name f)
   \<and> (\<forall>n. get_family_name n = ''UNKNOWN'' \<longleftrightarrow> (\<forall>f. family_code f \<noteq> n))"
proof -
  have all: "f \<in> set all_families" for f by (cases f) (simp_all add: all_families_def)
  have dist: "distinct (map family_name all_families)" "distinct (map family_code all_families)"
    by (simp_all add: all_families_def)
  then have names: "family_name f = family_name g \<Longrightarrow> f = g" for f g
    using all dist(1) unfolding distinct_map inj_on_def by blast
  have codes: "family_code f = family_code g \<Longrightarrow> f = g" for f g
    using all dist(2) unfolding distinct_map inj_on_def by blast
  have code: "get_family_name (family_code f) = family_name f" for f
  proof -
    obtain g where g: "find (\<lambda>g. family_code g = family_code f) all_families = Some g"
      using all [of f] by (cases "find (\<lambda>g. family_code g = family_code f) all_families")
        (simp_all only: find_None_iff, blast)
    then show ?thesis using find_SomeD [OF g] codes by (auto simp: get_family_name_def)
  qed
  have "family_name f \<noteq> ''UNKNOWN''" for f by (cases f) simp_all
  moreover have "get_family_name n = ''UNKNOWN''" if "\<forall>f. family_code f \<noteq> n" for n
    using that by (simp add: get_family_name_def find_None_iff [THEN iffD2])
  ultimately have "get_family_name n = ''UNKNOWN'' \<longleftrightarrow> (\<forall>f. family_code f \<noteq> n)" for n
    using code by metis
  moreover have "inj family_name" by (rule injI) (rule names)
  ultimately show ?thesis using code by blast
qed

section \<open>Scrambling\<close>

subsection \<open>DickWinder\<close>

text \<open>The loop of \<open>DickWinder\<close>: runs of bytes divisible by \<open>emulti\<close> are reversed.\<close>

fun dick_winder_loop :: "byte \<Rightarrow> byte list \<Rightarrow> byte list \<Rightarrow> byte list \<Rightarrow> byte list" where
  "dick_winder_loop emulti newstr buffer [] =
     (if length buffer > 0 then newstr @ rev buffer else newstr)"
| "dick_winder_loop emulti newstr buffer (c # str) =
     (if c mod emulti = 0 then dick_winder_loop emulti newstr (buffer @ [c]) str
      else if length buffer > 0 then dick_winder_loop emulti (newstr @ rev buffer @ [c]) [] str
      else dick_winder_loop emulti (newstr @ [c]) buffer str)"

definition dick_winder :: "byte list \<Rightarrow> byte \<Rightarrow> byte list" where
  "dick_winder str emulti = (if emulti = 0 then str else dick_winder_loop emulti [] [] str)"

lemma dick_winder_loop_acc:
  "dick_winder_loop e new buf str = new @ dick_winder_loop e [] buf str"
proof (induction str arbitrary: new buf)
  case (Cons c str)
  show ?case
    using Cons.IH [of new "buf @ [c]"] Cons.IH [of "new @ rev buf @ [c]" "[]"] Cons.IH [of "rev buf @ [c]" "[]"]
      Cons.IH [of "new @ [c]" buf] Cons.IH [of "[c]" buf]
    by (cases "buf = []") simp_all
qed simp

text \<open>What the loop computes: the pending run reversed, then the rest after its next separator.\<close>

lemma dick_winder_loop_run:
  "dick_winder_loop e [] buf str =
     rev (buf @ takeWhile (\<lambda>c. c mod e = 0) str)
     @ (case dropWhile (\<lambda>c. c mod e = 0) str of [] \<Rightarrow> [] | c # cs \<Rightarrow> c # dick_winder_loop e [] [] cs)"
proof (induction str arbitrary: buf)
  case (Cons c str)
  then show ?case
    using dick_winder_loop_acc [of e "rev buf @ [c]" "[]" str] dick_winder_loop_acc [of e "[c]" "[]" str]
    by auto
qed simp

lemma dick_winder_loop_involution: "dick_winder_loop e [] [] (dick_winder_loop e [] [] str) = str"
proof (induction str rule: length_induct)
  case (1 str)
  let ?P = "\<lambda>c. c mod e = 0"
  let ?run = "takeWhile ?P str"
  have run: "\<forall>c \<in> set (rev ?run). ?P c" by (auto dest: set_takeWhileD)
  show ?case
  proof (cases "dropWhile ?P str")
    case Nil
    then have all: "\<forall>c \<in> set str. ?P c" by (simp add: dropWhile_eq_Nil_conv)
    then have "dick_winder_loop e [] [] xs = rev xs" if "set xs = set str" for xs
      using that by (simp add: dick_winder_loop_run [of e "[]" xs] takeWhile_eq_all_conv [THEN iffD2]
          dropWhile_eq_Nil_conv [THEN iffD2])
    from this [of str] this [of "rev str"] show ?thesis by simp
  next
    case (Cons c cs)
    then have c: "\<not> ?P c" and str: "str = ?run @ c # cs"
      using hd_dropWhile [of ?P str] takeWhile_dropWhile_id [of ?P str] by auto
    have "length cs < length str" using arg_cong [OF str, of length] by simp
    with 1 have "dick_winder_loop e [] [] (dick_winder_loop e [] [] cs) = cs" by blast
    then have "dick_winder_loop e [] [] (rev ?run @ c # dick_winder_loop e [] [] cs) = ?run @ c # cs"
      using run c by (simp add: dick_winder_loop_run [of e "[]" "rev ?run @ c # _"] takeWhile_append
          dropWhile_append)
    then have "dick_winder_loop e [] [] (dick_winder_loop e [] [] str) = ?run @ c # cs"
      using Cons by (simp add: dick_winder_loop_run [of e "[]" str])
    with str show ?thesis by simp
  qed
qed

lemma dick_winder_involution: "dick_winder (dick_winder str e) e = str"
  by (simp add: dick_winder_def dick_winder_loop_involution)

lemma dick_winder_length [simp]: "length (dick_winder str e) = length str"
proof -
  have "length (dick_winder_loop e new buf str) = length new + length buf + length str" for new buf
    by (induction str arbitrary: new buf) simp_all
  then show ?thesis by (simp add: dick_winder_def)
qed

subsection \<open>Encode and Decode\<close>

definition flip_byte :: "byte \<Rightarrow> byte" where
  "flip_byte b = b XOR 0x80"

text \<open>The last loop of both: from index 2 on, 128 and 0 change places.\<close>

definition swap_zero :: "byte \<Rightarrow> byte" where
  "swap_zero b = (if b = 128 then 0 else if b = 0 then 128 else b)"

definition swap_zeros :: "byte list \<Rightarrow> byte list" where
  "swap_zeros str = take 2 str @ map swap_zero (drop 2 str)"

function decode_up :: "nat \<Rightarrow> byte list \<Rightarrow> byte list \<Rightarrow> nat \<times> byte list" where
  "decode_up i str new =
     (if i < length str then decode_up (i + 2) str (new @ [flip_byte (str ! i)]) else (i, new))"
  by pat_completeness auto
termination by (relation "measure (\<lambda>(i, str, new). length str - i)") auto

text \<open>The \<open>do\<close> loop that runs while the index has not become negative.\<close>

fun decode_down :: "nat \<Rightarrow> byte list \<Rightarrow> byte list \<Rightarrow> byte list" where
  "decode_down i str new =
     (let new1 = new @ [flip_byte (str ! i)]
      in if 2 \<le> i then decode_down (i - 2) str new1 else new1)"

declare decode_up.simps [simp del] decode_down.simps [simp del]

text \<open>\<open>None\<close>: the string is too short and the code reads outside it. \<open>Execute\<close> never passes
  such a string.\<close>

definition decode :: "byte \<Rightarrow> byte list \<Rightarrow> byte list option" where
  "decode emulti_d str =
     (if emulti_d = 0 then Some str
      else if length str < 2 then None
      else if str ! 0 = of_nat (action_code PACKET_A_INIT) \<and> str ! 1 = of_nat (family_code PACKET_F_INIT)
        then Some str
      else case decode_up 0 str [] of
             (i, new) \<Rightarrow>
               let i1 = i - 1;
                   i2 = (if length str mod 2 \<noteq> 0 then i1 - 2 else i1)
               in Some (dick_winder (swap_zeros (decode_down i2 str new)) emulti_d))"

function encode_up :: "nat \<Rightarrow> nat \<Rightarrow> byte list \<Rightarrow> byte list \<Rightarrow> nat \<times> byte list" where
  "encode_up i ii str new =
     (if i < length str then encode_up (i + 2) (ii + 1) str (new[i := flip_byte (str ! ii)]) else (ii, new))"
  by pat_completeness auto
termination by (relation "measure (\<lambda>(i, ii, str, new). length str - i)") auto

fun encode_down :: "nat \<Rightarrow> nat \<Rightarrow> byte list \<Rightarrow> byte list \<Rightarrow> byte list" where
  "encode_down i ii str new =
     (if 2 \<le> i then encode_down (i - 2) (ii + 1) str (new[i := flip_byte (str ! ii)]) else new)"

declare encode_up.simps [simp del] encode_down.simps [simp del]

definition encode :: "byte \<Rightarrow> byte list \<Rightarrow> byte list option" where
  "encode emulti_e rawstr =
     (if emulti_e = 0 then Some rawstr
      else if length rawstr < 4 then None
      else if rawstr ! 2 = of_nat (action_code PACKET_A_INIT) \<and> rawstr ! 3 = of_nat (family_code PACKET_F_INIT)
        then Some rawstr
      else let str = dick_winder rawstr emulti_e;
               new0 = (replicate (length str) 0)[0 := str ! 0, 1 := str ! 1]
           in case encode_up 2 2 str new0 of
                (ii, new) \<Rightarrow>
                  let i = length str - 1;
                      i' = (if length str mod 2 \<noteq> 0 then i - 1 else i)
                  in Some (swap_zeros (encode_down i' ii str new)))"

lemma flip_flip [simp]: "flip_byte (flip_byte b) = b"
  by (simp add: flip_byte_def xor.assoc)

lemma swap_flip: "swap_zero (flip_byte (swap_zero (flip_byte b))) = b"
proof -
  have "flip_byte b = 0 \<longleftrightarrow> b = 0x80" "flip_byte b = 0x80 \<longleftrightarrow> b = 0"
    by (metis flip_byte_def xor.left_neutral xor_self_eq flip_flip)
     (metis flip_byte_def xor.left_neutral xor_self_eq flip_flip)
  moreover have "flip_byte 0 = 128" "flip_byte 128 = 0" by (simp_all add: flip_byte_def)
  ultimately show ?thesis by (auto simp: swap_zero_def)
qed

lemma flip_swap_flip: "b \<noteq> 0 \<Longrightarrow> b \<noteq> 128 \<Longrightarrow> flip_byte (swap_zero (flip_byte b)) = b"
proof -
  assume b: "b \<noteq> 0" "b \<noteq> 128"
  have "flip_byte b \<noteq> 0" "flip_byte b \<noteq> 128"
    using b by (metis flip_byte_def xor.left_neutral flip_flip) (metis b(1) flip_byte_def xor_self_eq flip_flip)
  then show ?thesis by (simp add: swap_zero_def)
qed

lemma decode_up_eq:
  "decode_up i str new =
     (i + 2 * ((length str + 1 - i) div 2),
      new @ map (\<lambda>k. flip_byte (str ! (i + 2 * k))) [0..<(length str + 1 - i) div 2])"
proof (induction i str new rule: decode_up.induct)
  case (1 i str new)
  show ?case
  proof (cases "i < length str")
    case True
    then have h: "(length str + 1 - i) div 2 = Suc ((length str + 1 - (i + 2)) div 2)" by linarith
    show ?thesis
      using 1 [OF True] True unfolding decode_up.simps [of i str new] h upt_conv_Cons [OF zero_less_Suc]
      by (simp add: map_Suc_upt [symmetric] del: upt_Suc)
  next
    case False
    then show ?thesis by (simp add: decode_up.simps [of i str new])
  qed
qed

lemma decode_down_eq:
  "decode_down i str new = new @ map (\<lambda>k. flip_byte (str ! (i - 2 * k))) [0..<i div 2 + 1]"
proof (induction i str new rule: decode_down.induct)
  case (1 i str new)
  show ?case
  proof (cases "2 \<le> i")
    case True
    then have h: "i div 2 + 1 = Suc ((i - 2) div 2 + 1)" by linarith
    show ?thesis
      using 1 [OF refl True] True unfolding decode_down.simps [of i str new] h upt_conv_Cons [OF zero_less_Suc]
      by (simp add: Let_def map_Suc_upt [symmetric] del: upt_Suc)
  next
    case False
    then show ?thesis by (simp add: decode_down.simps [of i str new] Let_def)
  qed
qed

lemma encode_up_nth:
  "encode_up i ii str new = (ii', new') \<Longrightarrow> length new = length str \<Longrightarrow>
     ii' = ii + (length str + 1 - i) div 2 \<and> length new' = length str
     \<and> (\<forall>j < length str. new' ! j =
          (if i \<le> j \<and> even (j - i) then flip_byte (str ! (ii + (j - i) div 2)) else new ! j))"
proof (induction i ii str new rule: encode_up.induct)
  case (1 i ii str new)
  show ?case
  proof (cases "i < length str")
    case True
    let ?new = "new[i := flip_byte (str ! ii)]"
    have step: "encode_up (i + 2) (ii + 1) str ?new = (ii', new')"
      using 1(2) True by (simp add: encode_up.simps [of i ii str new])
    have h: "(length str + 1 - i) div 2 = Suc ((length str + 1 - (i + 2)) div 2)" using True by linarith
    have IH: "ii' = ii + 1 + (length str + 1 - (i + 2)) div 2 \<and> length new' = length str
     \<and> (\<forall>j < length str. new' ! j =
          (if i + 2 \<le> j \<and> even (j - (i + 2)) then flip_byte (str ! (ii + 1 + (j - (i + 2)) div 2)) else ?new ! j))"
      using 1(1) [OF True step] 1(3) by simp
    have "new' ! j = (if i \<le> j \<and> even (j - i) then flip_byte (str ! (ii + (j - i) div 2)) else new ! j)"
      if "j < length str" for j
    proof -
      consider "j < i" | "j = i" | "j = i + 1" | "i + 2 \<le> j" by linarith
      then show ?thesis
      proof cases
        case 4
        then obtain k where k: "j = i + 2 + k" by (metis le_iff_add)
        show ?thesis using IH that k 1(3) by auto
      qed (use IH that 1(3) True in auto)
    qed
    with IH h show ?thesis by simp
  next
    case False
    with 1(2,3) show ?thesis by (auto simp: encode_up.simps [of i ii str new])
  qed
qed

lemma encode_down_nth:
  "i < length str \<Longrightarrow> length new = length str \<Longrightarrow>
     length (encode_down i ii str new) = length str
     \<and> (\<forall>j < length str. encode_down i ii str new ! j =
          (if 2 \<le> j \<and> j \<le> i \<and> even (i - j) then flip_byte (str ! (ii + (i - j) div 2)) else new ! j))"
proof (induction i ii str new rule: encode_down.induct)
  case (1 i ii str new)
  show ?case
  proof (cases "2 \<le> i")
    case True
    let ?new = "new[i := flip_byte (str ! ii)]"
    have step: "encode_down i ii str new = encode_down (i - 2) (ii + 1) str ?new"
      using True by (simp add: encode_down.simps [of i ii str new])
    have IH: "length (encode_down (i - 2) (ii + 1) str ?new) = length str
     \<and> (\<forall>j < length str. encode_down (i - 2) (ii + 1) str ?new ! j =
          (if 2 \<le> j \<and> j \<le> i - 2 \<and> even (i - 2 - j) then flip_byte (str ! (ii + 1 + (i - 2 - j) div 2)) else ?new ! j))"
      using 1 True by simp
    have "encode_down i ii str new ! j =
        (if 2 \<le> j \<and> j \<le> i \<and> even (i - j) then flip_byte (str ! (ii + (i - j) div 2)) else new ! j)"
      if "j < length str" for j
    proof -
      consider "j + 2 \<le> i" | "j + 1 = i" | "j = i" | "i < j" by linarith
      then show ?thesis
      proof cases
        case 1
        then obtain k where k: "i = j + 2 + k" by (metis le_iff_add)
        show ?thesis unfolding step using IH that k \<open>length new = length str\<close> by auto
      qed (use IH that \<open>length new = length str\<close> True in \<open>auto simp: step\<close>)
    qed
    with IH show ?thesis by (simp add: step)
  next
    case False
    with 1 show ?thesis by (auto simp: encode_down.simps [of i ii str new])
  qed
qed

lemma swap_zeros_nth:
  "j < length str \<Longrightarrow> swap_zeros str ! j = (if j < 2 then str ! j else swap_zero (str ! j))"
proof (cases "j < 2")
  case False
  assume "j < length str"
  moreover from False have "Suc (Suc (j - 2)) = j" by simp
  ultimately show ?thesis using False by (simp add: swap_zeros_def nth_append min_def)
qed (simp add: swap_zeros_def nth_append)

lemma swap_zeros_length [simp]: "length (swap_zeros str) = length str"
  by (simp add: swap_zeros_def)

text \<open>The bytes that \<open>encode\<close> writes, by position: the even positions from the front, then the
  odd ones from the back.\<close>

definition last_odd :: "nat \<Rightarrow> nat" where
  "last_odd n = (if n mod 2 \<noteq> 0 then n - 2 else n - 1)"

lemma last_odd: "2 \<le> n \<Longrightarrow> odd (last_odd n) \<and> last_odd n < n \<and> n \<le> last_odd n + 2"
  unfolding last_odd_def by presburger

lemma encode_nth:
  assumes "e \<noteq> 0" "4 \<le> length raw" "\<not> (raw ! 2 = 255 \<and> raw ! 3 = 255)"
  obtains enc where "encode e raw = Some enc" "length enc = length raw"
    "enc ! 0 = dick_winder raw e ! 0" "enc ! 1 = dick_winder raw e ! 1"
    "\<And>k. 2 + 2 * k < length raw \<Longrightarrow>
       enc ! (2 + 2 * k) = swap_zero (flip_byte (dick_winder raw e ! (2 + k)))"
    "\<And>k. 2 * k + 3 \<le> last_odd (length raw) \<Longrightarrow> enc ! (last_odd (length raw) - 2 * k) =
       swap_zero (flip_byte (dick_winder raw e ! (2 + (length raw - 1) div 2 + k)))"
proof -
  define str where "str = dick_winder raw e"
  have n: "length str = length raw" by (simp add: str_def)
  define new0 where "new0 = (replicate (length str) 0)[0 := str ! 0, 1 := str ! 1]"
  obtain ii new where up: "encode_up 2 2 str new0 = (ii, new)" by force
  have l0: "length new0 = length str" by (simp add: new0_def)
  note u = encode_up_nth [OF up l0]
  let ?m = "last_odd (length raw)"
  have m: "odd ?m" "?m < length str" "length raw \<le> ?m + 2"
    using last_odd [of "length raw"] assms(2) by (auto simp: n)
  define down where "down = encode_down ?m ii str new"
  have d: "length down = length str" "\<And>j. j < length str \<Longrightarrow> down ! j =
      (if 2 \<le> j \<and> j \<le> ?m \<and> even (?m - j) then flip_byte (str ! (ii + (?m - j) div 2)) else new ! j)"
    using encode_down_nth [OF m(2), of new ii] u by (auto simp: down_def)
  define enc where "enc = swap_zeros down"
  have c: "(if length raw mod 2 \<noteq> 0 then length raw - 1 - 1 else length raw - 1) = ?m"
    by (simp add: last_odd_def numeral_2_eq_2)
  have "encode e raw = Some (swap_zeros (encode_down
      (if length str mod 2 \<noteq> 0 then length str - 1 - 1 else length str - 1) ii str new))"
    unfolding encode_def Let_def str_def [symmetric] new0_def [symmetric] up prod.case
    using assms by auto
  then have "encode e raw = Some enc"
    unfolding n c enc_def down_def .
  moreover have "length enc = length raw" by (simp add: enc_def d n)
  moreover have "enc ! j = str ! j" if "j < 2" for j
  proof -
    have j: "j < length str" "j < length new0" using that assms(2) n l0 by simp_all
    then have "enc ! j = down ! j" using that by (simp add: enc_def swap_zeros_nth d(1))
    also have "\<dots> = new ! j" using d(2) [OF j(1)] that by simp
    also have "\<dots> = new0 ! j" using u j(1) that by simp
    also have "\<dots> = str ! j" using j that by (auto simp: new0_def nth_list_update less_Suc_eq numeral_2_eq_2)
    finally show ?thesis .
  qed
  then have "enc ! 0 = str ! 0" "enc ! 1 = str ! 1" by simp_all
  moreover have "enc ! (2 + 2 * k) = swap_zero (flip_byte (str ! (2 + k)))" if "2 + 2 * k < length raw" for k
    using that d(2) [of "2 + 2 * k"] u m by (auto simp: enc_def swap_zeros_nth d(1) n)
  moreover have "enc ! (?m - 2 * k) = swap_zero (flip_byte (str ! (2 + (length raw - 1) div 2 + k)))"
    if "2 * k + 3 \<le> ?m" for k
    using that d(2) [of "?m - 2 * k"] u m by (auto simp: enc_def swap_zeros_nth d(1) n)
  ultimately show thesis
    using that unfolding str_def by blast
qed

lemma decode_nth:
  assumes "e \<noteq> 0" "2 \<le> length str" "\<not> (str ! 0 = 255 \<and> str ! 1 = 255)"
  obtains new where "decode e str = Some (dick_winder (swap_zeros new) e)" "length new = length str"
    "\<And>k. k < (length str + 1) div 2 \<Longrightarrow> new ! k = flip_byte (str ! (2 * k))"
    "\<And>k. k < length str div 2 \<Longrightarrow>
       new ! ((length str + 1) div 2 + k) = flip_byte (str ! (last_odd (length str) - 2 * k))"
proof -
  let ?h = "(length str + 1) div 2"
  let ?m = "last_odd (length str)"
  have m: "(if length str mod 2 \<noteq> 0 then 2 * ?h - 1 - 2 else 2 * ?h - 1) = ?m"
    unfolding last_odd_def by presburger
  have m2: "?m div 2 + 1 = length str div 2"
    using assms(2) unfolding last_odd_def by presburger
  define new where "new = map (\<lambda>k. flip_byte (str ! (2 * k))) [0..<?h]
    @ map (\<lambda>k. flip_byte (str ! (?m - 2 * k))) [0..<length str div 2]"
  have down: "decode_down ?m str (map (\<lambda>k. flip_byte (str ! (2 * k))) [0..<?h]) = new"
    unfolding decode_down_eq m2 new_def ..
  have up: "decode_up 0 str [] = (2 * ?h, map (\<lambda>k. flip_byte (str ! (2 * k))) [0..<?h])"
    by (simp add: decode_up_eq)
  have "decode e str = Some (dick_winder (swap_zeros new) e)"
    unfolding decode_def up prod.case Let_def m down using assms by auto
  moreover have "length new = length str" by (simp add: new_def)
  moreover have "new ! k = flip_byte (str ! (2 * k))" if "k < ?h" for k
    using that by (simp add: new_def nth_append)
  moreover have "new ! (?h + k) = flip_byte (str ! (?m - 2 * k))" if "k < length str div 2" for k
    using that by (simp add: new_def nth_append)
  ultimately show thesis using that by blast
qed

lemma dick_winder_header:
  assumes "e \<noteq> 0" "b mod e \<noteq> 0"
  shows "dick_winder (a # b # str) e = a # b # dick_winder str e"
  using assms dick_winder_loop_acc [of e "[a, b]" "[]" str]
  by (simp add: dick_winder_def dick_winder_loop_acc [of e "[a]" "[]"] dick_winder_loop_acc [of e "[b]" "[]"])

text \<open>
  When the second length byte separates the header from the rest, what \<open>Encode\<close> writes after
  the header is undone by \<open>Decode\<close> with the same multiple.
\<close>

lemma decode_encode:
  assumes e: "e \<noteq> 0" and b: "b mod e \<noteq> 0" and n: "2 \<le> length p"
    and init: "\<not> (p ! 0 = 255 \<and> p ! 1 = 255)"
    and enc: "encode e (a # b # p) = Some enc"
    and init': "\<not> (enc ! 2 = 255 \<and> enc ! 3 = 255)"
    and safe: "\<forall>j < 2. dick_winder p e ! j \<noteq> 0 \<and> dick_winder p e ! j \<noteq> 128"
  shows "take 2 enc = [a, b] \<and> decode e (drop 2 enc) = Some p"
proof -
  let ?w = "dick_winder p e"
  let ?n = "length p"
  have w: "dick_winder (a # b # p) e = a # b # ?w" by (rule dick_winder_header [OF e b])
  have m: "last_odd (Suc (Suc ?n)) = last_odd ?n + 2" using n unfolding last_odd_def by presburger
  have h: "(?n + 1) div 2 + ?n div 2 = ?n" by presburger
  obtain enc' where E: "encode e (a # b # p) = Some enc'" "length enc' = ?n + 2" "enc' ! 0 = a" "enc' ! 1 = b"
    "\<And>k. 2 * k < ?n \<Longrightarrow> enc' ! (2 + 2 * k) = swap_zero (flip_byte (?w ! k))"
    "\<And>k. 2 * k + 1 \<le> last_odd ?n \<Longrightarrow> enc' ! (last_odd ?n + 2 - 2 * k) =
       swap_zero (flip_byte (?w ! ((?n + 1) div 2 + k)))"
    by (rule encode_nth [OF e, of "a # b # p"]) (use n init w m in auto)
  have enc': "enc' = enc" using E(1) enc by simp
  let ?q = "drop 2 enc"
  have q: "length ?q = ?n" using E(2) by (simp add: enc')
  have q_even: "?q ! (2 * k) = swap_zero (flip_byte (?w ! k))" if "k < (?n + 1) div 2" for k
    using E(5) [of k] that E(2) by (simp add: enc')
  have q_odd: "?q ! (last_odd ?n - 2 * k) = swap_zero (flip_byte (?w ! ((?n + 1) div 2 + k)))"
    if "k < ?n div 2" for k
  proof -
    have "2 * k + 1 \<le> last_odd ?n" using that n unfolding last_odd_def by presburger
    moreover from this have "last_odd ?n + 2 - 2 * k = 2 + (last_odd ?n - 2 * k)" by simp
    ultimately show ?thesis using E(6) [of k] E(2) by (simp add: enc')
  qed
  obtain new where D: "decode e ?q = Some (dick_winder (swap_zeros new) e)" "length new = ?n"
    "\<And>k. k < (?n + 1) div 2 \<Longrightarrow> new ! k = flip_byte (?q ! (2 * k))"
    "\<And>k. k < ?n div 2 \<Longrightarrow> new ! ((?n + 1) div 2 + k) = flip_byte (?q ! (last_odd ?n - 2 * k))"
    by (rule decode_nth [OF e, of ?q]) (use n init' E(2) enc' q in auto)
  have new: "new ! j = flip_byte (swap_zero (flip_byte (?w ! j)))" if "j < ?n" for j
  proof (cases "j < (?n + 1) div 2")
    case True
    with D(3) q_even show ?thesis by simp
  next
    case False
    then obtain k where "j = (?n + 1) div 2 + k" by (metis le_iff_add not_less)
    with D(4) q_odd that h show ?thesis by simp
  qed
  have "swap_zeros new = ?w"
  proof (rule nth_equalityI)
    fix j
    assume "j < length (swap_zeros new)"
    with D(2) new [of j] safe show "swap_zeros new ! j = ?w ! j"
      by (simp add: swap_zeros_nth swap_flip flip_swap_flip)
  qed (simp add: D(2))
  then have "decode e ?q = Some p" using D(1) by (simp add: dick_winder_involution)
  moreover have "take 2 enc = [a, b]"
  proof -
    obtain x y zs where "enc = x # y # zs"
      using E(2) n enc' by (metis Suc_length_conv add_2_eq_Suc')
    with E(3,4) enc' show ?thesis by simp
  qed
  ultimately show ?thesis by blast
qed

text \<open>C13: what \<open>Encode\<close> makes of a packet keeps its two length bytes, and \<open>Decode\<close> with the same
  multiple gives the rest of the packet back: when the second length byte is no multiple, when the
  first two bytes of the wound body are neither 0 nor 128 (the two places where \<open>Decode\<close> does not
  swap them), and when the result does not look like an unscrambled \<open>INIT\<close> packet.\<close>

theorem decode_inverts_encode:
  assumes "e \<noteq> 0" "b mod e \<noteq> 0" "2 \<le> length p" "\<not> (p ! 0 = 255 \<and> p ! 1 = 255)"
    and "\<forall>j < 2. dick_winder p e ! j \<noteq> 0 \<and> dick_winder p e ! j \<noteq> 128"
  shows "\<exists>enc. encode e (a # b # p) = Some enc \<and> take 2 enc = [a, b]
    \<and> (\<not> (enc ! 2 = 255 \<and> enc ! 3 = 255) \<longrightarrow> decode e (drop 2 enc) = Some p)"
proof -
  obtain enc where E: "encode e (a # b # p) = Some enc" "length enc = Suc (Suc (length p))"
    "enc ! 0 = dick_winder (a # b # p) e ! 0" "enc ! 1 = dick_winder (a # b # p) e ! 1"
    by (rule encode_nth [OF assms(1), of "a # b # p"]) (use assms in auto)
  obtain x y zs where "enc = x # y # zs"
    using E(2) by (metis Suc_length_conv)
  with E assms(1,2) have "take 2 enc = [a, b]" by (simp add: dick_winder_header)
  with E(1) decode_encode [OF assms(1-4) E(1)] assms(5) show ?thesis by blast
qed

theorem decode_inverts_encode_witness:
  "\<exists>enc. encode 7 [10, 254, 3, 4, 7, 14, 200, 0, 5] = Some enc
     \<and> take 2 enc = [10, 254] \<and> decode 7 (drop 2 enc) = Some [3, 4, 7, 14, 200, 0, 5]"
proof -
  have w: "dick_winder [3, 4, 7, 14, 200, 0, 5] 7 = [3, 4, 14, 7, 200, 0, 5]"
    by (simp add: dick_winder_def)
  have "\<exists>enc. encode 7 [10, 254, 3, 4, 7, 14, 200, 0, 5] = Some enc \<and> take 2 enc = [10, 254]
    \<and> (\<not> (enc ! 2 = 255 \<and> enc ! 3 = 255) \<longrightarrow> decode 7 (drop 2 enc) = Some [3, 4, 7, 14, 200, 0, 5])"
    by (rule decode_inverts_encode) (auto simp: w less_2_cases_iff)
  then obtain enc where enc: "encode 7 [10, 254, 3, 4, 7, 14, 200, 0, 5] = Some enc" "take 2 enc = [10, 254]"
    "\<not> (enc ! 2 = 255 \<and> enc ! 3 = 255) \<longrightarrow> decode 7 (drop 2 enc) = Some [3, 4, 7, 14, 200, 0, 5]" by blast
  have "map_option (\<lambda>enc. enc ! 2 = 255) (encode 7 [10, 254, 3, 4, 7, 14, 200, 0, 5]) = Some False"
    by code_simp
  with enc(1) have "enc ! 2 \<noteq> 255" by simp
  with enc show ?thesis by (intro exI [of _ enc]) simp
qed

text \<open>when the second length byte and the action byte are both multiples and their neighbours
  are not, \<open>Encode\<close> exchanges the two: the length that the client reads is wrong.\<close>

theorem encode_breaks_header:
  assumes "e \<noteq> 0" "a mod e \<noteq> 0" "b mod e = 0" "c mod e = 0" "d mod e \<noteq> 0"
    and "\<not> (c = 255 \<and> d = 255)"
  shows "\<exists>enc. encode e (a # b # c # d # p) = Some enc \<and> take 2 enc = [a, c]"
proof -
  obtain enc where E: "encode e (a # b # c # d # p) = Some enc" "length enc = length p + 4"
    "enc ! 0 = dick_winder (a # b # c # d # p) e ! 0" "enc ! 1 = dick_winder (a # b # c # d # p) e ! 1"
    by (rule encode_nth [OF assms(1), of "a # b # c # d # p"]) (use assms in auto)
  have "dick_winder (a # b # c # d # p) e = a # c # b # d # dick_winder_loop e [] [] p"
    using assms dick_winder_loop_acc [of e "[a, c, b, d]" "[]" p]
    by (simp add: dick_winder_def)
  moreover obtain x y zs where "enc = x # y # zs"
    using E(2) by (cases enc; cases "tl enc") auto
  ultimately show ?thesis using E by simp
qed

theorem encode_breaks_header_witness:
  "\<exists>enc. encode 6 [20, 6, 18, 39, 1] = Some enc \<and> take 2 enc = [20, 18]"
  by (rule encode_breaks_header) simp_all

end
