(* ===== verification/Packet_IO.thy ===== *)
theory Packet_IO
  imports Packet
begin

text \<open>
  Reading and building packets (\<open>PacketReader\<close> and \<open>PacketBuilder\<close> of \<^verbatim>\<open>src/packet.cpp\<close>).
  A \<open>std::size_t\<close> has 64 bits: \<open>Remaining\<close> is a difference modulo \<open>2 ^ 64\<close>. A read outside
  the data is the error \<open>Over_Read\<close>, a number of more bytes than its array holds the error
  \<open>Array_Overrun\<close> (for both the code's behaviour is undefined), the exception of
  \<open>std::string::substr\<close> is \<open>Out_Of_Range\<close>.
\<close>

section \<open>The reader\<close>

record reader =
  rd_data :: "byte list"
  rd_pos :: nat

datatype read_error = Over_Read | Array_Overrun | Out_Of_Range

definition reader_init :: "byte list \<Rightarrow> reader" where
  "reader_init data = \<lparr>rd_data = data, rd_pos = 2\<rparr>"

definition size_max :: nat where
  "size_max = 2 ^ 64"

definition rd_remaining :: "reader \<Rightarrow> nat" where
  "rd_remaining r = nat ((int (length (rd_data r)) - int (rd_pos r)) mod 2 ^ 64)"

definition rd_action :: "reader \<Rightarrow> byte" where
  "rd_action r = (if length (rd_data r) < 1 then 0 else rd_data r ! 0)"

definition rd_family :: "reader \<Rightarrow> byte" where
  "rd_family r = (if length (rd_data r) < 2 then 0 else rd_data r ! 1)"

definition advance :: "nat \<Rightarrow> reader \<Rightarrow> reader" where
  "advance n r = r\<lparr>rd_pos := (rd_pos r + n) mod size_max\<rparr>"

definition get_number :: "nat \<Rightarrow> reader \<Rightarrow> read_error + nat \<times> reader" where
  "get_number len r =
     (let read_len = min len (rd_remaining r);
          bytes = take read_len (drop (rd_pos r) (rd_data r)) @ replicate (4 - read_len) 254
      in if 0 < read_len \<and> length (rd_data r) < rd_pos r + read_len then Inl Over_Read
         else if 4 < read_len then Inl Array_Overrun
         else Inr (number (bytes ! 0) (bytes ! 1) (bytes ! 2) (bytes ! 3), advance read_len r))"

definition get_byte :: "reader \<Rightarrow> read_error + nat \<times> reader" where
  "get_byte r =
     (if rd_remaining r < 1 then Inr (0, r)
      else if length (rd_data r) \<le> rd_pos r then Inl Over_Read
      else Inr (unat (rd_data r ! rd_pos r), advance 1 r))"

text \<open>The result of \<open>GetNumber\<close> is cut to the type each function returns.\<close>

definition cut_number :: "nat \<Rightarrow> read_error + nat \<times> reader \<Rightarrow> read_error + nat \<times> reader" where
  "cut_number m x = (case x of Inl e \<Rightarrow> Inl e | Inr (n, r) \<Rightarrow> Inr (n mod m, r))"

definition get_char :: "reader \<Rightarrow> read_error + nat \<times> reader" where
  "get_char r = cut_number 256 (get_number 1 r)"

definition get_short :: "reader \<Rightarrow> read_error + nat \<times> reader" where
  "get_short r = cut_number 65536 (get_number 2 r)"

definition get_three :: "reader \<Rightarrow> read_error + nat \<times> reader" where
  "get_three r = get_number 3 r"

definition get_int :: "reader \<Rightarrow> read_error + nat \<times> reader" where
  "get_int r = get_number 4 r"

definition get_fixed_string :: "nat \<Rightarrow> reader \<Rightarrow> read_error + byte list \<times> reader" where
  "get_fixed_string len r =
     (if rd_remaining r < len then Inr ([], r)
      else if length (rd_data r) < rd_pos r then Inl Out_Of_Range
      else let ret = take len (drop (rd_pos r) (rd_data r)) in Inr (ret, advance (length ret) r))"

text \<open>\<open>std::string::find_first_of\<close> with one character; \<open>npos\<close> is the largest \<open>size_t\<close>.\<close>

definition find_first_of :: "byte list \<Rightarrow> byte \<Rightarrow> nat \<Rightarrow> nat" where
  "find_first_of data c pos =
     (let run = takeWhile (\<lambda>b. b \<noteq> c) (drop pos data)
      in if pos + length run < length data then pos + length run else size_max - 1)"

definition get_break_string :: "byte \<Rightarrow> reader \<Rightarrow> read_error + byte list \<times> reader" where
  "get_break_string breakchar r =
     (let len = nat ((int (find_first_of (rd_data r) breakchar (rd_pos r)) - int (rd_pos r)) mod 2 ^ 64)
      in case get_fixed_string len r of
           Inl e \<Rightarrow> Inl e
         | Inr (ret, r') \<Rightarrow> Inr (ret, advance 1 r'))"

definition get_end_string :: "reader \<Rightarrow> read_error + byte list \<times> reader" where
  "get_end_string r = get_fixed_string (rd_remaining r) r"

section \<open>The builder\<close>

record builder =
  pb_id :: "16 word"
  pb_data :: "byte list"
  pb_add_size :: nat

definition set_id :: "16 word \<Rightarrow> builder \<Rightarrow> builder" where
  "set_id i b =
     b\<lparr>pb_id := (if i = 0 then pid (of_nat (family_code PACKET_F_INIT)) (of_nat (action_code PACKET_A_INIT)) else i)\<rparr>"

definition builder_init :: "packet_family \<Rightarrow> packet_action \<Rightarrow> builder" where
  "builder_init family action =
     set_id (pid (of_nat (family_code family)) (of_nat (action_code action)))
       \<lparr>pb_id = 0, pb_data = [], pb_add_size = 0\<rparr>"

definition append_data :: "byte list \<Rightarrow> builder \<Rightarrow> builder" where
  "append_data bs b = b\<lparr>pb_data := pb_data b @ bs\<rparr>"

definition add_byte :: "byte \<Rightarrow> builder \<Rightarrow> builder" where
  "add_byte byte = append_data [byte]"

definition char_bytes :: "nat \<Rightarrow> byte list" where
  "char_bytes num = [enumber (num mod 256) ! 0]"

definition short_bytes :: "nat \<Rightarrow> byte list" where
  "short_bytes num = take 2 (enumber (num mod 65536))"

definition three_bytes :: "nat \<Rightarrow> byte list" where
  "three_bytes num = take 3 (enumber num)"

definition int_bytes :: "nat \<Rightarrow> byte list" where
  "int_bytes num = take 4 (enumber num)"

definition add_char :: "nat \<Rightarrow> builder \<Rightarrow> builder" where
  "add_char num = append_data (char_bytes num)"

definition add_short :: "nat \<Rightarrow> builder \<Rightarrow> builder" where
  "add_short num = append_data (short_bytes num)"

definition add_three :: "nat \<Rightarrow> builder \<Rightarrow> builder" where
  "add_three num = append_data (three_bytes num)"

definition add_int :: "nat \<Rightarrow> builder \<Rightarrow> builder" where
  "add_int num = append_data (int_bytes num)"

definition add_var :: "int \<Rightarrow> int \<Rightarrow> nat \<Rightarrow> builder \<Rightarrow> builder" where
  "add_var lo hi num =
     (if lo \<le> 1 \<and> (hi \<le> 1 \<or> num < MAX1) then add_char num
      else if lo \<le> 2 \<and> (hi \<le> 2 \<or> num < MAX2) then add_short num
      else if lo \<le> 3 \<and> (hi \<le> 3 \<or> num < MAX3) then add_three num
      else add_int num)"

definition add_string :: "byte list \<Rightarrow> builder \<Rightarrow> builder" where
  "add_string str = append_data str"

text \<open>Every break character inside the string is replaced by the letter \<open>y\<close>.\<close>

definition break_bytes :: "byte \<Rightarrow> byte list \<Rightarrow> byte list" where
  "break_bytes breakchar str = map (\<lambda>b. if b = breakchar then 0x79 else b) str @ [breakchar]"

definition add_break_string :: "byte \<Rightarrow> byte list \<Rightarrow> builder \<Rightarrow> builder" where
  "add_break_string breakchar str = append_data (break_bytes breakchar str)"

definition add_size :: "nat \<Rightarrow> builder \<Rightarrow> builder" where
  "add_size n b = b\<lparr>pb_add_size := (pb_add_size b + n) mod size_max\<rparr>"

definition reset :: "builder \<Rightarrow> builder" where
  "reset b = b\<lparr>pb_data := []\<rparr>"

definition builder_get :: "builder \<Rightarrow> byte list" where
  "builder_get b =
     (let i = epid (pb_id b);
          len = enumber ((length (pb_data b) + 2 + pb_add_size b) mod size_max)
      in [len ! 0, len ! 1, i ! 0, i ! 1] @ pb_data b)"

section \<open>Fields\<close>

text \<open>
  The contract between the two: a value that \<open>ok\<close> admits, written with \<open>put\<close> anywhere in a
  packet, is what \<open>get\<close> returns when the reader stands at its first byte, and the reader then
  stands behind its last.
\<close>

definition at_field :: "reader \<Rightarrow> byte list \<Rightarrow> byte list \<Rightarrow> bool" where
  "at_field r field rest \<longleftrightarrow> rd_pos r + length field + length rest = length (rd_data r)
     \<and> drop (rd_pos r) (rd_data r) = field @ rest \<and> length (rd_data r) < size_max"

definition past_field :: "reader \<Rightarrow> byte list \<Rightarrow> reader" where
  "past_field r field = r\<lparr>rd_pos := rd_pos r + length field\<rparr>"

text \<open>Reading a number of values of one kind.\<close>

fun read_list :: "(reader \<Rightarrow> read_error + 'a \<times> reader) \<Rightarrow> nat \<Rightarrow> reader \<Rightarrow> read_error + 'a list \<times> reader" where
  "read_list get 0 r = Inr ([], r)"
| "read_list get (Suc n) r =
     (case get r of
        Inl e \<Rightarrow> Inl e
      | Inr (x, r1) \<Rightarrow>
          (case read_list get n r1 of Inl e \<Rightarrow> Inl e | Inr (xs, r2) \<Rightarrow> Inr (x # xs, r2)))"

lemma at_field_append:
  "at_field r (f @ g) rest \<longleftrightarrow> at_field r f (g @ rest) \<and> at_field (past_field r f) g rest"
proof -
  have "drop (length f + rd_pos r) (rd_data r) = g @ rest" if "drop (rd_pos r) (rd_data r) = f @ g @ rest"
    using that by (metis append_eq_conv_conj drop_drop)
  then show ?thesis by (auto simp: at_field_def past_field_def add.commute)
qed

locale wire_codec =
  fixes put :: "'a \<Rightarrow> byte list" and get :: "reader \<Rightarrow> read_error + 'a \<times> reader" and ok :: "'a \<Rightarrow> bool"
  assumes get_put: "ok x \<Longrightarrow> at_field r (put x) rest \<Longrightarrow> get r = Inr (x, past_field r (put x))"
begin

lemma get_list_put:
  "\<forall>x \<in> set xs. ok x \<Longrightarrow> at_field r (concat (map put xs)) rest \<Longrightarrow>
     read_list get (length xs) r = Inr (xs, past_field r (concat (map put xs)))"
proof (induction xs arbitrary: r)
  case Nil
  then show ?case by (simp add: past_field_def)
next
  case (Cons x xs)
  then have "at_field r (put x) (concat (map put xs) @ rest)"
    "at_field (past_field r (put x)) (concat (map put xs)) rest"
    by (simp_all add: at_field_append)
  with Cons show ?case
    using get_put [of x r "concat (map put xs) @ rest"] by (simp add: past_field_def add.assoc)
qed

end

section \<open>The codecs\<close>

lemma at_field_remaining:
  assumes "at_field r field rest"
  shows "rd_remaining r = length field + length rest" "rd_pos r \<le> length (rd_data r)"
proof -
  have "rd_pos r + length field + length rest = length (rd_data r)" "length (rd_data r) < 2 ^ 64"
    using assms by (simp_all add: at_field_def size_max_def)
  then show "rd_remaining r = length field + length rest" "rd_pos r \<le> length (rd_data r)"
    unfolding rd_remaining_def by (simp_all add: nat_mod_distrib)
qed

lemma get_number_put:
  assumes "at_field r bytes rest" "length bytes = len" "0 < len" "len \<le> 4"
  shows "get_number len r =
    (let b = bytes @ replicate (4 - len) 254
     in Inr (number (b ! 0) (b ! 1) (b ! 2) (b ! 3), past_field r bytes))"
proof -
  have "rd_remaining r = len + length rest" "rd_pos r + len + length rest = length (rd_data r)"
    "take len (drop (rd_pos r) (rd_data r)) = bytes" "rd_pos r + len < size_max"
    using at_field_remaining [OF assms(1)] assms by (auto simp: at_field_def)
  then show ?thesis
    using assms(2,4) by (simp add: get_number_def Let_def advance_def past_field_def)
qed

lemma enumber_unused:
  "n < MAX1 \<Longrightarrow> \<exists>a. enumber n = [a, 254, 254, 254]"
  "n < MAX2 \<Longrightarrow> \<exists>a b. enumber n = [a, b, 254, 254]"
  "n < MAX3 \<Longrightarrow> \<exists>a b c. enumber n = [a, b, c, 254]"
  by (simp_all add: enumber_def Let_def max_defs)

lemma enumber_bytes: "\<exists>a b c d. enumber n = [a, b, c, d]"
  by (simp add: enumber_def Let_def)

lemma enumber_take:
  assumes "n < 253 ^ len" "len \<in> {1, 2, 3, 4}"
  shows "take len (enumber n) @ replicate (4 - len) 254 = enumber n"
proof -
  consider "len = 1" "n < MAX1" | "len = 2" "n < MAX2" | "len = 3" "n < MAX3" | "len = 4"
    using assms by (auto simp: max_defs)
  then show ?thesis
    by cases (use enumber_unused [of n] enumber_bytes [of n] in
      \<open>auto simp: numeral_2_eq_2 numeral_3_eq_3 eval_nat_numeral\<close>)
qed

lemma get_number_enumber:
  assumes "at_field r (take len (enumber n)) rest" "n < 253 ^ len" "len \<in> {1, 2, 3, 4}"
  shows "get_number len r = Inr (n, past_field r (take len (enumber n)))"
proof -
  have "(253 :: nat) ^ len \<le> 253 ^ 4" using assms(3) by (intro power_increasing) auto
  then have "number (enumber n ! 0) (enumber n ! 1) (enumber n ! 2) (enumber n ! 3) = n"
    using assms(2) by (intro number_enumber_eq) linarith
  with get_number_put [OF assms(1)] enumber_take [OF assms(2,3)] assms(3) show ?thesis
    by (auto simp: Let_def)
qed

lemma get_char_put:
  "n < 253 \<Longrightarrow> at_field r (char_bytes n) rest \<Longrightarrow> get_char r = Inr (n, past_field r (char_bytes n))"
proof -
  assume n: "n < 253" and at: "at_field r (char_bytes n) rest"
  have "char_bytes n = take 1 (enumber n)"
    using n enumber_bytes [of n] by (auto simp: char_bytes_def)
  with get_number_enumber [of r 1 n rest] at n show ?thesis by (simp add: get_char_def cut_number_def)
qed

lemma get_short_put:
  "n < 253 ^ 2 \<Longrightarrow> at_field r (short_bytes n) rest \<Longrightarrow> get_short r = Inr (n, past_field r (short_bytes n))"
  using get_number_enumber [of r 2 n rest] by (simp add: get_short_def cut_number_def short_bytes_def)

lemma get_three_put:
  "n < 253 ^ 3 \<Longrightarrow> at_field r (three_bytes n) rest \<Longrightarrow> get_three r = Inr (n, past_field r (three_bytes n))"
  using get_number_enumber [of r 3 n rest] by (simp add: get_three_def three_bytes_def)

lemma get_int_put:
  "n < 253 ^ 4 \<Longrightarrow> at_field r (int_bytes n) rest \<Longrightarrow> get_int r = Inr (n, past_field r (int_bytes n))"
  using get_number_enumber [of r 4 n rest] by (simp add: get_int_def int_bytes_def)

lemma get_byte_put:
  "n < 256 \<Longrightarrow> at_field r [of_nat n] rest \<Longrightarrow> get_byte r = Inr (n, past_field r [of_nat n])"
proof -
  assume n: "n < 256" and at: "at_field r [of_nat n] rest"
  have "rd_data r ! rd_pos r = of_nat n" "rd_pos r < length (rd_data r)"
    using at by (metis append_Cons at_field_def hd_drop_conv_nth list.sel(1) list.simps(3) not_less drop_all)
     (use at in \<open>simp add: at_field_def\<close>)
  moreover have "unat (of_nat n :: byte) = n" using n by (simp add: unat_of_nat)
  ultimately show ?thesis
    using at_field_remaining [OF at] at
    by (simp add: get_byte_def advance_def past_field_def at_field_def)
qed

lemma get_break_string_put:
  assumes "c \<notin> set s" "at_field r (break_bytes c s) rest"
  shows "get_break_string c r = Inr (s, past_field r (break_bytes c s))"
proof -
  have b: "break_bytes c s = s @ [c]"
    using assms(1) by (auto simp: break_bytes_def intro: map_idI)
  have len: "rd_pos r + length s + 1 + length rest = length (rd_data r)" "length (rd_data r) < 2 ^ 64"
    and d: "drop (rd_pos r) (rd_data r) = s @ c # rest"
    using assms(2) by (simp_all add: b at_field_def size_max_def)
  have "takeWhile (\<lambda>b. b \<noteq> c) (s @ c # rest) = s"
    using assms(1) by (subst takeWhile_append2) auto
  then have "find_first_of (rd_data r) c (rd_pos r) = rd_pos r + length s"
    using len(1) d by (simp add: find_first_of_def Let_def)
  moreover have "nat ((int (rd_pos r + length s) - int (rd_pos r)) mod 2 ^ 64) = length s"
    using len by (simp add: nat_mod_distrib)
  moreover have "get_fixed_string (length s) r = Inr (s, r\<lparr>rd_pos := rd_pos r + length s\<rparr>)"
    using at_field_remaining [OF assms(2)] len d
    by (simp add: get_fixed_string_def b Let_def advance_def size_max_def)
  ultimately show ?thesis
    using len by (simp add: get_break_string_def b past_field_def advance_def size_max_def)
qed

interpretation char_codec: wire_codec char_bytes get_char "\<lambda>n. n < 253"
  by unfold_locales (rule get_char_put)

interpretation short_codec: wire_codec short_bytes get_short "\<lambda>n. n < 253 ^ 2"
  by unfold_locales (rule get_short_put)

interpretation three_codec: wire_codec three_bytes get_three "\<lambda>n. n < 253 ^ 3"
  by unfold_locales (rule get_three_put)

interpretation int_codec: wire_codec int_bytes get_int "\<lambda>n. n < 253 ^ 4"
  by unfold_locales (rule get_int_put)

interpretation byte_codec: wire_codec "\<lambda>n. [of_nat n]" get_byte "\<lambda>n. n < 256"
  by unfold_locales (rule get_byte_put)

interpretation break_codec: wire_codec "break_bytes c" "get_break_string c" "\<lambda>s. c \<notin> set s"
  by unfold_locales (rule get_break_string_put)

section \<open>Whole packets\<close>

text \<open>A packet's body as the handlers write and read it: a sequence of fields.\<close>

datatype field =
    FByte nat | FChar nat | FShort nat | FThree nat | FInt nat | FBreak "byte list"

fun add_field :: "field \<Rightarrow> builder \<Rightarrow> builder" where
  "add_field (FByte n) b = add_byte (of_nat n) b"
| "add_field (FChar n) b = add_char n b"
| "add_field (FShort n) b = add_short n b"
| "add_field (FThree n) b = add_three n b"
| "add_field (FInt n) b = add_int n b"
| "add_field (FBreak s) b = add_break_string 255 s b"

definition map_result :: "('a \<Rightarrow> 'b) \<Rightarrow> read_error + 'a \<times> reader \<Rightarrow> read_error + 'b \<times> reader" where
  "map_result f x = (case x of Inl e \<Rightarrow> Inl e | Inr (a, r) \<Rightarrow> Inr (f a, r))"

text \<open>Reads a field of the kind of its argument.\<close>

fun read_field :: "field \<Rightarrow> reader \<Rightarrow> read_error + field \<times> reader" where
  "read_field (FByte _) r = map_result FByte (get_byte r)"
| "read_field (FChar _) r = map_result FChar (get_char r)"
| "read_field (FShort _) r = map_result FShort (get_short r)"
| "read_field (FThree _) r = map_result FThree (get_three r)"
| "read_field (FInt _) r = map_result FInt (get_int r)"
| "read_field (FBreak _) r = map_result FBreak (get_break_string 255 r)"

fun read_fields :: "field list \<Rightarrow> reader \<Rightarrow> read_error + field list \<times> reader" where
  "read_fields [] r = Inr ([], r)"
| "read_fields (f # fs) r =
     (case read_field f r of
        Inl e \<Rightarrow> Inl e
      | Inr (x, r1) \<Rightarrow>
          (case read_fields fs r1 of Inl e \<Rightarrow> Inl e | Inr (xs, r2) \<Rightarrow> Inr (x # xs, r2)))"

fun field_ok :: "field \<Rightarrow> bool" where
  "field_ok (FByte n) = (n < 256)"
| "field_ok (FChar n) = (n < 253)"
| "field_ok (FShort n) = (n < 253 ^ 2)"
| "field_ok (FThree n) = (n < 253 ^ 3)"
| "field_ok (FInt n) = (n < 253 ^ 4)"
| "field_ok (FBreak s) = (255 \<notin> set s)"

fun field_bytes :: "field \<Rightarrow> byte list" where
  "field_bytes (FByte n) = [of_nat n]"
| "field_bytes (FChar n) = char_bytes n"
| "field_bytes (FShort n) = short_bytes n"
| "field_bytes (FThree n) = three_bytes n"
| "field_bytes (FInt n) = int_bytes n"
| "field_bytes (FBreak s) = break_bytes 255 s"

lemma add_field_data: "add_field f b = append_data (field_bytes f) b"
  by (cases f) (simp_all add: add_byte_def add_char_def add_short_def add_three_def add_int_def
      add_break_string_def)

lemma add_fields_data:
  "fold add_field fs b = append_data (concat (map field_bytes fs)) b"
  by (induction fs arbitrary: b) (simp_all add: add_field_data append_data_def)

lemma read_field_put:
  "field_ok f \<Longrightarrow> at_field r (field_bytes f) rest \<Longrightarrow> read_field f r = Inr (f, past_field r (field_bytes f))"
  by (cases f) (simp_all add: map_result_def char_codec.get_put short_codec.get_put three_codec.get_put
      int_codec.get_put byte_codec.get_put break_codec.get_put)

lemma read_fields_put:
  "\<forall>f \<in> set fs. field_ok f \<Longrightarrow> at_field r (concat (map field_bytes fs)) rest \<Longrightarrow>
     read_fields fs r = Inr (fs, past_field r (concat (map field_bytes fs)))"
proof (induction fs arbitrary: r)
  case Nil
  then show ?case by (simp add: past_field_def)
next
  case (Cons f fs)
  then have "at_field r (field_bytes f) (concat (map field_bytes fs) @ rest)"
    "at_field (past_field r (field_bytes f)) (concat (map field_bytes fs)) rest"
    by (simp_all add: at_field_append)
  with Cons show ?case
    using read_field_put [of f r "concat (map field_bytes fs) @ rest"] by (simp add: past_field_def add.assoc)
qed

lemma builder_get_fields:
  "builder_get (fold add_field fs (builder_init family action)) =
     (let len = enumber ((length (concat (map field_bytes fs)) + 2) mod size_max);
          i = epid (pb_id (builder_init family action))
      in [len ! 0, len ! 1, i ! 0, i ! 1] @ concat (map field_bytes fs))"
  by (simp add: builder_get_def add_fields_data append_data_def builder_init_def set_id_def Let_def)

lemma builder_get_length:
  "length (builder_get (fold add_field fs (builder_init family action))) = length (concat (map field_bytes fs)) + 4"
  by (simp add: builder_get_fields Let_def)

text \<open>C16: the fields that a handler adds to a packet are what the reader of the packet returns:
  any sequence of bytes, numbers within the range of their width and strings without the break
  character, in any order, up to the end of the packet.\<close>

theorem read_fields_built:
  assumes "\<forall>f \<in> set fs. field_ok f"
    and "length (builder_get (fold add_field fs (builder_init family action))) < size_max"
  shows "\<exists>r. read_fields fs (reader_init (drop 2 (builder_get (fold add_field fs (builder_init family action)))))
      = Inr (fs, r) \<and> rd_remaining r = 0"
proof -
  let ?bytes = "concat (map field_bytes fs)"
  let ?r = "reader_init (drop 2 (builder_get (fold add_field fs (builder_init family action))))"
  obtain i0 i1 where data: "rd_data ?r = i0 # i1 # ?bytes"
    by (simp add: builder_get_fields Let_def reader_init_def)
  have "length ?bytes + 4 < size_max"
    using assms(2) by (simp add: builder_get_fields Let_def)
  then have "at_field ?r ?bytes []"
    using data by (simp add: at_field_def reader_init_def)
  from read_fields_put [OF assms(1) this]
  have "read_fields fs ?r = Inr (fs, past_field ?r ?bytes)" .
  moreover have "rd_remaining (past_field ?r ?bytes) = 0"
    using data by (simp add: rd_remaining_def past_field_def reader_init_def)
  ultimately show ?thesis by blast
qed

definition sample_fields :: "field list" where
  "sample_fields = [FShort 512, FBreak [72, 105], FInt 2000000000, FChar 7, FByte 255, FThree 70000]"

lemma sample_fields_length: "length (concat (map field_bytes sample_fields)) = 14"
  by (simp add: sample_fields_def char_bytes_def short_bytes_def three_bytes_def int_bytes_def break_bytes_def)

theorem read_fields_built_witness:
  "list_all field_ok sample_fields
   \<and> (\<exists>r. read_fields sample_fields (reader_init (drop 2 (builder_get
        (fold add_field sample_fields (builder_init PACKET_ITEM PACKET_ADD))))) = Inr (sample_fields, r))"
proof -
  have ok: "\<forall>f \<in> set sample_fields. field_ok f" by (simp add: sample_fields_def)
  have "length (builder_get (fold add_field sample_fields (builder_init PACKET_ITEM PACKET_ADD))) < size_max"
    unfolding builder_get_length sample_fields_length size_max_def by simp
  from read_fields_built [OF ok this] ok show ?thesis by (auto simp: list_all_iff)
qed

text \<open>the two length bytes of a built packet say how many bytes follow them, for every packet
  the two bytes can describe.\<close>

theorem builder_length_header:
  assumes "length (concat (map field_bytes fs)) + 2 < 253 ^ 2"
  shows "number (builder_get (fold add_field fs (builder_init family action)) ! 0)
      (builder_get (fold add_field fs (builder_init family action)) ! 1) 254 254
    = length (drop 2 (builder_get (fold add_field fs (builder_init family action))))"
proof -
  let ?n = "length (concat (map field_bytes fs)) + 2"
  have "?n mod size_max = ?n" using assms by (simp add: size_max_def)
  moreover have "take 2 (enumber ?n) @ replicate (4 - 2) 254 = enumber ?n"
    using assms by (intro enumber_take) auto
  then obtain a b where "enumber ?n = [a, b, 254, 254]"
    using enumber_bytes [of ?n] by (auto simp: numeral_2_eq_2)
  moreover have "number (enumber ?n ! 0) (enumber ?n ! 1) (enumber ?n ! 2) (enumber ?n ! 3) = ?n"
    using assms by (intro number_enumber_eq) simp
  ultimately show ?thesis
    by (simp add: builder_get_fields Let_def)
qed

theorem builder_length_header_witness:
  "length (concat (map field_bytes sample_fields)) + 2 < 253 ^ 2
   \<and> number (builder_get (fold add_field sample_fields (builder_init PACKET_ITEM PACKET_ADD)) ! 0)
       (builder_get (fold add_field sample_fields (builder_init PACKET_ITEM PACKET_ADD)) ! 1) 254 254 = 16"
proof -
  note l = sample_fields_length
  have "length (drop 2 (builder_get (fold add_field sample_fields (builder_init PACKET_ITEM PACKET_ADD)))) = 16"
    unfolding length_drop builder_get_length l by simp
  moreover have "length (concat (map field_bytes sample_fields)) + 2 < 253 ^ 2"
    unfolding l by simp
  ultimately show ?thesis
    using builder_length_header [of sample_fields PACKET_ITEM PACKET_ADD] by presburger
qed

section \<open>Reads outside the packet\<close>

definition reader_ok :: "reader \<Rightarrow> bool" where
  "reader_ok r \<longleftrightarrow> rd_pos r \<le> length (rd_data r) \<and> length (rd_data r) < size_max"

lemma nat_mod_small:
  assumes "k < 2 ^ 64"
  shows "nat (int k mod 2 ^ 64) = k"
proof -
  have "int k mod 2 ^ 64 = int (k mod 2 ^ 64)" by (simp add: zmod_int)
  then show ?thesis using assms by simp
qed

lemma reader_ok_remaining:
  assumes "reader_ok r"
  shows "rd_remaining r = length (rd_data r) - rd_pos r"
proof -
  have "int (length (rd_data r)) - int (rd_pos r) = int (length (rd_data r) - rd_pos r)"
    using assms by (simp add: reader_ok_def)
  moreover have "length (rd_data r) - rd_pos r < 2 ^ 64"
    using assms unfolding reader_ok_def size_max_def by (metis less_imp_diff_less)
  ultimately show ?thesis
    unfolding rd_remaining_def by (simp only: nat_mod_small)
qed

lemma reader_ok_advance:
  "reader_ok r \<Longrightarrow> n \<le> rd_remaining r \<Longrightarrow> reader_ok (advance n r) \<and> rd_data (advance n r) = rd_data r"
  using reader_ok_remaining [of r] by (auto simp: reader_ok_def advance_def)

text \<open>C17: While the position lies inside the packet, reading numbers of up to four bytes, bytes, strings of a
  given length and the rest of the packet never leaves it, however short the packet is, and never
  writes past the array for the number.\<close>

theorem reads_stay_inside:
  assumes "reader_ok r" "k \<le> 4"
  shows "(\<exists>n r'. get_number k r = Inr (n, r') \<and> reader_ok r')
    \<and> (\<exists>n r'. get_byte r = Inr (n, r') \<and> reader_ok r')
    \<and> (\<exists>s r'. get_fixed_string len r = Inr (s, r') \<and> reader_ok r')
    \<and> (\<exists>s r'. get_end_string r = Inr (s, r') \<and> rd_data r' = rd_data r \<and> rd_pos r' = length (rd_data r))"
proof (intro conjI)
  note rem = reader_ok_remaining [OF assms(1)]
  have pos: "rd_pos r \<le> length (rd_data r)" using assms by (simp add: reader_ok_def)
  have "reader_ok (advance (min k (rd_remaining r)) r)"
    using reader_ok_advance [OF assms(1), of "min k (rd_remaining r)"] by simp
  moreover have "\<not> length (rd_data r) < rd_pos r + min k (rd_remaining r)"
    using rem pos by linarith
  ultimately show "\<exists>n r'. get_number k r = Inr (n, r') \<and> reader_ok r'"
    using assms(2) by (simp add: get_number_def Let_def)
  show "\<exists>n r'. get_byte r = Inr (n, r') \<and> reader_ok r'"
    using assms rem reader_ok_advance [OF assms(1), of 1] by (auto simp: get_byte_def)
  show "\<exists>s r'. get_fixed_string len r = Inr (s, r') \<and> reader_ok r'"
    using assms rem pos reader_ok_advance [OF assms(1), of "min len (rd_remaining r)"]
    by (auto simp: get_fixed_string_def Let_def min.commute)
  have "rd_pos r + (length (rd_data r) - rd_pos r) = length (rd_data r)" "length (rd_data r) < size_max"
    using pos assms by (simp_all add: reader_ok_def)
  then show "\<exists>s r'. get_end_string r = Inr (s, r') \<and> rd_data r' = rd_data r \<and> rd_pos r' = length (rd_data r)"
    using rem pos by (simp add: get_end_string_def get_fixed_string_def Let_def advance_def)
qed

theorem reads_stay_inside_witness:
  "reader_ok (reader_init [1, 2, 3]) \<and> (\<exists>n r'. get_number 4 (reader_init [1, 2, 3]) = Inr (n, r') \<and> reader_ok r')"
proof -
  have ok: "reader_ok (reader_init [1, 2, 3])" by (simp add: reader_ok_def reader_init_def size_max_def)
  then show ?thesis using reads_stay_inside [OF ok, of 4] by auto
qed

text \<open>\<open>GetBreakString\<close> at the end of a packet moves the position beyond it; the number of
  remaining bytes wraps around and the next number is read outside the packet.\<close>

theorem break_string_over_read:
  assumes "rd_pos r = length (rd_data r)" "length (rd_data r) + 1 < size_max"
  shows "\<exists>r'. get_break_string c r = Inr ([], r') \<and> rd_remaining r' = size_max - 1
    \<and> get_char r' = Inl Over_Read"
proof -
  let ?r = "r\<lparr>rd_pos := length (rd_data r) + 1\<rparr>"
  have rem: "rd_remaining r = 0" using assms(1) by (simp add: rd_remaining_def)
  have rem': "rd_remaining ?r = size_max - 1" by (simp add: rd_remaining_def size_max_def)
  have "find_first_of (rd_data r) c (rd_pos r) = size_max - 1"
    using assms(1) by (simp add: find_first_of_def)
  moreover have "0 < nat ((int (size_max - 1) - int (rd_pos r)) mod 2 ^ 64)"
  proof -
    have "int (size_max - 1) - int (rd_pos r) = int (size_max - 1 - length (rd_data r))"
      using assms by simp
    moreover have "size_max - 1 - length (rd_data r) < 2 ^ 64" by (simp add: size_max_def)
    ultimately show ?thesis using assms by (simp add: size_max_def nat_mod_distrib)
  qed
  ultimately have "get_break_string c r = Inr ([], ?r)"
    using rem assms by (simp add: get_break_string_def get_fixed_string_def advance_def)
  moreover have "get_char ?r = Inl Over_Read"
    using rem' by (simp add: get_char_def get_number_def cut_number_def size_max_def)
  ultimately show ?thesis using rem' by blast
qed

theorem break_string_over_read_witness:
  "\<exists>r'. get_break_string 255 (reader_init [7, 18]) = Inr ([], r') \<and> get_char r' = Inl Over_Read"
  using break_string_over_read [of "reader_init [7, 18]" 255] by (auto simp: reader_init_def size_max_def)

end
