(* ===== verification/EOClient_Net.thy ===== *)
theory EOClient_Net
  imports Packet_IO
begin

text \<open>
  The connection of a client (\<^verbatim>\<open>src/eoclient.cpp\<close>): the state machine of \<open>EOClient::Tick\<close> that
  cuts the received bytes into packets, and the sequence numbers. The socket is the argument: each
  tick is given the bytes that \<open>Recv\<close> returned, never more than the tick asked for. Values of
  \<open>util::rand\<close> are arguments too.
\<close>

section \<open>Cutting the stream into packets\<close>

datatype packet_state = ReadLen1 | ReadLen2 | ReadData

record conn =
  cn_state :: packet_state
  cn_raw0 :: byte
  cn_raw1 :: byte
  cn_length :: nat
  cn_data :: "byte list"

definition conn_init :: conn where
  "conn_init = \<lparr>cn_state = ReadLen1, cn_raw0 = 0, cn_raw1 = 0, cn_length = 0, cn_data = []\<rparr>"

definition recv_want :: "conn \<Rightarrow> nat" where
  "recv_want c = (if cn_state c = ReadData then cn_length c else 1)"

text \<open>The three cases of the \<open>switch\<close> with their falling through. The result holds the packet
  passed to \<open>Execute\<close>, if any; the loop then stops.\<close>

definition read_data :: "conn \<Rightarrow> byte list \<Rightarrow> conn \<times> byte list option" where
  "read_data c input =
     (let c1 = c\<lparr>cn_data := cn_data c @ take (cn_length c) input,
                 cn_length := cn_length c - length (take (cn_length c) input)\<rparr>
      in if cn_length c1 = 0 then (c1\<lparr>cn_data := [], cn_state := ReadLen1\<rparr>, Some (cn_data c1))
         else (c1, None))"

definition read_len2 :: "conn \<Rightarrow> byte list \<Rightarrow> conn \<times> byte list option" where
  "read_len2 c input =
     (let c1 = c\<lparr>cn_raw1 := hd input, cn_length := number (cn_raw0 c) (hd input) 254 254,
                 cn_state := ReadData\<rparr>
      in if tl input = [] then (c1, None) else read_data c1 (tl input))"

definition read_len1 :: "conn \<Rightarrow> byte list \<Rightarrow> conn \<times> byte list option" where
  "read_len1 c input =
     (let c1 = c\<lparr>cn_raw0 := hd input, cn_state := ReadLen2\<rparr>
      in if tl input = [] then (c1, None) else read_len2 c1 (tl input))"

definition tick :: "conn \<Rightarrow> byte list \<Rightarrow> conn \<times> byte list option" where
  "tick c input =
     (if input = [] then (c, None)
      else case cn_state c of
             ReadLen1 \<Rightarrow> read_len1 c input | ReadLen2 \<Rightarrow> read_len2 c input | ReadData \<Rightarrow> read_data c input)"

text \<open>A run of ticks and the packets executed, in order.\<close>

fun run :: "conn \<Rightarrow> byte list list \<Rightarrow> conn \<times> byte list list" where
  "run c [] = (c, [])"
| "run c (chunk # chunks) =
     (case tick c chunk of
        (c1, p) \<Rightarrow> (case run c1 chunks of (c2, ps) \<Rightarrow> (c2, (case p of None \<Rightarrow> ps | Some d \<Rightarrow> d # ps))))"

fun chunks_ok :: "conn \<Rightarrow> byte list list \<Rightarrow> bool" where
  "chunks_ok c [] = True"
| "chunks_ok c (chunk # chunks) = (length chunk \<le> recv_want c \<and> chunks_ok (fst (tick c chunk)) chunks)"

text \<open>The specification: a packet is two length bytes and as many bytes as they say.\<close>

function frames :: "byte list \<Rightarrow> byte list list" where
  "frames [] = []"
| "frames [a] = []"
| "frames (a # b # rest) =
     (let n = number a b 254 254
      in if n = 0 \<or> length rest < n then [] else take n rest # frames (drop n rest))"
  by pat_completeness auto
termination by (relation "measure length") auto

definition pending :: "conn \<Rightarrow> byte list" where
  "pending c =
     (case cn_state c of
        ReadLen1 \<Rightarrow> [] | ReadLen2 \<Rightarrow> [cn_raw0 c] | ReadData \<Rightarrow> cn_raw0 c # cn_raw1 c # cn_data c)"

definition conn_ok :: "conn \<Rightarrow> bool" where
  "conn_ok c \<longleftrightarrow>
     (if cn_state c = ReadData
      then length (cn_data c) + cn_length c = number (cn_raw0 c) (cn_raw1 c) 254 254
        \<and> (cn_length c = 0 \<longrightarrow> cn_data c = [])
      else cn_data c = [])"

lemma tick_frames:
  assumes "conn_ok c" "length input \<le> recv_want c" "tick c input = (c', p)"
  shows "conn_ok c'
    \<and> frames (pending c @ input @ later) = (case p of None \<Rightarrow> [] | Some d \<Rightarrow> [d]) @ frames (pending c' @ later)"
proof (cases "input = []")
  case True
  with assms show ?thesis by (simp add: tick_def)
next
  case False
  show ?thesis
  proof (cases "cn_state c")
    case ReadLen1
    with assms False obtain x where "input = [x]" by (cases input) (auto simp: recv_want_def)
    with assms ReadLen1 show ?thesis
      by (auto simp: tick_def read_len1_def Let_def pending_def conn_ok_def)
  next
    case ReadLen2
    with assms False obtain x where "input = [x]" by (cases input) (auto simp: recv_want_def)
    with assms ReadLen2 show ?thesis
      by (auto simp: tick_def read_len2_def Let_def pending_def conn_ok_def)
  next
    case ReadData
    let ?n = "number (cn_raw0 c) (cn_raw1 c) 254 254"
    have n: "length (cn_data c) + cn_length c = ?n" and le: "length input \<le> cn_length c"
      using assms(1,2) ReadData by (simp_all add: conn_ok_def recv_want_def)
    show ?thesis
    proof (cases "length input = cn_length c")
      case True
      with assms(3) False ReadData have "p = Some (cn_data c @ input)" "c' = c\<lparr>cn_data := [], cn_length := 0, cn_state := ReadLen1\<rparr>"
        by (auto simp: tick_def read_data_def Let_def)
      moreover have "?n \<noteq> 0" using n True \<open>input \<noteq> []\<close> by (metis add_is_0 length_0_conv)
      moreover have "take ?n (cn_data c @ input @ later) = cn_data c @ input"
        "drop ?n (cn_data c @ input @ later) = later"
        using n True by (simp_all flip: n)
      ultimately show ?thesis
        using ReadData n True by (simp add: pending_def conn_ok_def Let_def)
    next
      case False
      with le have lt: "length input < cn_length c" by simp
      then have "p = None" "c' = c\<lparr>cn_data := cn_data c @ input, cn_length := cn_length c - length input\<rparr>"
        using assms(3) \<open>input \<noteq> []\<close> ReadData by (auto simp: tick_def read_data_def Let_def)
      with ReadData n lt show ?thesis by (simp add: pending_def conn_ok_def)
    qed
  qed
qed

lemma run_frames:
  "conn_ok c \<Longrightarrow> chunks_ok c chunks \<Longrightarrow> run c chunks = (c', ps) \<Longrightarrow>
     frames (pending c @ concat chunks) = ps @ frames (pending c') \<and> conn_ok c'"
proof (induction chunks arbitrary: c ps)
  case Nil
  then show ?case by simp
next
  case (Cons chunk chunks)
  obtain c1 p where t: "tick c chunk = (c1, p)" by force
  obtain c2 qs where r: "run c1 chunks = (c2, qs)" by force
  from tick_frames [OF Cons.prems(1) _ t, of "concat chunks"] Cons.prems t r Cons.IH [of c1 qs]
  show ?case by (auto split: option.splits)
qed

lemma frames_pending: "conn_ok c \<Longrightarrow> frames (pending c) = []"
  by (auto simp: conn_ok_def pending_def Let_def split: packet_state.splits if_splits)

text \<open>C18: however the network splits the stream over the ticks, the packets executed are the
  complete packets of the bytes received, in order.\<close>

theorem run_executes_frames:
  assumes "chunks_ok conn_init chunks"
  shows "snd (run conn_init chunks) = frames (concat chunks)"
proof -
  have "conn_ok conn_init" "pending conn_init = []"
    by (simp_all add: conn_ok_def conn_init_def pending_def)
  with run_frames [of conn_init chunks] assms frames_pending show ?thesis
    by (cases "run conn_init chunks") auto
qed

theorem run_executes_frames_witness:
  "chunks_ok conn_init [[3], [], [254], [9], [8], [2]]
   \<and> snd (run conn_init [[3], [], [254], [9], [8], [2]]) = [[9, 8]]"
proof -
  have n: "number 3 254 254 254 = 2"
    by (simp add: number_no_wrap number_digit_def)
  have "chunks_ok conn_init [[3], [], [254], [9], [8], [2]]"
    by (simp add: conn_init_def recv_want_def tick_def read_len1_def read_len2_def read_data_def n)
  with run_executes_frames [of "[[3], [], [254], [9], [8], [2]]"] n show ?thesis by simp
qed

text \<open>C19: a packet whose length bytes say zero stalls its connection: the client waits for zero
  bytes, and no packet is executed any more, whatever is sent.\<close>

theorem zero_length_stalls:
  assumes "number a b 254 254 = 0" "cn_state c = ReadLen1"
    and "chunks_ok (fst (run c [[a], [b]])) chunks"
  shows "snd (run (fst (run c [[a], [b]])) chunks) = []"
proof -
  define c1 where "c1 = fst (run c [[a], [b]])"
  have c1: "recv_want c1 = 0"
    using assms(1,2) by (simp add: c1_def recv_want_def tick_def read_len1_def read_len2_def Let_def)
  have "snd (run c1 chunks) = []" if "chunks_ok c1 chunks" for chunks
    using that c1 by (induction chunks) (auto simp: tick_def split: prod.splits)
  with assms(3) show ?thesis by (simp add: c1_def)
qed

theorem zero_length_stalls_witness:
  "chunks_ok (fst (run conn_init [[1], [254]])) [[], []]
   \<and> snd (run (fst (run conn_init [[1], [254]])) [[], []]) = []"
proof -
  have n: "number 1 254 254 254 = 0" by (simp add: number_no_wrap number_digit_def)
  have ok: "chunks_ok (fst (run conn_init [[1], [254]])) [[], []]"
    by (simp add: tick_def recv_want_def)
  with zero_length_stalls [OF n _ ok] show ?thesis by (simp add: conn_init_def)
qed

section \<open>Sequence numbers\<close>

record sequence =
  sq_start :: int
  sq_upcoming :: int
  sq_seq :: int

text \<open>The four functions that start a new sequence; \<open>r\<close> is the value of \<open>util::rand\<close>.\<close>

definition init_new_sequence :: "int \<Rightarrow> sequence \<Rightarrow> sequence" where
  "init_new_sequence r q = q\<lparr>sq_start := r\<rparr>"

definition ping_new_sequence :: "int \<Rightarrow> sequence \<Rightarrow> sequence" where
  "ping_new_sequence r q = q\<lparr>sq_upcoming := r\<rparr>"

definition pong_new_sequence :: "sequence \<Rightarrow> sequence" where
  "pong_new_sequence q = q\<lparr>sq_start := sq_upcoming q\<rparr>"

definition account_reply_new_sequence :: "int \<Rightarrow> sequence \<Rightarrow> sequence" where
  "account_reply_new_sequence r q = q\<lparr>sq_start := r\<rparr>"

text \<open>Division of \<open>int\<close> in C++ truncates towards zero.\<close>

definition cdiv :: "int \<Rightarrow> int \<Rightarrow> int" where
  "cdiv a b = (if a < 0 then - ((- a) div b) else a div b)"

definition seq_init_max :: "sequence \<Rightarrow> int" where
  "seq_init_max q = cdiv (sq_start q + 13) 7"

definition seq_init_min :: "sequence \<Rightarrow> int" where
  "seq_init_min q = max 0 (cdiv (sq_start q - 252 + 13 + 6) 7)"

text \<open>\<open>GetSeqInitBytes\<close> and \<open>GetSeqUpdateBytes\<close> for the value \<open>r\<close> of \<open>util::rand\<close> in their range.\<close>

definition seq_init_bytes :: "int \<Rightarrow> sequence \<Rightarrow> int \<times> int" where
  "seq_init_bytes r q = (let s1 = u8 r in (s1, u8 (sq_start q - s1 * 7 + 13)))"

definition seq_update_bytes :: "int \<Rightarrow> sequence \<Rightarrow> int \<times> int" where
  "seq_update_bytes r q = (let s1 = u16 r in (s1, u8 (s1 - sq_upcoming q)))"

definition gen_sequence :: "sequence \<Rightarrow> int \<times> sequence" where
  "gen_sequence q = (s32 (sq_start q + sq_seq q), q\<lparr>sq_seq := (sq_seq q + 1) mod 10\<rparr>)"

definition gen_upcoming_sequence :: "sequence \<Rightarrow> int \<times> sequence" where
  "gen_upcoming_sequence q = (s32 (sq_upcoming q + sq_seq q), q\<lparr>sq_seq := (sq_seq q + 1) mod 10\<rparr>)"

text \<open>the two bytes sent to a new client determine the start of the sequence: for every start
  that can be drawn the range of the random byte is not empty, both values fit their bytes, the second
  fits a one-byte number, and the client's formula gives the start back.\<close>

theorem seq_init_bytes_decode:
  assumes "0 \<le> start" "start \<le> 1757" "seq_init_min q \<le> r" "r \<le> seq_init_max q" "sq_start q = start"
  shows "seq_init_min q \<le> seq_init_max q
    \<and> (case seq_init_bytes r q of (s1, s2) \<Rightarrow> s1 = r \<and> 0 \<le> s2 \<and> s2 \<le> 252 \<and> s1 * 7 + s2 - 13 = start)"
proof -
  have r: "0 \<le> r" "r \<le> (start + 13) div 7" "start - 233 \<le> 7 * r + 6"
    using assms by (auto simp: seq_init_max_def seq_init_min_def cdiv_def split: if_splits)
  then have "u8 r = r" "0 \<le> start - r * 7 + 13" "start - r * 7 + 13 \<le> 252"
    using assms(1,2) by (auto simp: width_simps)
  then have "u8 (start - r * 7 + 13) = start - r * 7 + 13" by (simp add: width_simps)
  with assms r \<open>u8 r = r\<close> show ?thesis
    by (simp add: seq_init_bytes_def Let_def)
qed

theorem seq_init_bytes_decode_witness:
  "(case seq_init_bytes 30 \<lparr>sq_start = 300, sq_upcoming = 0, sq_seq = 0\<rparr> of (s1, s2) \<Rightarrow> s1 * 7 + s2 - 13 = (300 :: int))"
  using seq_init_bytes_decode [of 300 "\<lparr>sq_start = 300, sq_upcoming = 0, sq_seq = 0\<rparr>" 30]
  by (auto simp: seq_init_min_def seq_init_max_def cdiv_def)

definition seq_ok :: "sequence \<Rightarrow> bool" where
  "seq_ok q \<longleftrightarrow> 0 \<le> sq_seq q \<and> sq_seq q < 10 \<and> 0 \<le> sq_start q \<and> sq_start q \<le> 1757"

text \<open>the numbers the server expects stay within the sequence: started from a number that fits one
  byte with room for the counter, every number of the sequence fits one byte, and the counter returns
  after ten packets.\<close>

theorem gen_sequence_bounds:
  assumes "seq_ok q"
  shows "seq_ok (snd (gen_sequence q))
    \<and> sq_start q \<le> fst (gen_sequence q) \<and> fst (gen_sequence q) \<le> sq_start q + 9
    \<and> (sq_start q \<le> 240 \<longrightarrow> fst (gen_sequence q) < 253)"
  using assms by (auto simp: seq_ok_def gen_sequence_def width_simps int_max_def)

theorem gen_sequence_bounds_witness:
  "fst (gen_sequence \<lparr>sq_start = 240, sq_upcoming = 0, sq_seq = 9\<rparr>) = 249
   \<and> seq_ok (snd (gen_sequence \<lparr>sq_start = 240, sq_upcoming = 0, sq_seq = 9\<rparr>))"
proof -
  have "seq_ok \<lparr>sq_start = 240, sq_upcoming = 0, sq_seq = 9\<rparr>" by (simp add: seq_ok_def)
  from gen_sequence_bounds [OF this] show ?thesis by (simp add: gen_sequence_def width_simps int_max_def)
qed

end
