(* ===== verification/Util.thy ===== *)
theory Util
  imports Prelude
begin

text \<open>
  String utilities (\<^verbatim>\<open>src/util.cpp\<close>): trimming, splitting, decimal input, and the pixel widths by
  which chat and guild texts are cut and wrapped. \<open>None\<close> stands for an exception
  (\<open>std::out_of_range\<close>, \<open>std::invalid_argument\<close>) or, in \<open>text_word_wrap\<close>, for a loop that does
  not end.
\<close>

section \<open>Trimming\<close>

definition is_blank :: "char \<Rightarrow> bool" where
  "is_blank c \<longleftrightarrow> c = CHR '' '' \<or> c = CHR 0x09 \<or> c = CHR 0x0A \<or> c = CHR 0x0D"

text \<open>\<open>find_first_not_of\<close> and \<open>find_last_not_of\<close> with the blanks; \<open>None\<close> is \<open>npos\<close>.\<close>

definition first_not_blank :: "string \<Rightarrow> nat option" where
  "first_not_blank str =
     (if dropWhile is_blank str = [] then None else Some (length (takeWhile is_blank str)))"

definition last_not_blank :: "string \<Rightarrow> nat option" where
  "last_not_blank str =
     (if dropWhile is_blank (rev str) = [] then None
      else Some (length str - length (takeWhile is_blank (rev str)) - 1))"

definition ltrim :: "string \<Rightarrow> string option" where
  "ltrim str =
     (let si = (case first_not_blank str of None \<Rightarrow> 0 + 1 | Some si \<Rightarrow> si)
      in if length str < si then None else Some (drop si str))"

definition rtrim :: "string \<Rightarrow> string" where
  "rtrim str =
     (let ei = (case last_not_blank str of None \<Rightarrow> length str | Some ei \<Rightarrow> ei + 1)
      in take ei str)"

definition trim :: "string \<Rightarrow> string" where
  "trim str =
     (case first_not_blank str of
        None \<Rightarrow> (case last_not_blank str of None \<Rightarrow> '''' | Some ei \<Rightarrow> take (ei + 1) str)
      | Some si \<Rightarrow>
          (let ei = (case last_not_blank str of None \<Rightarrow> length str | Some ei \<Rightarrow> ei + 1)
           in take (ei - si) (drop si str)))"

lemma dropWhile_drop: "dropWhile P xs = drop (length (takeWhile P xs)) xs"
  by (metis append_eq_conv_conj takeWhile_dropWhile_id)

lemma dropWhile_all [simp]: "\<forall>x\<in>set b. P x \<Longrightarrow> dropWhile P (b @ ys) = dropWhile P ys"
  by (induction b) auto

lemma first_not_blank_drop:
  "first_not_blank str = Some si \<Longrightarrow> drop si str = dropWhile is_blank str"
  by (auto simp: first_not_blank_def dropWhile_drop split: if_splits)

lemma last_not_blank_take:
  assumes "last_not_blank str = Some ei"
  shows "take (ei + 1) str = rev (dropWhile is_blank (rev str))"
proof -
  let ?n = "length (takeWhile is_blank (rev str))"
  from assms have "dropWhile is_blank (rev str) \<noteq> []" and ei: "ei = length str - ?n - 1"
    by (auto simp: last_not_blank_def split: if_splits)
  then have "?n < length str"
    by (metis dropWhile_drop drop_eq_Nil length_rev not_le)
  then have "ei + 1 = length str - ?n" using ei by simp
  then show ?thesis by (simp add: dropWhile_drop drop_rev)
qed

lemma not_blank_none:
  "first_not_blank str = None \<longleftrightarrow> (\<forall>c\<in>set str. is_blank c)"
  "last_not_blank str = None \<longleftrightarrow> (\<forall>c\<in>set str. is_blank c)"
  by (auto simp: first_not_blank_def last_not_blank_def dropWhile_eq_Nil_conv)

text \<open>What \<open>trim\<close> promises: blanks off both ends, nothing else changed.\<close>

definition trimmed :: "string \<Rightarrow> string" where
  "trimmed str = rev (dropWhile is_blank (rev (dropWhile is_blank str)))"

lemma dropWhile_middle:
  assumes "\<exists>c\<in>set str. \<not> P c"
  shows "rev (dropWhile P (rev (dropWhile P str))) = dropWhile P (rev (dropWhile P (rev str)))"
proof -
  obtain a c b where str: "str = a @ c # b" and a: "\<forall>x\<in>set a. P x" and c: "\<not> P c"
    using assms split_list_first_prop [of str "\<lambda>x. \<not> P x"] by blast
  have 1: "dropWhile P str = c # b" using a c str by (simp add: dropWhile_append2)
  show ?thesis
  proof (cases "\<forall>x\<in>set b. P x")
    case True
    then have "\<forall>x\<in>set (rev b). P x" by simp
    then have "dropWhile P (rev (c # b)) = [c]" "dropWhile P (rev str) = c # rev a"
      using c str by (simp_all del: set_rev)
    then show ?thesis using 1 a c by simp
  next
    case False
    then obtain b' d t where "rev b = b' @ d # t" "\<forall>x\<in>set b'. P x" "\<not> P d"
      using split_list_first_prop [of "rev b" "\<lambda>x. \<not> P x"] by auto
    then have "dropWhile P (rev (c # b)) = d # t @ [c]" "dropWhile P (rev str) = d # t @ c # rev a"
      using str by (simp_all add: dropWhile_append2)
    then show ?thesis using 1 a c by (simp add: dropWhile_append2)
  qed
qed

lemma trim_trimmed: "trim str = trimmed str"
proof (cases "\<forall>c\<in>set str. is_blank c")
  case True
  then have "first_not_blank str = None" "last_not_blank str = None" by (simp_all add: not_blank_none)
  moreover have "dropWhile is_blank str = []" using True by (metis dropWhile_eq_Nil_conv)
  ultimately show ?thesis by (simp only: trim_def trimmed_def option.case dropWhile.simps rev.simps)
next
  case False
  then obtain si ei where s: "first_not_blank str = Some si" and e: "last_not_blank str = Some ei"
    using not_blank_none by (metis option.exhaust)
  let ?t = "takeWhile is_blank str"
  have si: "si = length ?t" using s by (auto simp: first_not_blank_def split: if_splits)
  have "trim str = drop si (take (ei + 1) str)"
    using s e by (simp add: trim_def Let_def drop_take)
  also have "take (ei + 1) str = rev (dropWhile is_blank (rev str))" by (rule last_not_blank_take [OF e])
  also have "drop si \<dots> = dropWhile is_blank \<dots>"
  proof -
    obtain a c b where str: "str = a @ c # b" and a: "\<forall>x\<in>set a. is_blank x" and c: "\<not> is_blank c"
      using False split_list_first_prop [of str "\<lambda>x. \<not> is_blank x"] by blast
    have "?t = a" using a c str by (simp add: takeWhile_append2)
    moreover obtain r where "rev (dropWhile is_blank (rev str)) = a @ c # r"
    proof (cases "\<forall>x\<in>set (rev b). is_blank x")
      case True
      then have "dropWhile is_blank (rev str) = c # rev a"
        using c str by (simp del: set_rev)
      then show thesis using that [of "[]"] by simp
    next
      case False
      then have "dropWhile is_blank (rev str) = dropWhile is_blank (rev b) @ c # rev a"
        using str dropWhile_append1 [of _ "rev b" is_blank "c # rev a"] by auto
      then show thesis using that by simp
    qed
    ultimately show ?thesis using a c si by (simp add: dropWhile_append2)
  qed
  also have "\<dots> = trimmed str"
    unfolding trimmed_def using False by (intro dropWhile_middle [symmetric]) auto
  finally show ?thesis .
qed

text \<open>\<open>trim\<close> takes the blanks off both ends and nothing else: its result neither starts nor
  ends with a blank, the string is the result between two runs of blanks, and trimming twice
  changes nothing.\<close>

theorem trim_strips_both_ends:
  "trim str = trimmed str
   \<and> (\<exists>a b. str = a @ trim str @ b \<and> list_all is_blank a \<and> list_all is_blank b)
   \<and> trim (trim str) = trim str"
proof -
  have idem: "trimmed (trimmed s) = trimmed s" for s
  proof (cases "dropWhile is_blank s")
    case Nil
    then show ?thesis by (simp add: trimmed_def del: dropWhile_eq_Nil_conv)
  next
    case (Cons c r)
    then have c: "\<not> is_blank c" by (simp add: dropWhile_eq_Cons_conv)
    let ?d = "dropWhile is_blank (rev (c # r))"
    have "\<exists>q. ?d = q @ [c]"
    proof (cases "\<forall>x\<in>set (rev r). is_blank x")
      case True
      then show ?thesis using c by (simp del: set_rev)
    next
      case False
      then show ?thesis using dropWhile_append1 [of _ "rev r" is_blank "[c]"] by auto
    qed
    then obtain q where q: "?d = q @ [c]" ..
    then have t: "trimmed s = c # rev q" using Cons by (simp add: trimmed_def)
    then have "dropWhile is_blank (trimmed s) = trimmed s" using c by simp
    moreover have "dropWhile is_blank (rev (trimmed s)) = rev (trimmed s)"
      using q t by (metis dropWhile_idem rev.simps(2) rev_rev_ident)
    ultimately show ?thesis by (simp add: trimmed_def)
  qed
  let ?a = "takeWhile is_blank str" and ?m = "dropWhile is_blank str"
  have "?m = trimmed str @ rev (takeWhile is_blank (rev ?m))"
    unfolding trimmed_def by (metis rev_append rev_rev_ident takeWhile_dropWhile_id)
  then have "str = ?a @ trimmed str @ rev (takeWhile is_blank (rev ?m))"
    by (metis takeWhile_dropWhile_id)
  moreover have "list_all is_blank ?a" "list_all is_blank (rev (takeWhile is_blank (rev ?m)))"
    by (auto simp: list_all_iff dest: set_takeWhileD)
  ultimately show ?thesis using idem unfolding trim_trimmed by blast
qed

text \<open>\<open>ltrim\<close> throws on the empty string, and \<open>ltrim\<close> and \<open>rtrim\<close> leave blanks behind on a
  string that holds nothing else, where \<open>trim\<close> gives the empty string.\<close>

lemma blank_only_trims:
  "ltrim '''' = None \<and> ltrim '' '' = Some '''' \<and> ltrim ''  '' = Some '' '' \<and>
   rtrim ''  '' = ''  '' \<and> trim ''  '' = ''''"
  by code_simp

section \<open>Splitting\<close>

text \<open>\<open>explode\<close> with one character: \<open>rest\<close> is the string from \<open>lastpos\<close> on.\<close>

function explode :: "char \<Rightarrow> string \<Rightarrow> string list" where
  "explode delimiter rest =
     (case dropWhile (\<lambda>c. c \<noteq> delimiter) rest of
        [] \<Rightarrow> [rest]
      | d # rest' \<Rightarrow> takeWhile (\<lambda>c. c \<noteq> delimiter) rest # explode delimiter rest')"
  by pat_completeness auto
termination
proof (relation "measure (length \<circ> snd)")
  fix delimiter :: char and rest d rest'
  assume "dropWhile (\<lambda>c. c \<noteq> delimiter) rest = d # rest'"
  then show "((delimiter, rest'), (delimiter, rest)) \<in> measure (length \<circ> snd)"
    using length_dropWhile_le [of "\<lambda>c. c \<noteq> delimiter" rest] by simp
qed simp

declare explode.simps [simp del]

fun implode :: "char \<Rightarrow> string list \<Rightarrow> string" where
  "implode d [] = ''''"
| "implode d [p] = p"
| "implode d (p # ps) = p @ d # implode d ps"

lemma explode_nonempty: "explode d s \<noteq> []"
  by (subst explode.simps) (simp split: list.split)

lemma implode_Cons: "ps \<noteq> [] \<Longrightarrow> implode d (p # ps) = p @ d # implode d ps"
  by (cases ps) auto

lemma explode_last: "d \<notin> set s \<Longrightarrow> explode d s = [s]"
proof -
  assume "d \<notin> set s"
  then have "dropWhile (\<lambda>c. c \<noteq> d) s = []" by (induction s) auto
  then show ?thesis by (simp only: explode.simps [of d s] list.case)
qed

lemma explode_step: "d \<notin> set p \<Longrightarrow> explode d (p @ d # r) = p # explode d r"
proof -
  assume "d \<notin> set p"
  then have "\<forall>c\<in>set p. c \<noteq> d" by auto
  then have "dropWhile (\<lambda>c. c \<noteq> d) (p @ d # r) = d # r" "takeWhile (\<lambda>c. c \<noteq> d) (p @ d # r) = p"
    by (simp_all add: takeWhile_append2)
  then show ?thesis by (simp only: explode.simps [of d "p @ d # r"] list.case)
qed

lemma explode_parts: "implode d (explode d s) = s \<and> list_all (\<lambda>p. d \<notin> set p) (explode d s)"
proof (induction s rule: length_induct)
  case (1 s)
  show ?case
  proof (cases "d \<in> set s")
    case False
    then show ?thesis by (simp add: explode_last)
  next
    case True
    then obtain p r where s: "s = p @ d # r" and p: "d \<notin> set p" by (meson split_list_first)
    have "implode d (explode d r) = r \<and> list_all (\<lambda>p. d \<notin> set p) (explode d r)"
      using 1 s by simp
    then show ?thesis using s p by (simp add: explode_step implode_Cons explode_nonempty)
  qed
qed

lemma explode_implode:
  "ps \<noteq> [] \<Longrightarrow> list_all (\<lambda>p. d \<notin> set p) ps \<Longrightarrow> explode d (implode d ps) = ps"
proof (induction d ps rule: implode.induct)
  case (3 d p q ps)
  then show ?case by (simp add: explode_step)
qed (simp_all add: explode_last)

text \<open>\<open>explode\<close> splits at every delimiter: joining the pieces gives the string back, no piece
  holds a delimiter, and a list of such pieces is what its joined form splits into.\<close>

theorem explode_splits:
  "implode d (explode d s) = s \<and> list_all (\<lambda>p. d \<notin> set p) (explode d s) \<and>
   (ps \<noteq> [] \<and> list_all (\<lambda>p. d \<notin> set p) ps \<longrightarrow> explode d (implode d ps) = ps)"
  using explode_parts explode_implode by blast

theorem explode_splits_witness:
  "explode CHR '','' (implode CHR '','' [''1'', '''', ''20'']) = [''1'', '''', ''20'']"
  using explode_splits [of "CHR '',''" "''''" "[''1'', '''', ''20'']"] by simp

section \<open>Decimal input\<close>

text \<open>\<open>to_uint_raw\<close> reads from the last character to the first, on an \<open>unsigned int\<close>; \<open>rcs\<close> holds
  the characters still to read.\<close>

fun uint_loop :: "32 word \<Rightarrow> 32 word \<Rightarrow> string \<Rightarrow> 32 word option" where
  "uint_loop multiplier result [] = Some result"
| "uint_loop multiplier result (c # rcs) =
     (if ccode c < 48 \<or> 57 < ccode c then None
      else uint_loop (multiplier * 10) (result + of_nat (ccode c - 48) * multiplier) rcs)"

definition to_uint_raw :: "string \<Rightarrow> 32 word option" where
  "to_uint_raw subject = (if subject = '''' then Some 0 else uint_loop 1 0 (rev subject))"

definition ucfirst :: "string \<Rightarrow> string" where
  "ucfirst subject =
     (case subject of
        [] \<Rightarrow> []
      | c # cs \<Rightarrow> (if 97 \<le> ccode c \<and> ccode c \<le> 122 then char_of (ccode c - 32) else c) # cs)"

lemma uint_loop_value:
  "uint_loop m r (rev cs) =
     (if \<forall>c\<in>set cs. is_digit_char c then Some (r + m * of_int (dec_value 0 cs)) else None)"
proof (induction cs arbitrary: m r rule: rev_induct)
  case (snoc c cs)
  show ?case
  proof (cases "is_digit_char c")
    case True
    then have "(of_nat (ccode c - 48) :: 32 word) = of_int (digit_value c)"
      by (simp add: is_digit_char_def digit_value_def of_nat_diff)
    moreover have "\<not> (ccode c < 48 \<or> 57 < ccode c)" using True by (simp add: is_digit_char_def)
    ultimately show ?thesis using snoc [of "m * 10" "r + of_int (digit_value c) * m"] True
      by (simp add: algebra_simps)
  next
    case False
    then have "ccode c < 48 \<or> 57 < ccode c" by (simp add: is_digit_char_def) arith
    then show ?thesis using False by auto
  qed
qed simp

text \<open>The value is the number read, modulo \<open>2 ^ 32\<close>: a longer number wraps without an error.\<close>

lemma to_uint_raw_value:
  "to_uint_raw cs =
     (if \<forall>c\<in>set cs. is_digit_char c then Some (of_int (dec_value 0 cs)) else None)"
  by (simp add: to_uint_raw_def uint_loop_value)

section \<open>Pixel widths\<close>

definition sizes :: "nat list" where
  "sizes =
   [3, 3, 3, 3, 3, 3, 3, 3, 3, 3, 3, 3, 3, 3, 3, 3,
    3, 3, 3, 3, 3, 3, 3, 3, 3, 3, 3, 3, 3, 3, 3, 3,
    3, 3, 5, 7, 6, 8, 6, 2, 3, 3, 4, 6, 3, 3, 3, 5,
    6, 6, 6, 6, 6, 6, 6, 6, 6, 6, 3, 3, 6, 6, 6, 6,
    11, 7, 7, 7, 8, 7, 6, 8, 8, 3, 5, 7, 6, 9, 8, 8,
    7, 8, 8, 7, 7, 8, 7, 11, 7, 7, 7, 3, 5, 3, 6, 6,
    3, 6, 6, 6, 6, 6, 3, 6, 6, 2, 2, 6, 2, 8, 6, 6,
    6, 6, 3, 5, 3, 6, 6, 8, 5, 5, 5, 4, 2, 4, 7, 3,
    0, 0, 0, 0, 0, 0, 0, 0, 0, 0, 0, 0, 0, 0, 0, 0,
    0, 0, 0, 0, 0, 0, 0, 0, 0, 0, 0, 0, 0, 0, 0, 0,
    3, 3, 6, 6, 6, 6, 2, 6, 3, 9, 4, 6, 6, 3, 8, 6,
    4, 6, 3, 3, 3, 6, 6, 3, 3, 3, 4, 6, 8, 8, 8, 6,
    7, 7, 7, 7, 7, 7, 10, 7, 7, 7, 7, 7, 3, 3, 3, 3,
    8, 8, 8, 8, 8, 8, 8, 6, 8, 8, 8, 8, 8, 7, 7, 6,
    6, 6, 6, 6, 6, 6, 10, 6, 6, 6, 6, 6, 2, 4, 4, 4,
    6, 6, 6, 6, 6, 6, 6, 6, 6, 6, 6, 6, 6, 5, 6, 5]"

definition char_width :: "char \<Rightarrow> nat" where
  "char_width c = sizes ! ccode c"

lemma char_width_le: "char_width c \<le> 11"
proof -
  have "list_all (\<lambda>n. n \<le> 11) sizes" "length sizes = 256" by (simp_all add: sizes_def)
  moreover have "ccode c < 256" by simp
  ultimately show ?thesis unfolding char_width_def list_all_length by simp
qed

definition text_width :: "string \<Rightarrow> nat" where
  "text_width str = fold (\<lambda>c len. len + char_width c) str 0"

fun max_word_loop :: "nat \<Rightarrow> nat \<Rightarrow> string \<Rightarrow> nat \<times> nat" where
  "max_word_loop max_length len [] = (max_length, len)"
| "max_word_loop max_length len (c # cs) =
     (if c = CHR '' '' then max_word_loop (max max_length len) 0 cs
      else max_word_loop max_length (len + char_width c) cs)"

definition text_max_word_width :: "string \<Rightarrow> nat" where
  "text_max_word_width str = (case max_word_loop 0 0 str of (max_length, len) \<Rightarrow> max max_length len)"

lemma text_width_sum: "fold (\<lambda>c len. len + char_width c) str n = n + sum_list (map char_width str)"
  by (induction str arbitrary: n) simp_all

lemma text_width_simps [simp]:
  "text_width '''' = 0" "text_width (c # cs) = char_width c + text_width cs"
  "text_width (as @ bs) = text_width as + text_width bs"
  by (simp_all add: text_width_def text_width_sum)

subsection \<open>Cutting a line\<close>

text \<open>A \<open>char\<close> of the source is signed; \<open>text_cap\<close> subtracts it where it means its width.\<close>

definition schar :: "char \<Rightarrow> int" where
  "schar c = (if ccode c < 128 then int (ccode c) else int (ccode c) - 256)"

fun cap_back :: "int \<Rightarrow> int \<Rightarrow> string \<Rightarrow> nat \<Rightarrow> nat" where
  "cap_back limit len str 0 = 0"
| "cap_back limit len str (Suc i) =
     (if limit < len then cap_back limit (len - schar (str ! Suc i)) str i else Suc i)"

text \<open>The loop over the string: \<open>i\<close> characters read, of width \<open>len\<close>, and \<open>rest\<close> to read.\<close>

fun cap_loop :: "int \<Rightarrow> string \<Rightarrow> string \<Rightarrow> nat \<Rightarrow> int \<Rightarrow> string \<Rightarrow> string" where
  "cap_loop width elipses str i len [] = str"
| "cap_loop width elipses str i len (c # rest) =
     (let len1 = len + int (char_width c)
      in if width < len1
         then take (cap_back (width + int (text_width elipses)) len1 str i) str
         else cap_loop width elipses str (i + 1) len1 rest)"

definition text_cap :: "string \<Rightarrow> int \<Rightarrow> string \<Rightarrow> string" where
  "text_cap str width elipses = cap_loop width elipses str 0 0 str"

lemma cap_back_le: "cap_back limit len str i \<le> i"
  by (induction i arbitrary: len) (auto intro: le_SucI)

lemma text_width_take_le: "k \<le> i \<Longrightarrow> text_width (take k str) \<le> text_width (take i str)"
  by (metis le_add1 le_add_diff_inverse take_add text_width_simps(3))

lemma cap_loop_prefix:
  assumes "str = d @ rest" "i = length d" "len = int (text_width d)" "len \<le> max 0 width"
  shows "\<exists>k. cap_loop width elipses str i len rest = take k str
    \<and> int (text_width (take k str)) \<le> max 0 width
    \<and> (int (text_width str) \<le> width \<longrightarrow> length str \<le> k)"
  using assms
proof (induction rest arbitrary: d i len)
  case Nil
  then show ?case by (intro exI [of _ "length str"]) simp
next
  case (Cons c rest)
  show ?case
  proof (cases "width < len + int (char_width c)")
    case True
    let ?k = "cap_back (width + int (text_width elipses)) (len + int (char_width c)) str i"
    have "text_width (take ?k str) \<le> text_width (take i str)"
      by (intro text_width_take_le cap_back_le)
    moreover have "take i str = d" using Cons.prems by simp
    moreover have "\<not> int (text_width str) \<le> width" using True Cons.prems by simp
    ultimately show ?thesis using True Cons.prems by (intro exI [of _ ?k]) (simp add: Let_def)
  next
    case False
    then show ?thesis
      using Cons.IH [of "d @ [c]" "i + 1" "len + int (char_width c)"] Cons.prems
      by (simp add: Let_def)
  qed
qed

text \<open>\<open>text_cap\<close> gives a prefix of the string that is at most \<open>width\<close> pixels wide, and the whole
  string when that fits.\<close>

theorem text_cap_fits:
  "\<exists>k. text_cap str width elipses = take k str
     \<and> int (text_width (text_cap str width elipses)) \<le> max 0 width
     \<and> (text_cap str width elipses = str \<or> width < int (text_width str))"
proof -
  obtain k where "cap_loop width elipses str 0 0 str = take k str"
    "int (text_width (take k str)) \<le> max 0 width" "int (text_width str) \<le> width \<longrightarrow> length str \<le> k"
    using cap_loop_prefix [of str "[]" str 0 0 width elipses] by auto
  then show ?thesis unfolding text_cap_def by (intro exI [of _ k]) auto
qed

text \<open>It does not keep as much as fits: with no ellipsis it drops a character that would fit, and with
  the default one it leaves no room for it.\<close>

lemma text_cap_examples:
  "text_cap ''abc'' 12 '''' = ''a'' \<and> text_width ''ab'' = 12"
  "text_cap ''abc'' 12 ''...'' = ''ab'' \<and> text_width ''ab...'' = 21"
  by code_simp+

subsection \<open>Wrapping\<close>

datatype wrap_result = Thrown | Wrapped string

text \<open>The loop of \<open>text_word_wrap\<close>: \<open>front\<close> is the part of \<open>result\<close> before the index \<open>i\<close>, \<open>rest\<close> the
  part from it on. \<open>None\<close> is a loop that does not end.\<close>

partial_function (option) wrap_loop :: "nat \<Rightarrow> nat \<Rightarrow> string \<Rightarrow> string \<Rightarrow> wrap_result option" where
  "wrap_loop width len front rest =
     (case rest of
        [] \<Rightarrow> Some (Wrapped front)
      | c # rest' \<Rightarrow>
          if c = CHR '' '' then wrap_loop width 0 (front @ [c]) rest'
          else if len + char_width c \<le> width
          then wrap_loop width (len + char_width c) (front @ [c]) rest'
          else if front = [] then Some Thrown
          else wrap_loop width 0 (butlast front @ [CHR '' '', last front]) rest)"

definition text_word_wrap :: "string \<Rightarrow> nat \<Rightarrow> wrap_result option" where
  "text_word_wrap str width = wrap_loop width 0 [] str"

lemma wrap_loop_simps [simp]:
  "wrap_loop width len front [] = Some (Wrapped front)"
  "wrap_loop width len front (CHR '' '' # rest) = wrap_loop width 0 (front @ '' '') rest"
  "c \<noteq> CHR '' '' \<Longrightarrow> len + char_width c \<le> width \<Longrightarrow>
   wrap_loop width len front (c # rest) = wrap_loop width (len + char_width c) (front @ [c]) rest"
  by (subst wrap_loop.simps, simp)+

lemma wrap_loop_insert:
  assumes "c \<noteq> CHR '' ''" "width < len + char_width c" "11 \<le> width"
  shows "wrap_loop width len (front @ [d]) (c # rest) =
    wrap_loop width (char_width c) (front @ [CHR '' '', d, c]) rest"
proof -
  have "wrap_loop width len (front @ [d]) (c # rest) =
      wrap_loop width 0 (front @ [CHR '' '', d]) (c # rest)"
    using assms by (subst wrap_loop.simps) simp
  also have "\<dots> = wrap_loop width (char_width c) (front @ [CHR '' '', d, c]) rest"
    using assms char_width_le [of c] by simp
  finally show ?thesis .
qed

lemma max_word_loop_append:
  "max_word_loop m l (as @ bs) =
     (case max_word_loop m l as of (m', l') \<Rightarrow> max_word_loop m' l' bs)"
  by (induction as arbitrary: m l) auto

text \<open>A text with spaces put into it, and nothing else changed.\<close>

inductive spaced :: "string \<Rightarrow> string \<Rightarrow> bool" where
  spaced_end: "spaced [] []"
| spaced_char: "spaced xs ys \<Longrightarrow> spaced (c # xs) (c # ys)"
| spaced_space: "spaced xs ys \<Longrightarrow> spaced xs (CHR '' '' # ys)"

lemma spaced_refl: "spaced xs xs"
  by (induction xs) (auto intro: spaced.intros)

lemma spaced_append: "spaced xs ys \<Longrightarrow> spaced xs' ys' \<Longrightarrow> spaced (xs @ xs') (ys @ ys')"
  by (induction rule: spaced.induct) (auto intro: spaced.intros)

lemma spaced_insert: "spaced xs (ys @ zs) \<Longrightarrow> spaced xs (ys @ CHR '' '' # zs)"
proof (induction ys arbitrary: xs)
  case (Cons y ys)
  from Cons.prems show ?case by (cases rule: spaced.cases) (auto intro: spaced.intros Cons.IH)
qed (simp add: spaced_space)

text \<open>While wrapping: finished words are at most \<open>width + 11\<close> wide, and the width of the current one
  differs from \<open>len\<close> by at most the character moved behind the inserted space.\<close>

definition wrap_inv :: "nat \<Rightarrow> nat \<Rightarrow> string \<Rightarrow> bool" where
  "wrap_inv width len front =
     (case max_word_loop 0 0 front of (m, l) \<Rightarrow>
        m \<le> width + 11 \<and> l \<le> len + 11 \<and> len \<le> width \<and>
        (len > 0 \<longrightarrow> front \<noteq> [] \<and> last front \<noteq> CHR '' ''))"

lemma wrap_inv_step:
  assumes "wrap_inv width len front"
  shows "wrap_inv width 0 (front @ '' '')"
    and "c \<noteq> CHR '' '' \<Longrightarrow> len + char_width c \<le> width \<Longrightarrow>
      wrap_inv width (len + char_width c) (front @ [c])"
  using assms by (auto simp: wrap_inv_def max_word_loop_append split: prod.splits)

lemma wrap_inv_insert:
  assumes "wrap_inv width len (front @ [d])" "d \<noteq> CHR '' ''" "c \<noteq> CHR '' ''" "11 \<le> width"
  shows "wrap_inv width (char_width c) (front @ [CHR '' '', d, c])"
  using assms char_width_le [of d] char_width_le [of c]
  by (auto simp: wrap_inv_def max_word_loop_append split: prod.splits)

lemma wrap_loop_returns:
  assumes "11 \<le> width" "wrap_inv width len front" "spaced str front"
  shows "\<exists>r. wrap_loop width len front rest = Some (Wrapped r)
    \<and> spaced (str @ rest) r \<and> text_max_word_width r \<le> width + 11"
  using assms(2,3)
proof (induction rest arbitrary: len front str)
  case Nil
  then show ?case
    by (auto simp: wrap_inv_def text_max_word_width_def split: prod.splits)
next
  case (Cons c rest)
  consider "c = CHR '' ''" | "c \<noteq> CHR '' ''" "len + char_width c \<le> width"
    | "c \<noteq> CHR '' ''" "width < len + char_width c" by linarith
  then show ?case
  proof cases
    case 1
    have "spaced (str @ '' '') (front @ '' '')" using Cons.prems(2) by (intro spaced_append spaced_refl)
    from Cons.IH [OF wrap_inv_step(1) [OF Cons.prems(1)] this] 1 show ?thesis by simp
  next
    case 2
    have "spaced (str @ [c]) (front @ [c])" using Cons.prems(2) by (intro spaced_append spaced_refl)
    from Cons.IH [OF wrap_inv_step(2) [OF Cons.prems(1) 2] this] 2 show ?thesis by simp
  next
    case 3
    then have "len > 0" using char_width_le [of c] assms(1) by linarith
    then obtain front' d where f: "front = front' @ [d]" "d \<noteq> CHR '' ''"
      using Cons.prems by (cases front rule: rev_cases) (auto simp: wrap_inv_def split: prod.splits)
    have "wrap_inv width (char_width c) (front' @ [CHR '' '', d, c])"
      using wrap_inv_insert Cons.prems f 3 assms(1) by blast
    moreover have "spaced (str @ [c]) ((front' @ CHR '' '' # [d]) @ [c])"
      using Cons.prems(2) f(1) by (intro spaced_append spaced_insert spaced_refl) simp
    ultimately show ?thesis
      using wrap_loop_insert [OF 3 assms(1), of front' d rest] f
        Cons.IH [of "char_width c" "front' @ [CHR '' '', d, c]" "str @ [c]"] by simp
  qed
qed

lemma max_word_loop_mono: "max_word_loop m l str = (m', l') \<Longrightarrow> max m l \<le> max m' l'"
  by (induction m l str rule: max_word_loop.induct) (auto split: if_splits)

lemma wrap_loop_fits:
  assumes "max_word_loop m len rest = (m', l')" "max m' l' \<le> width"
  shows "wrap_loop width len front rest = Some (Wrapped (front @ rest))"
  using assms
proof (induction m len rest arbitrary: front rule: max_word_loop.induct)
  case (2 m len c cs)
  show ?case
  proof (cases "c = CHR '' ''")
    case True
    then show ?thesis using 2 by simp
  next
    case False
    then have "len + char_width c \<le> width"
      using 2(3,4) max_word_loop_mono [of m "len + char_width c" cs m' l'] by (simp, linarith)
    then show ?thesis using 2 False by simp
  qed
qed simp

text \<open>C20: For a width of at least 11 pixels, the widest character, \<open>text_word_wrap\<close> returns. The result is the
  text with spaces put into it and nothing else changed; no word of it is more than one character wider than
  \<open>width\<close>; and a text whose words all fit is unchanged.\<close>

theorem text_word_wrap_returns:
  assumes "11 \<le> width"
  shows "\<exists>r. text_word_wrap str width = Some (Wrapped r) \<and> spaced str r
    \<and> text_max_word_width r \<le> width + 11 \<and> (text_max_word_width str \<le> width \<longrightarrow> r = str)"
proof -
  have "wrap_inv width 0 []" by (simp add: wrap_inv_def)
  from wrap_loop_returns [OF assms this spaced_end, of str] obtain r where
    "text_word_wrap str width = Some (Wrapped r)" "spaced str r"
    "text_max_word_width r \<le> width + 11"
    by (auto simp: text_word_wrap_def)
  moreover have "text_max_word_width str \<le> width \<Longrightarrow> text_word_wrap str width = Some (Wrapped str)"
    using wrap_loop_fits [of 0 0 str _ _ width "[]"]
    by (auto simp: text_word_wrap_def text_max_word_width_def split: prod.splits)
  ultimately show ?thesis by (metis option.inject wrap_result.inject)
qed

theorem text_word_wrap_returns_witness:
  "\<exists>r. text_word_wrap ''mm mm'' 16 = Some (Wrapped r) \<and> spaced ''mm mm'' r
    \<and> text_max_word_width r \<le> 27 \<and> (text_max_word_width ''mm mm'' \<le> 16 \<longrightarrow> r = ''mm mm'')"
  using text_word_wrap_returns [of 16 "''mm mm''"] by simp

text \<open>With a width below that of some character the function throws, when the character is the first,
  or never ends: the character is pushed one place further by every space put before it.\<close>

lemma text_word_wrap_narrow: "text_word_wrap ''a'' 5 = Some Thrown"
  by (simp add: text_word_wrap_def) (subst wrap_loop.simps, code_simp)

lemma text_word_wrap_diverges: "text_word_wrap '' a'' 5 = None"
proof -
  have a: "char_width CHR ''a'' = 6" by code_simp
  have "wrap_loop width len front rest = Some r \<Longrightarrow>
      width = 5 \<longrightarrow> front \<noteq> [] \<longrightarrow> rest = ''a'' \<longrightarrow> False" for width len front rest r
    by (erule wrap_loop.raw_induct [rotated]) (fastforce simp: a split: if_splits list.splits)
  then have "wrap_loop 5 0 '' '' ''a'' = None" by (metis list.distinct(1) not_Some_eq)
  then show ?thesis by (simp add: text_word_wrap_def)
qed

end
