(* ===== verification/Config.thy ===== *)
theory Config
  imports Util EOPlus_Types
begin

text \<open>
  Configuration files (\<^verbatim>\<open>src/config.cpp\<close>): \<open>Config::Read\<close> with its inclusions, the escapes in values,
  and the environment variables that \<open>operator[]\<close> looks up the first time a key is used. The file
  system is the argument \<open>files\<close> (the text of a file that \<open>fopen\<close> opens), the environment the
  argument \<open>env\<close>. A \<open>Read\<close> that includes itself for ever has no fuel that suffices.
\<close>

section \<open>State and environment\<close>

record config =
  cfg_values :: "string \<rightharpoonup> variant"
  cfg_filename :: string
  cfg_loaded :: "string list"

definition config_empty :: config where
  "config_empty = \<lparr>cfg_values = Map.empty, cfg_filename = '''', cfg_loaded = []\<rparr>"

type_synonym environment = "string \<rightharpoonup> string"

definition config_fromenv :: "environment \<Rightarrow> string \<Rightarrow> string" where
  "config_fromenv env key =
     (case env (map to_upper (''etheos_'' @ key)) of None \<Rightarrow> '''' | Some envVal \<Rightarrow> envVal)"

definition load_from_environment :: "environment \<Rightarrow> string \<Rightarrow> config \<Rightarrow> config" where
  "load_from_environment env key c =
     (if key \<in> set (cfg_loaded c) then c
      else let envVal = config_fromenv env key;
               c1 = (if length envVal \<noteq> 0
                     then c\<lparr>cfg_values := (cfg_values c)(key \<mapsto> VString envVal)\<rparr> else c)
           in c1\<lparr>cfg_loaded := cfg_loaded c1 @ [key]\<rparr>)"

text \<open>\<open>config[key] = val\<close>, and \<open>config[key]\<close> read: a key never set becomes \<open>variant()\<close>.\<close>

definition config_assign :: "environment \<Rightarrow> string \<Rightarrow> variant \<Rightarrow> config \<Rightarrow> config" where
  "config_assign env key val c =
     (let c1 = load_from_environment env key c
      in c1\<lparr>cfg_values := (cfg_values c1)(key \<mapsto> val)\<rparr>)"

definition config_lookup :: "environment \<Rightarrow> string \<Rightarrow> config \<Rightarrow> variant \<times> config" where
  "config_lookup env key c =
     (let c1 = load_from_environment env key c
      in case cfg_values c1 key of
           Some v \<Rightarrow> (v, c1)
         | None \<Rightarrow> (VInt 0, c1\<lparr>cfg_values := (cfg_values c1)(key \<mapsto> VInt 0)\<rparr>))"

section \<open>Lines\<close>

definition MaxLineLength :: nat where
  "MaxLineLength = 4096"

text \<open>The strings that \<open>fgets\<close> delivers: up to a line feed, and at most \<open>MaxLineLength - 1\<close>
  characters.\<close>

function fgets_lines :: "string \<Rightarrow> string list" where
  "fgets_lines [] = []"
| "fgets_lines (c # cs) =
     (let n = min (length (takeWhile (\<lambda>c. c \<noteq> CHR 0x0A) (c # cs)) + 1) (MaxLineLength - 1)
      in take n (c # cs) # fgets_lines (drop n (c # cs)))"
  by pat_completeness auto
termination
  by (relation "measure length") (auto simp: Let_def MaxLineLength_def)

text \<open>The loop over the backslashes of a value.\<close>

fun unescape :: "string \<Rightarrow> string" where
  "unescape [] = []"
| "unescape [c] = [c]"
| "unescape (c # d # ds) =
     (if c = CHR 0x5C then
        (if d = CHR ''t'' then CHR 0x09 # unescape ds
         else if d = CHR ''r'' then CHR 0x0D # unescape ds
         else if d = CHR ''n'' then CHR 0x0A # unescape ds
         else if d = CHR 0x5C then CHR 0x5C # unescape ds
         else c # unescape (d # ds))
      else c # unescape (d # ds))"

text \<open>What a line asks for. \<open>Line_Throws\<close> is the exception of \<open>ltrim\<close>.\<close>

datatype config_entry =
    Line_Skipped
  | Line_Throws
  | Line_Require string
  | Line_Include string
  | Line_Setting string string

text \<open>A C string ends at its first NUL.\<close>

definition c_string :: "string \<Rightarrow> string" where
  "c_string buf = takeWhile (\<lambda>c. c \<noteq> CHR 0x00) buf"

definition parse_line :: "string \<Rightarrow> config_entry" where
  "parse_line buf =
     (let line = trim (c_string buf);
          eqloc = length (takeWhile (\<lambda>c. c \<noteq> CHR ''='') line)
      in if length line < 1 then Line_Skipped
         else if line ! 0 = CHR ''#'' then Line_Skipped
         else if eqloc = length line then Line_Skipped
         else
           let key = rtrim (take eqloc line)
           in case (if length line > eqloc + 1 then ltrim (drop (eqloc + 1) line) else Some '''') of
                None \<Rightarrow> Line_Throws
              | Some val \<Rightarrow>
                  if key = ''REQUIRE'' then Line_Require val
                  else if key = ''INCLUDE'' \<or> key = ''INCLUDE_NOWARN'' then Line_Include val
                  else Line_Setting key (unescape val))"

section \<open>Reading\<close>

datatype config_exn = Runtime_Error string | Range_Error

type_synonym read_result = "(config \<times> config_exn option) option"

text \<open>The body of the loop of \<open>Config::Read\<close>; \<open>rd\<close> is the recursive call. An exception leaves the
  state as it is at that moment.\<close>

definition read_line ::
  "(string \<Rightarrow> config \<Rightarrow> read_result) \<Rightarrow> environment \<Rightarrow> string \<Rightarrow> config \<Rightarrow> read_result" where
  "read_line rd env buf c =
     (case parse_line buf of
        Line_Skipped \<Rightarrow> Some (c, None)
      | Line_Throws \<Rightarrow> Some (c, Some Range_Error)
      | Line_Require val \<Rightarrow> rd val c
      | Line_Include val \<Rightarrow>
          (case rd val c of
             Some (c1, Some (Runtime_Error e)) \<Rightarrow> Some (c1, None)
           | r \<Rightarrow> r)
      | Line_Setting key val \<Rightarrow> Some (config_assign env key (VString val) c, None))"

fun read_lines ::
  "(string \<Rightarrow> config \<Rightarrow> read_result) \<Rightarrow> environment \<Rightarrow> string list \<Rightarrow> config \<Rightarrow> read_result" where
  "read_lines rd env [] c = Some (c, None)"
| "read_lines rd env (buf # bufs) c =
     (case read_line rd env buf c of
        Some (c1, None) \<Rightarrow> read_lines rd env bufs c1
      | r \<Rightarrow> r)"

primrec read_config ::
  "nat \<Rightarrow> (string \<rightharpoonup> string) \<Rightarrow> environment \<Rightarrow> string \<Rightarrow> config \<Rightarrow> read_result" where
  "read_config 0 files env filename c = None"
| "read_config (Suc n) files env filename c =
     (let c1 = c\<lparr>cfg_loaded := [], cfg_filename := filename\<rparr>
      in case files filename of
           None \<Rightarrow> Some (c1, Some (Runtime_Error (''Configuration file not found: '' @ filename)))
         | Some text \<Rightarrow> read_lines (read_config n files env) env (fgets_lines text) c1)"

section \<open>What reading means\<close>

text \<open>The specification: what a configuration does, in the order it does it, without the state.\<close>

datatype config_event = Opened string | Assigned string string

type_synonym trace_result = "(config_event list \<times> config_exn option) option"

definition trace_line :: "(string \<Rightarrow> trace_result) \<Rightarrow> string \<Rightarrow> trace_result" where
  "trace_line tr buf =
     (case parse_line buf of
        Line_Skipped \<Rightarrow> Some ([], None)
      | Line_Throws \<Rightarrow> Some ([], Some Range_Error)
      | Line_Require val \<Rightarrow> tr val
      | Line_Include val \<Rightarrow>
          (case tr val of
             Some (evs, Some (Runtime_Error e)) \<Rightarrow> Some (evs, None)
           | r \<Rightarrow> r)
      | Line_Setting key val \<Rightarrow> Some ([Assigned key val], None))"

fun trace_lines :: "(string \<Rightarrow> trace_result) \<Rightarrow> string list \<Rightarrow> trace_result" where
  "trace_lines tr [] = Some ([], None)"
| "trace_lines tr (buf # bufs) =
     (case trace_line tr buf of
        Some (evs, None) \<Rightarrow> map_option (apfst ((@) evs)) (trace_lines tr bufs)
      | r \<Rightarrow> r)"

primrec config_trace :: "nat \<Rightarrow> (string \<rightharpoonup> string) \<Rightarrow> string \<Rightarrow> trace_result" where
  "config_trace 0 files filename = None"
| "config_trace (Suc n) files filename =
     (case files filename of
        None \<Rightarrow> Some ([Opened filename],
                   Some (Runtime_Error (''Configuration file not found: '' @ filename)))
      | Some text \<Rightarrow>
          map_option (apfst ((#) (Opened filename))) (trace_lines (config_trace n files) (fgets_lines text)))"

fun apply_event :: "environment \<Rightarrow> config_event \<Rightarrow> config \<Rightarrow> config" where
  "apply_event env (Opened filename) c = c\<lparr>cfg_loaded := [], cfg_filename := filename\<rparr>"
| "apply_event env (Assigned key val) c = config_assign env key (VString val) c"

definition run_events :: "environment \<Rightarrow> config_event list \<Rightarrow> config \<Rightarrow> config" where
  "run_events env evs c = fold (apply_event env) evs c"

lemma run_events_simps [simp]:
  "run_events env [] c = c"
  "run_events env (ev # evs) c = run_events env evs (apply_event env ev c)"
  "run_events env (evs @ evs') c = run_events env evs' (run_events env evs c)"
  by (simp_all add: run_events_def)

abbreviation outcome ::
  "environment \<Rightarrow> config \<Rightarrow> trace_result \<Rightarrow> read_result" where
  "outcome env c \<equiv> map_option (\<lambda>(evs, ex). (run_events env evs c, ex))"

lemma read_line_trace:
  assumes "\<And>f c. rd f c = outcome env c (tr f)"
  shows "read_line rd env buf c = outcome env c (trace_line tr buf)"
  by (auto simp: read_line_def trace_line_def assms
      split: config_entry.split option.split prod.split config_exn.split)

lemma read_lines_trace:
  assumes "\<And>f c. rd f c = outcome env c (tr f)"
  shows "read_lines rd env bufs c = outcome env c (trace_lines tr bufs)"
proof (induction bufs arbitrary: c)
  case (Cons buf bufs)
  show ?case
    unfolding read_lines.simps trace_lines.simps read_line_trace [of rd env tr, OF assms]
    using Cons by (auto simp: option.map_comp comp_def apfst_def map_prod_def
        split: option.split prod.split intro!: map_option_cong)
qed simp

lemma read_config_trace:
  "read_config n files env filename c = outcome env c (config_trace n files filename)"
proof (induction n arbitrary: filename c)
  case (Suc n)
  show ?case
    using read_lines_trace [of "read_config n files env" env "config_trace n files", OF Suc]
    by (auto simp: Let_def option.map_comp comp_def apfst_def map_prod_def
        split: option.split intro!: map_option_cong)
qed simp

fun assigned :: "string \<Rightarrow> config_event \<Rightarrow> string option" where
  "assigned key (Opened f) = None"
| "assigned key (Assigned k v) = (if k = key then Some v else None)"

definition last_assigned :: "string \<Rightarrow> config_event list \<Rightarrow> string option" where
  "last_assigned key evs = fold (\<lambda>ev r. case assigned key ev of None \<Rightarrow> r | Some v \<Rightarrow> Some v) evs None"

fun is_opened :: "config_event \<Rightarrow> bool" where
  "is_opened (Opened f) = True"
| "is_opened (Assigned k v) = False"

definition after_last_open :: "config_event list \<Rightarrow> config_event list" where
  "after_last_open evs = rev (takeWhile (\<lambda>ev. \<not> is_opened ev) (rev evs))"

definition effective_value :: "environment \<Rightarrow> config_event list \<Rightarrow> string \<Rightarrow> variant" where
  "effective_value env evs key =
     (case last_assigned key (after_last_open evs) of
        Some v \<Rightarrow> VString v
      | None \<Rightarrow>
          if config_fromenv env key \<noteq> '''' then VString (config_fromenv env key)
          else case last_assigned key evs of Some v \<Rightarrow> VString v | None \<Rightarrow> VInt 0)"

lemma last_assigned_snoc [simp]:
  "last_assigned key [] = None"
  "last_assigned key (evs @ [ev]) =
     (case assigned key ev of None \<Rightarrow> last_assigned key evs | Some v \<Rightarrow> Some v)"
  by (simp_all add: last_assigned_def split: option.split)

lemma after_last_open_snoc [simp]:
  "after_last_open [] = []"
  "after_last_open (evs @ [ev]) = (if is_opened ev then [] else after_last_open evs @ [ev])"
  by (simp_all add: after_last_open_def)

lemma config_assign_sel [simp]:
  "cfg_values (config_assign env key v c) k =
     (if k = key then Some v else cfg_values c k)"
  "set (cfg_loaded (config_assign env key v c)) = insert key (set (cfg_loaded c))"
  by (auto simp: config_assign_def load_from_environment_def Let_def)

lemma run_events_state:
  "cfg_values (run_events env evs config_empty) key = map_option VString (last_assigned key evs)
   \<and> (key \<in> set (cfg_loaded (run_events env evs config_empty))
        \<longleftrightarrow> last_assigned key (after_last_open evs) \<noteq> None)"
proof (induction evs rule: rev_induct)
  case (snoc ev evs)
  then show ?case by (cases ev) auto
qed (simp add: config_empty_def)

lemma config_lookup_effective:
  "fst (config_lookup env key (run_events env evs config_empty)) = effective_value env evs key"
proof (cases "last_assigned key (after_last_open evs)")
  case None
  then show ?thesis using run_events_state [of env evs key]
    by (auto simp: config_lookup_def load_from_environment_def effective_value_def Let_def
        split: option.split)
next
  case (Some v)
  moreover from this have "last_assigned key evs = Some v"
  proof (induction evs rule: rev_induct)
    case (snoc ev evs)
    then show ?case by (cases ev) (auto split: if_splits)
  qed simp
  ultimately show ?thesis using run_events_state [of env evs key]
    by (auto simp: config_lookup_def load_from_environment_def effective_value_def Let_def)
qed

text \<open>C22: Reading a configuration does what its trace says: a later assignment of a key wins over an
  earlier one, and an environment variable that is set and not empty wins over every assignment
  made before the last file was opened, found or not. It does not win over the assignments after
  that: \<open>Read\<close> clears \<open>loadedEnvs\<close>, and an assignment marks its key as looked up.\<close>

theorem read_config_effective:
  assumes "read_config n files env filename config_empty = Some (c, ex)"
  shows "\<exists>evs. config_trace n files filename = Some (evs, ex)
    \<and> (\<forall>key. fst (config_lookup env key c) = effective_value env evs key)"
  using assms config_lookup_effective unfolding read_config_trace by auto

definition sample_files :: "string \<rightharpoonup> string" where
  "sample_files =
     [''config.ini'' \<mapsto> ''Name = a
Port = 8078
INCLUDE = server.ini
INCLUDE_NOWARN = local.ini
Host=0.0.0.0'',
      ''server.ini'' \<mapsto> ''# server
Port = 8079'']"

definition sample_env :: environment where
  "sample_env = [''ETHEOS_NAME'' \<mapsto> ''b'', ''ETHEOS_HOST'' \<mapsto> ''::'']"

theorem read_config_effective_witness:
  "\<exists>c evs. read_config 2 sample_files sample_env ''config.ini'' config_empty = Some (c, None)
    \<and> config_trace 2 sample_files ''config.ini'' = Some (evs, None)
    \<and> fst (config_lookup sample_env ''Name'' c) = VString ''b''
    \<and> fst (config_lookup sample_env ''Port'' c) = VString ''8079''
    \<and> fst (config_lookup sample_env ''Host'' c) = VString ''0.0.0.0''"
proof -
  let ?evs = "[Opened ''config.ini'', Assigned ''Name'' ''a'', Assigned ''Port'' ''8078'',
    Opened ''server.ini'', Assigned ''Port'' ''8079'', Opened ''local.ini'',
    Assigned ''Host'' ''0.0.0.0'']"
  let ?c = "run_events sample_env ?evs config_empty"
  have tr: "config_trace 2 sample_files ''config.ini'' = Some (?evs, None)" by code_simp
  then have rd: "read_config 2 sample_files sample_env ''config.ini'' config_empty = Some (?c, None)"
    unfolding read_config_trace by simp
  have "effective_value sample_env ?evs ''Name'' = VString ''b''"
    "effective_value sample_env ?evs ''Port'' = VString ''8079''"
    "effective_value sample_env ?evs ''Host'' = VString ''0.0.0.0''" by code_simp+
  with read_config_effective [OF rd] tr rd show ?thesis by auto
qed

section \<open>Reading returns\<close>

lemma read_lines_returns:
  assumes "\<And>buf val c. buf \<in> set bufs \<Longrightarrow>
      parse_line buf = Line_Require val \<or> parse_line buf = Line_Include val \<Longrightarrow> rd val c \<noteq> None"
  shows "read_lines rd env bufs c \<noteq> None"
  using assms
proof (induction bufs arbitrary: c)
  case (Cons buf bufs)
  have "read_line rd env buf c \<noteq> None"
    using Cons.prems [of buf] by (cases "parse_line buf")
      (fastforce simp: read_line_def split: option.split config_exn.split)+
  moreover have "read_lines rd env bufs c' \<noteq> None" for c'
    using Cons by (meson list.set_intros(2))
  ultimately show ?case by (auto split: option.split)
qed simp

text \<open>C23: Reading returns when the files include each other without a cycle: \<open>depth\<close> falls from a
  file to every file that one of its lines requires or includes. A missing file and the exception
  of a required one are among the results.\<close>

theorem read_config_returns:
  assumes "\<And>f body buf val. files f = Some body \<Longrightarrow> buf \<in> set (fgets_lines body) \<Longrightarrow>
      parse_line buf = Line_Require val \<or> parse_line buf = Line_Include val \<Longrightarrow> depth val < depth f"
    and "depth filename < n"
  shows "\<exists>c' ex. read_config n files env filename c = Some (c', ex)"
  using assms(2)
proof (induction n arbitrary: filename c)
  case (Suc n)
  show ?case
  proof (cases "files filename")
    case (Some body)
    let ?c1 = "c\<lparr>cfg_loaded := [], cfg_filename := filename\<rparr>"
    have "read_lines (read_config n files env) env (fgets_lines body) ?c1 \<noteq> None"
    proof (rule read_lines_returns)
      fix buf val c
      assume "buf \<in> set (fgets_lines body)"
        "parse_line buf = Line_Require val \<or> parse_line buf = Line_Include val"
      then have "depth val < n" using assms(1) [OF Some] Suc.prems by fastforce
      from Suc.IH [OF this] show "read_config n files env val c \<noteq> None" by force
    qed
    with Some show ?thesis by (simp add: Let_def)
  qed (simp add: Let_def)
qed simp

theorem read_config_returns_witness:
  "\<exists>c' ex. read_config 2 sample_files sample_env ''config.ini'' config_empty = Some (c', ex)"
proof (rule read_config_returns [where depth = "\<lambda>f. if f = ''config.ini'' then 1 else 0"])
  fix f body buf val
  have 1: "map parse_line (fgets_lines (the (sample_files ''config.ini''))) =
      [Line_Setting ''Name'' ''a'', Line_Setting ''Port'' ''8078'', Line_Include ''server.ini'',
       Line_Include ''local.ini'', Line_Setting ''Host'' ''0.0.0.0'']"
    and 2: "map parse_line (fgets_lines (the (sample_files ''server.ini''))) =
      [Line_Skipped, Line_Setting ''Port'' ''8079'']"
    by code_simp+
  assume "sample_files f = Some body" and b: "buf \<in> set (fgets_lines body)"
    and p: "parse_line buf = Line_Require val \<or> parse_line buf = Line_Include val"
  then consider "f = ''config.ini''" "body = the (sample_files ''config.ini'')"
    | "f = ''server.ini''" "body = the (sample_files ''server.ini'')"
    by (auto simp: sample_files_def split: if_splits)
  then show "(if val = ''config.ini'' then 1 else 0) < (if f = ''config.ini'' then 1 else 0 :: nat)"
  proof cases
    case 1
    then have "parse_line buf \<in> set (map parse_line (fgets_lines (the (sample_files ''config.ini''))))"
      using b by simp
    then show ?thesis unfolding \<open>map parse_line (fgets_lines (the (sample_files ''config.ini''))) = _\<close>
      using p 1 by auto
  next
    case 2
    then have "parse_line buf \<in> set (map parse_line (fgets_lines (the (sample_files ''server.ini''))))"
      using b by simp
    then show ?thesis unfolding \<open>map parse_line (fgets_lines (the (sample_files ''server.ini''))) = _\<close>
      using p by auto
  qed
qed simp

end
