(* ===== verification/EOPlus_Context.thy ===== *)
theory EOPlus_Context
  imports EOPlus_Lexer
begin

text \<open>
  Running a quest (\<^verbatim>\<open>src/eoplus/context.cpp\<close>): a context is in a state of the quest; entering a state runs its
  actions and then looks for a rule that holds. The virtual functions of \<open>Context\<close> are an interface: what
  \<open>BeginState\<close> does, whether a rule holds, and what an action does. An action may enter another state,
  so that the functions are recursive; \<open>recursive_depth\<close>, a counter shared by all contexts, is meant to
  bound that. An action may also take the context from its character (\<open>ResetQuest\<close>): the map of the
  character's quests forgets it, while whoever runs it holds a copy of the shared pointer, so that the
  run goes on with a context that the character no longer has. The model follows one context; what its
  actions do to the character's other quests it does not.
\<close>

section \<open>Contexts\<close>

datatype quest_exn =
    Unknown_State string | No_State | Too_Deep | Runtime string | Missing_Arg | Undefined

text \<open>
  What \<open>DoAction\<close> does beside changing the world: return or throw; enter a state of its context and return
  \<open>true\<close>; enter a state if the context is done, and return \<open>false\<close>; take the context from its character and
  return \<open>true\<close>; go one way if the character has the context and another if not; have the rules of the
  character's quests checked and go on; gain the levels that the character has the experience for, with
  the rules checked after each, and go on knowing whether there were any.
\<close>

datatype 'w prog =
    Done 'w "quest_exn + bool"
  | Enter 'w string
  | Restart 'w string
  | Detach 'w
  | Attached "'w prog" "'w prog"
  | Recheck 'w "'w \<Rightarrow> 'w prog"
  | Gain 'w "bool \<times> 'w \<Rightarrow> 'w prog"

text \<open>\<open>if_gain\<close> is one round of the loop that gains levels: nothing if there is none to gain.\<close>

record 'w iface =
  if_begin :: "string \<Rightarrow> quest_state \<Rightarrow> 'w \<Rightarrow> 'w \<times> quest_exn option"
  if_check :: "expression \<Rightarrow> 'w \<Rightarrow> 'w \<times> (quest_exn + bool)"
  if_act :: "action \<Rightarrow> 'w \<Rightarrow> 'w prog"
  if_gain :: "'w \<Rightarrow> 'w option"

text \<open>\<open>cx_attached\<close>: the character's map of quests has this context.\<close>

record 'w cx =
  cx_state :: "quest_state option"
  cx_name :: string
  cx_finished :: bool
  cx_attached :: bool
  cx_depth :: int
  cx_world :: 'w

datatype outcome = Ret bool | Exn quest_exn

datatype call = Set_State string bool | Do_Actions | Check_Rules | Gain_Levels

type_synonym 'w step = "('w cx \<times> outcome) option"

definition max_recursion :: int where
  "max_recursion = 100"

definition context_new :: "'w \<Rightarrow> 'w cx" where
  "context_new w = \<lparr>cx_state = None, cx_name = [], cx_finished = False, cx_attached = True, cx_depth = 0, cx_world = w\<rparr>"

definition enter_depth :: "'w cx \<Rightarrow> 'w cx" where
  "enter_depth c = c\<lparr>cx_depth := cx_depth c + 1\<rparr>"

definition leave_depth :: "'w cx \<Rightarrow> 'w cx" where
  "leave_depth c = c\<lparr>cx_depth := cx_depth c - 1\<rparr>"

section \<open>The functions\<close>

text \<open>A step is \<open>None\<close> when it does not return.\<close>

definition and_then :: "'w step \<Rightarrow> ('w cx \<Rightarrow> bool \<Rightarrow> 'w step) \<Rightarrow> 'w step" where
  "and_then r k = (case r of None \<Rightarrow> None | Some (c, Exn x) \<Rightarrow> Some (c, Exn x) | Some (c, Ret b) \<Rightarrow> k c b)"

text \<open>\<open>rec\<close> is the recursive call. \<open>CheckQuestRules\<close> skips the quests that the character no longer has.\<close>

definition recheck :: "(call \<Rightarrow> 'w cx \<Rightarrow> 'w step) \<Rightarrow> 'w cx \<Rightarrow> 'w step" where
  "recheck rec c = (if cx_attached c then rec Check_Rules c else Some (c, Ret False))"

primrec run_prog :: "(call \<Rightarrow> 'w cx \<Rightarrow> 'w step) \<Rightarrow> 'w prog \<Rightarrow> 'w cx \<Rightarrow> 'w step" where
  "run_prog rec (Done w r) = (\<lambda>c. Some (c\<lparr>cx_world := w\<rparr>, case r of Inl x \<Rightarrow> Exn x | Inr b \<Rightarrow> Ret b))"
| "run_prog rec (Enter w s) =
     (\<lambda>c. and_then (rec (Set_State s True) (c\<lparr>cx_world := w\<rparr>)) (\<lambda>c _. Some (c, Ret True)))"
| "run_prog rec (Restart w s) =
     (\<lambda>c. if cx_name c = ''done''
          then and_then (rec (Set_State s True) (c\<lparr>cx_world := w\<rparr>)) (\<lambda>c _. Some (c, Ret False))
          else Some (c\<lparr>cx_world := w\<rparr>, Ret False))"
| "run_prog rec (Detach w) = (\<lambda>c. Some (c\<lparr>cx_world := w, cx_attached := False\<rparr>, Ret True))"
| "run_prog rec (Attached p p') = (\<lambda>c. if cx_attached c then run_prog rec p c else run_prog rec p' c)"
| "run_prog rec (Recheck w k) =
     (\<lambda>c. and_then (recheck rec (c\<lparr>cx_world := w\<rparr>)) (\<lambda>c _. run_prog rec (k (cx_world c)) c))"
| "run_prog rec (Gain w k) =
     (\<lambda>c. and_then (rec Gain_Levels (c\<lparr>cx_world := w\<rparr>)) (\<lambda>c b. run_prog rec (k (b, cx_world c)) c))"

definition gain_levels :: "'w iface \<Rightarrow> (call \<Rightarrow> 'w cx \<Rightarrow> 'w step) \<Rightarrow> 'w cx \<Rightarrow> 'w step" where
  "gain_levels i rec c =
     (case if_gain i (cx_world c) of
        None \<Rightarrow> Some (c, Ret False)
      | Some w \<Rightarrow>
          and_then (recheck rec (c\<lparr>cx_world := w\<rparr>))
            (\<lambda>c _. and_then (rec Gain_Levels c) (\<lambda>c _. Some (c, Ret True))))"

definition cx_do_action :: "'w iface \<Rightarrow> (call \<Rightarrow> 'w cx \<Rightarrow> 'w step) \<Rightarrow> action \<Rightarrow> 'w cx \<Rightarrow> 'w step" where
  "cx_do_action i rec a c = run_prog rec (if_act i a (cx_world c)) c"

definition cx_check_rule :: "'w iface \<Rightarrow> expression \<Rightarrow> 'w cx \<Rightarrow> 'w step" where
  "cx_check_rule i e c =
     (case if_check i e (cx_world c) of
        (w, r) \<Rightarrow> Some (c\<lparr>cx_world := w\<rparr>, case r of Inl x \<Rightarrow> Exn x | Inr b \<Rightarrow> Ret b))"

text \<open>The local function \<open>do_action\<close> of \<open>DoActions\<close>: when the action returns \<open>true\<close>, it takes back the
  depth and returns, but only from itself; the loop goes on.\<close>

definition loop_action :: "'w iface \<Rightarrow> (call \<Rightarrow> 'w cx \<Rightarrow> 'w step) \<Rightarrow> action \<Rightarrow> 'w cx \<Rightarrow> 'w step" where
  "loop_action i rec a c =
     and_then (cx_do_action i rec a c) (\<lambda>c left. Some (if left then leave_depth c else c, Ret left))"

fun action_loop ::
  "'w iface \<Rightarrow> (call \<Rightarrow> 'w cx \<Rightarrow> 'w step) \<Rightarrow> action list \<Rightarrow> bool \<Rightarrow> 'w cx \<Rightarrow> 'w step" where
  "action_loop i rec [] last_cond c = Some (c, Ret False)"
| "action_loop i rec (a # as) last_cond c =
     (if (ac_cond a = Cond_ElseIf \<or> ac_cond a = Cond_Else) \<and> last_cond then action_loop i rec as last_cond c
      else if ac_cond a = Cond_If \<or> ac_cond a = Cond_ElseIf
      then and_then (cx_check_rule i (ac_cond_expr a) c)
             (\<lambda>c b. if b then and_then (loop_action i rec a c) (\<lambda>c _. action_loop i rec as True c)
                    else action_loop i rec as False c)
      else and_then (loop_action i rec a c) (\<lambda>c _. action_loop i rec as last_cond c))"

fun rule_loop :: "'w iface \<Rightarrow> (call \<Rightarrow> 'w cx \<Rightarrow> 'w step) \<Rightarrow> rule list \<Rightarrow> 'w cx \<Rightarrow> 'w step" where
  "rule_loop i rec [] c = Some (c, Ret False)"
| "rule_loop i rec (r # rs) c =
     and_then (cx_check_rule i (ru_expr r) c)
       (\<lambda>c b. if b
              then and_then (cx_do_action i rec (ru_action r) c)
                     (\<lambda>c left. if left then Some (c, Ret True) else rule_loop i rec rs c)
              else rule_loop i rec rs c)"

text \<open>The guard around both loops.\<close>

definition guarded :: "('w cx \<Rightarrow> 'w step) \<Rightarrow> 'w cx \<Rightarrow> 'w step" where
  "guarded body c =
     (if max_recursion < cx_depth c + 1 then Some (c, Exn Too_Deep)
      else map_option (\<lambda>(c1, r). (leave_depth c1, r)) (body (enter_depth c)))"

definition check_rules :: "'w iface \<Rightarrow> (call \<Rightarrow> 'w cx \<Rightarrow> 'w step) \<Rightarrow> 'w cx \<Rightarrow> 'w step" where
  "check_rules i rec c =
     (case cx_state c of
        None \<Rightarrow> if cx_finished c then Some (c, Ret False) else Some (c, Exn No_State)
      | Some s \<Rightarrow> guarded (rule_loop i rec (qs_rules s)) c)"

definition do_actions :: "'w iface \<Rightarrow> (call \<Rightarrow> 'w cx \<Rightarrow> 'w step) \<Rightarrow> 'w cx \<Rightarrow> 'w step" where
  "do_actions i rec c =
     (case cx_state c of
        None \<Rightarrow> if cx_finished c then Some (c, Ret False) else Some (c, Exn No_State)
      | Some s \<Rightarrow>
          and_then (guarded (action_loop i rec (qs_actions s) False) c) (\<lambda>c _. check_rules i rec c))"

definition set_state ::
  "'w iface \<Rightarrow> quest \<Rightarrow> (call \<Rightarrow> 'w cx \<Rightarrow> 'w step) \<Rightarrow> string \<Rightarrow> bool \<Rightarrow> 'w cx \<Rightarrow> 'w step" where
  "set_state i q rec name actions c =
     (let state_id = lowercase name;
          over = (state_id = ''end'' \<or> state_id = ''done'');
          c1 = (if over then c\<lparr>cx_name := state_id, cx_state := None, cx_finished := True\<rparr>
                else c\<lparr>cx_name := state_id\<rparr>)
      in case qu_states q state_id of
           None \<Rightarrow> if over then Some (c1, Ret False) else Some (c1, Exn (Unknown_State state_id))
         | Some s \<Rightarrow>
             (case if_begin i name s (cx_world c) of
                (w, err) \<Rightarrow>
                  let c2 = c1\<lparr>cx_finished := (state_id = ''end''), cx_state := Some s, cx_world := w\<rparr>
                  in case err of
                       Some x \<Rightarrow> Some (c2, Exn x)
                     | None \<Rightarrow> if actions then do_actions i rec c2 else Some (c2, Ret False)))"

text \<open>The recursion with a bound \<open>n\<close> on the nesting of calls.\<close>

primrec exec :: "'w iface \<Rightarrow> quest \<Rightarrow> nat \<Rightarrow> call \<Rightarrow> 'w cx \<Rightarrow> 'w step" where
  "exec i q 0 cl c = None"
| "exec i q (Suc n) cl c =
     (case cl of
        Set_State s b \<Rightarrow> set_state i q (exec i q n) s b c
      | Do_Actions \<Rightarrow> do_actions i (exec i q n) c
      | Check_Rules \<Rightarrow> check_rules i (exec i q n) c
      | Gain_Levels \<Rightarrow> gain_levels i (exec i q n) c)"

definition get_goal :: "'w cx \<Rightarrow> rule option" where
  "get_goal c =
     (case cx_state c of
        None \<Rightarrow> None
      | Some s \<Rightarrow> if qs_rules s = [] then None else Some (qs_rules s ! qs_goal_rule s))"

text \<open>The first rule with a given name whose arguments pass a test; the test may fail to read them.\<close>

fun find_rule :: "string \<Rightarrow> (variant list \<Rightarrow> quest_exn + bool) \<Rightarrow> rule list \<Rightarrow> quest_exn + rule option" where
  "find_rule name arg_check [] = Inr None"
| "find_rule name arg_check (r # rs) =
     (if ex_function (ru_expr r) = name
      then (case arg_check (ex_args (ru_expr r)) of
              Inl x \<Rightarrow> Inl x
            | Inr b \<Rightarrow> if b then Inr (Some r) else find_rule name arg_check rs)
      else find_rule name arg_check rs)"

definition query_rule :: "string \<Rightarrow> (variant list \<Rightarrow> quest_exn + bool) \<Rightarrow> 'w cx \<Rightarrow> quest_exn + bool" where
  "query_rule name arg_check c =
     (case cx_state c of
        None \<Rightarrow> Inr False
      | Some s \<Rightarrow>
          (case find_rule name arg_check (qs_rules s) of
             Inl x \<Rightarrow> Inl x | Inr None \<Rightarrow> Inr False | Inr (Some r) \<Rightarrow> Inr True))"

definition trigger_rule ::
  "'w iface \<Rightarrow> quest \<Rightarrow> nat \<Rightarrow> string \<Rightarrow> (variant list \<Rightarrow> quest_exn + bool) \<Rightarrow> 'w cx \<Rightarrow> 'w step" where
  "trigger_rule i q n name arg_check c =
     (case cx_state c of
        None \<Rightarrow> Some (c, Ret False)
      | Some s \<Rightarrow>
          (case find_rule name arg_check (qs_rules s) of
             Inl x \<Rightarrow> Some (c, Exn x)
           | Inr None \<Rightarrow> Some (c, Ret False)
           | Inr (Some r) \<Rightarrow> and_then (cx_do_action i (exec i q n) (ru_action r) c) (\<lambda>c _. Some (c, Ret True))))"

section \<open>The guard, where it works\<close>

text \<open>An action that gains no levels; one that also stays in its state. Both may have the rules checked.\<close>

primrec steady :: "'w prog \<Rightarrow> bool" where
  "steady (Done w r) = True"
| "steady (Enter w s) = True"
| "steady (Restart w s) = True"
| "steady (Detach w) = True"
| "steady (Attached p p') = (steady p \<and> steady p')"
| "steady (Recheck w k) = (\<forall>w. steady (k w))"
| "steady (Gain w k) = False"

primrec stays :: "'w prog \<Rightarrow> bool" where
  "stays (Done w r) = (\<exists>x. r = Inl x \<or> r = Inr False)"
| "stays (Enter w s) = False"
| "stays (Restart w s) = False"
| "stays (Detach w) = False"
| "stays (Attached p p') = (stays p \<and> stays p')"
| "stays (Recheck w k) = (\<forall>w. stays (k w))"
| "stays (Gain w k) = False"

lemma stays_steady: "stays p \<Longrightarrow> steady p"
  by (induction p) auto

definition quiet_actions :: "'w iface \<Rightarrow> quest \<Rightarrow> bool" where
  "quiet_actions i q \<longleftrightarrow>
     (\<forall>name s. qu_states q name = Some s \<longrightarrow>
        (\<forall>a\<in>set (qs_actions s). \<forall>w. stays (if_act i a w))
        \<and> (\<forall>r\<in>set (qs_rules s). \<forall>w. steady (if_act i (ru_action r) w)))"

text \<open>The context is in a state of the quest.\<close>

definition cx_in :: "quest \<Rightarrow> 'w cx \<Rightarrow> bool" where
  "cx_in q c \<longleftrightarrow> (\<forall>s. cx_state c = Some s \<longrightarrow> (\<exists>name. qu_states q name = Some s))"

text \<open>A call that returns, in a state of the quest, with the given depth.\<close>

definition returns :: "quest \<Rightarrow> int \<Rightarrow> 'w step \<Rightarrow> bool" where
  "returns q n r \<longleftrightarrow> (\<exists>c out. r = Some (c, out) \<and> cx_depth c = n \<and> cx_in q c)"

lemma returns_Some [simp]: "returns q n (Some (c, out)) \<longleftrightarrow> cx_depth c = n \<and> cx_in q c"
  by (auto simp: returns_def)

lemma returnsE:
  assumes "returns q n r"
  obtains c out where "r = Some (c, out)" "cx_depth c = n" "cx_in q c"
  using assms by (auto simp: returns_def)

lemma returns_and_then:
  assumes "returns q n r" and "\<And>c b. cx_depth c = n \<Longrightarrow> cx_in q c \<Longrightarrow> returns q n (k c b)"
  shows "returns q n (and_then r k)"
  using assms(1) by (rule returnsE) (auto simp: and_then_def assms(2) split: outcome.splits)

lemma cx_in_updates [simp]:
  "cx_in q (c\<lparr>cx_world := w\<rparr>) = cx_in q c" "cx_in q (c\<lparr>cx_attached := l\<rparr>) = cx_in q c"
  "cx_in q (enter_depth c) = cx_in q c" "cx_in q (leave_depth c) = cx_in q c"
  by (simp_all add: cx_in_def enter_depth_def leave_depth_def)

lemma depth_updates [simp]:
  "cx_depth (enter_depth c) = cx_depth c + 1" "cx_depth (leave_depth c) = cx_depth c - 1"
  by (simp_all add: enter_depth_def leave_depth_def)

lemma guarded_returns:
  assumes "cx_in q c" "cx_depth c = n"
    and "n < max_recursion \<Longrightarrow> returns q (n + 1) (body (enter_depth c))"
  shows "returns q n (guarded body c)"
  using assms by (auto simp: guarded_def elim!: returnsE)

lemma check_rule_returns:
  assumes "cx_in q c" "cx_depth c = n"
  shows "returns q n (cx_check_rule i e c)"
  using assms by (auto simp: cx_check_rule_def split: prod.splits)

text \<open>What holds below a call whose own recursive calls return.\<close>

definition serves :: "quest \<Rightarrow> int \<Rightarrow> (call \<Rightarrow> 'w cx \<Rightarrow> 'w step) \<Rightarrow> bool" where
  "serves q n rec \<longleftrightarrow>
     (\<forall>cl d. cl \<noteq> Gain_Levels \<longrightarrow> cx_in q d \<longrightarrow> cx_depth d = n \<longrightarrow> returns q n (rec cl d))"

lemma servesD: "serves q n rec \<Longrightarrow> cl \<noteq> Gain_Levels \<Longrightarrow> cx_in q d \<Longrightarrow> cx_depth d = n \<Longrightarrow> returns q n (rec cl d)"
  by (simp add: serves_def)

lemma recheck_returns:
  "serves q n rec \<Longrightarrow> cx_in q c \<Longrightarrow> cx_depth c = n \<Longrightarrow> returns q n (recheck rec c)"
  by (simp add: recheck_def servesD)

lemma run_prog_returns:
  assumes rec: "serves q n rec" and "steady p" "cx_in q c" "cx_depth c = n"
  shows "returns q n (run_prog rec p c)"
  using assms(2-4)
proof (induction p arbitrary: c)
  case (Recheck w k)
  show ?case unfolding run_prog.simps
    by (rule returns_and_then [OF recheck_returns [OF rec]])
      (use Recheck.prems in \<open>simp_all add: Recheck.IH [OF rangeI]\<close>)
qed (simp_all add: returns_and_then servesD [OF rec])

lemma do_action_returns:
  assumes "serves q n rec" "\<And>w. steady (if_act i a w)" "cx_in q c" "cx_depth c = n"
  shows "returns q n (cx_do_action i rec a c)"
  unfolding cx_do_action_def using assms by (intro run_prog_returns)

lemma rule_loop_returns:
  assumes rec: "serves q n rec" and "\<forall>r\<in>set rs. \<forall>w. steady (if_act i (ru_action r) w)"
    and "cx_in q c" "cx_depth c = n"
  shows "returns q n (rule_loop i rec rs c)"
  using assms(2-4)
proof (induction rs arbitrary: c)
  case (Cons r rs)
  show ?case unfolding rule_loop.simps
    by (intro returns_and_then check_rule_returns Cons.prems(2,3))
      (use Cons.prems(1) in \<open>simp add: Cons.IH returns_and_then do_action_returns [OF rec]\<close>)
qed simp

lemma stays_left:
  "stays p \<Longrightarrow> run_prog rec p c = Some (d, Ret b) \<Longrightarrow> \<not> b"
proof (induction p arbitrary: c)
  case (Recheck w k)
  then show ?case
    using Recheck.IH [OF rangeI] by (auto simp: and_then_def split: option.splits outcome.splits)
qed (auto simp: and_then_def split: option.splits outcome.splits if_splits)

lemma quiet_loop_returns:
  assumes rec: "serves q n rec"
    and "\<And>a w. a \<in> set as \<Longrightarrow> stays (if_act i a w)"
    and "cx_in q c" "cx_depth c = n"
  shows "returns q n (action_loop i rec as b c)"
  using assms(2-4)
proof (induction as arbitrary: b c)
  case (Cons a as)
  have act: "returns q n (loop_action i rec a d)" if "cx_in q d" "cx_depth d = n" for d
  proof -
    have "returns q n (cx_do_action i rec a d)"
      using Cons.prems(1) that by (intro do_action_returns rec stays_steady) simp_all
    then show ?thesis
    proof (rule returnsE)
      fix c' out
      assume r: "cx_do_action i rec a d = Some (c', out)" "cx_depth c' = n" "cx_in q c'"
      have "\<not> b" if "out = Ret b" for b
        using stays_left [OF Cons.prems(1) [of a "cx_world d"], of rec d c' b] r(1) that
        by (simp add: cx_do_action_def)
      with r show ?thesis by (cases out) (auto simp: loop_action_def and_then_def)
    qed
  qed
  have IH: "returns q n (action_loop i rec as b' d)" if "cx_in q d" "cx_depth d = n" for b' d
    using Cons.prems(1) that by (intro Cons.IH) auto
  show ?case unfolding action_loop.simps
    using Cons.prems(2,3) by (simp add: returns_and_then check_rule_returns act IH)
qed simp

lemma check_rules_returns:
  assumes quiet: "quiet_actions i q" and rec: "n < max_recursion \<Longrightarrow> serves q (n + 1) rec"
    and c: "cx_in q c" "cx_depth c = n"
  shows "returns q n (check_rules i rec c)"
proof (cases "cx_state c")
  case (Some s)
  with quiet c have rules: "\<forall>r\<in>set (qs_rules s). \<forall>w. steady (if_act i (ru_action r) w)"
    by (force simp: quiet_actions_def cx_in_def)
  have "returns q n (guarded (rule_loop i rec (qs_rules s)) c)"
    by (rule guarded_returns [OF c], rule rule_loop_returns) (use rules c rec in auto)
  with Some show ?thesis by (simp add: check_rules_def)
qed (use c in \<open>simp add: check_rules_def\<close>)

lemma do_actions_returns:
  assumes quiet: "quiet_actions i q" and rec: "n < max_recursion \<Longrightarrow> serves q (n + 1) rec"
    and c: "cx_in q c" "cx_depth c = n"
  shows "returns q n (do_actions i rec c)"
proof (cases "cx_state c")
  case (Some s)
  with quiet c have acts: "\<And>a w. a \<in> set (qs_actions s) \<Longrightarrow> stays (if_act i a w)"
    by (force simp: quiet_actions_def cx_in_def)
  have "returns q n (guarded (action_loop i rec (qs_actions s) False) c)"
    by (rule guarded_returns [OF c], rule quiet_loop_returns) (use acts c rec in auto)
  then show ?thesis
    unfolding do_actions_def Some option.case
    using c rec by (intro returns_and_then check_rules_returns [OF quiet])
qed (use c in \<open>simp add: do_actions_def\<close>)

lemma set_state_returns:
  assumes "\<And>d. cx_in q d \<Longrightarrow> cx_depth d = n \<Longrightarrow> returns q n (do_actions i rec d)"
    and c: "cx_in q c" "cx_depth c = n"
  shows "returns q n (set_state i q rec s b c)"
proof -
  have fields: "cx_in q (c\<lparr>cx_name := m, cx_state := None, cx_finished := f\<rparr>)" "cx_in q (c\<lparr>cx_name := m\<rparr>)"
    for m f
    using c by (simp_all add: cx_in_def)
  have acts: "cx_in q d \<and> cx_depth d = n \<and> returns q n (do_actions i rec d)"
    if "cx_state d = qu_states q m" "cx_depth d = n" for d m
    using that assms(1) [of d] by (auto simp: cx_in_def)
  show ?thesis
    unfolding set_state_def Let_def
    using c fields acts [of _ "lowercase s"] by (simp split: option.splits prod.splits)
qed

text \<open>Nesting a hundred and one calls deep is enough.\<close>

lemma exec_returns:
  assumes quiet: "quiet_actions i q"
  shows "cl \<noteq> Gain_Levels \<Longrightarrow> cx_in q c \<Longrightarrow> cx_depth c = n \<Longrightarrow> max_recursion \<le> n + int k \<Longrightarrow>
    returns q n (exec i q (Suc k) cl c)"
proof (induction k arbitrary: c n cl)
  case 0
  then show ?case
    by (cases cl) (simp_all add: check_rules_returns [OF quiet] do_actions_returns [OF quiet] set_state_returns)
next
  case (Suc k)
  have rec: "serves q (n + 1) (exec i q (Suc k))"
    unfolding serves_def using Suc.prems by (intro allI impI Suc.IH) simp_all
  note returns = check_rules_returns [OF quiet rec] do_actions_returns [OF quiet rec]
  show ?case
    unfolding exec.simps(2) [of _ _ "Suc k"]
    using Suc.prems by (cases cl) (simp_all add: returns set_state_returns del: exec.simps)
qed

section \<open>What the guard is worth\<close>

text \<open>\<open>recursive_depth\<close> bounds the recursion of a quest in which only rules change the state and levels are not
  gained: whatever the rules and whatever the world, a call at any depth returns (a hundred and one nested calls are enough; the
  101st raises), the context is in a state of the quest or in none, and \<open>recursive_depth\<close> is what it was,
  also when the call threw.\<close>

lemma context_returns:
  assumes "quiet_actions i q" "cl \<noteq> Gain_Levels" "cx_in q c" "0 \<le> cx_depth c" "101 \<le> n"
  shows "\<exists>c' out. exec i q n cl c = Some (c', out) \<and> cx_depth c' = cx_depth c \<and> cx_in q c'"
proof -
  from assms(5) have "n = Suc (n - 1)" by simp
  moreover have "returns q (cx_depth c) (exec i q (Suc (n - 1)) cl c)"
    by (rule exec_returns [OF assms(1-3)]) (use assms(4,5) in \<open>simp_all add: max_recursion_def\<close>)
  ultimately show ?thesis
    by (metis returnsE)
qed

lemma leave_enter [simp]: "leave_depth (enter_depth c) = c"
  by (simp add: leave_depth_def enter_depth_def)

lemma depth_fields [simp]:
  "cx_state (enter_depth c) = cx_state c" "cx_attached (enter_depth c) = cx_attached c"
  "cx_attached (leave_depth c) = cx_attached c" "cx_world (enter_depth c) = cx_world c"
  by (simp_all add: enter_depth_def leave_depth_def)

lemma empty_state_returns:
  assumes "cx_state c = Some t" "qs_actions t = []" "qs_rules t = []" "cx_depth c \<le> 99"
  shows "do_actions i rec c = Some (c, Ret False)"
  using assms by (simp add: do_actions_def check_rules_def guarded_def and_then_def max_recursion_def)

lemma set_state_found:
  assumes "qu_states q (lowercase name) = Some s" and begins: "snd (if_begin i name s (cx_world c)) = None"
  obtains d where "set_state i q rec name True c = do_actions i rec d" "cx_state d = Some s"
    "cx_depth d = cx_depth c" "cx_attached d = cx_attached c" "cx_world d = fst (if_begin i name s (cx_world c))"
proof -
  obtain w where "if_begin i name s (cx_world c) = (w, None)"
    using begins by (metis prod.collapse)
  with assms that show ?thesis by (simp add: set_state_def Let_def)
qed

text \<open>An action that enters a state where nothing happens costs a level.\<close>

lemma loop_action_enter:
  assumes begins: "\<And>w. snd (if_begin i b t w) = None"
    and "if_act i x (cx_world c) = Enter w b" "qu_states q (lowercase b) = Some t"
    and "qs_actions t = []" "qs_rules t = []" "cx_depth c \<le> 99"
  shows "\<exists>d. loop_action i (exec i q (Suc n)) x c = Some (d, Ret True) \<and> cx_depth d = cx_depth c - 1"
proof -
  obtain d where "set_state i q (exec i q n) b True (c\<lparr>cx_world := w\<rparr>) = do_actions i (exec i q n) d"
    "cx_state d = Some t" "cx_depth d = cx_depth c"
    by (rule set_state_found [OF assms(3), of i "c\<lparr>cx_world := w\<rparr>" "exec i q n"]) (simp_all add: begins)
  with assms show ?thesis
    by (simp add: loop_action_def cx_do_action_def empty_state_returns and_then_def)
qed

text \<open>The guard does not bound the recursion of actions: the lambda in \<open>DoActions\<close> that runs an action takes back
  the depth when the action left the state, and \<open>DoActions\<close> takes it back again when its loop is over; and
  the \<open>return\<close> that was meant to leave \<open>DoActions\<close> only leaves the lambda, so that the actions after it
  still run. A state whose first action enters a state without actions and whose second action enters it
  again is entered for ever: no amount of nesting makes the call return, and nothing is thrown.\<close>

lemma guard_bypassed:
  assumes "qu_states q k = Some s" "qu_states q (lowercase b) = Some t"
    and "qs_actions t = []" "qs_rules t = []"
    and "qs_actions s = [x, y]" "ac_cond x = Cond_None" "ac_cond y = Cond_None"
    and "\<And>w. if_act i x w = Enter w b" "\<And>w. if_act i y w = Enter w a'"
    and begins: "\<And>m w. snd (if_begin i m s w) = None" "\<And>w. snd (if_begin i b t w) = None"
    and "cx_depth c \<le> 98" "lowercase a = k" "lowercase a' = k"
  shows "exec i q n (Set_State a True) c = None"
proof -
  have "cx_depth d \<le> 98 \<Longrightarrow> lowercase a = k \<Longrightarrow> exec i q n (Set_State a True) d = None" for a d
  proof (induction n arbitrary: a d)
    case (Suc n)
    have first: "loop_action i (exec i q n) x e = None
        \<or> (\<exists>f. loop_action i (exec i q n) x e = Some (f, Ret True) \<and> cx_depth f \<le> 98)"
      if "cx_depth e \<le> 99" for e
    proof (cases n)
      case 0
      then show ?thesis by (simp add: loop_action_def cx_do_action_def and_then_def assms(8) that)
    next
      case (Suc m)
      with loop_action_enter [OF begins(2) assms(8) assms(2-4) that, of m] that show ?thesis by auto
    qed
    have second: "loop_action i (exec i q n) y f = None" if "cx_depth f \<le> 98" for f
      using Suc.IH [of "f\<lparr>cx_world := cx_world f\<rparr>" a'] that assms(14)
      by (simp add: loop_action_def cx_do_action_def and_then_def assms(9))
    have found: "qu_states q (lowercase a) = Some s" using assms(1) Suc.prems(2) by simp
    obtain e where e: "set_state i q (exec i q n) a True d = do_actions i (exec i q n) e" "cx_state e = Some s"
      "cx_depth e = cx_depth d"
      by (rule set_state_found [OF found begins(1)])
    have "action_loop i (exec i q n) (qs_actions s) False (enter_depth e) = None"
      using first [of "enter_depth e"] second Suc.prems e(3) assms(5-7) by (auto simp: and_then_def)
    then show ?case
      using e Suc.prems by (simp add: do_actions_def guarded_def and_then_def max_recursion_def)
  qed simp
  then show ?thesis using assms(12,13) by blast
qed

text \<open>An action that takes the context from its character (\<open>reset\<close> does), first among the actions of a state: the loop
  of \<open>DoActions\<close> goes on with the actions after it, one level of depth too low, and the rules are checked.\<close>

lemma detach_goes_on:
  assumes "qu_states q (lowercase a) = Some s" "qs_actions s = x # ys" "ac_cond x = Cond_None"
    and "if_act i x (fst (if_begin i a s (cx_world c))) = Detach v" "cx_depth c < max_recursion"
    and begins: "snd (if_begin i a s (cx_world c)) = None"
  obtains d where "cx_state d = Some s" "cx_depth d = cx_depth c" "cx_world d = v" "\<not> cx_attached d"
    "exec i q (Suc n) (Set_State a True) c =
       and_then (map_option (map_prod leave_depth id) (action_loop i (exec i q n) ys False d))
         (\<lambda>c _. check_rules i (exec i q n) c)"
proof -
  obtain e where e: "set_state i q (exec i q n) a True c = do_actions i (exec i q n) e" "cx_state e = Some s"
    "cx_depth e = cx_depth c" "cx_world e = fst (if_begin i a s (cx_world c))"
    by (rule set_state_found [OF assms(1) begins])
  have "loop_action i rec x (enter_depth e) = Some (e\<lparr>cx_world := v, cx_attached := False\<rparr>, Ret True)" for rec
    using e(4) assms(4)
    by (simp add: loop_action_def cx_do_action_def and_then_def leave_depth_def enter_depth_def)
  then have "exec i q (Suc n) (Set_State a True) c =
      and_then (map_option (map_prod leave_depth id)
          (action_loop i (exec i q n) ys False (e\<lparr>cx_world := v, cx_attached := False\<rparr>)))
        (\<lambda>c _. check_rules i (exec i q n) c)"
    using e assms(2,3,5) by (simp add: do_actions_def guarded_def and_then_def map_prod_def)
  with e show ?thesis by (intro that) simp_all
qed

text \<open>In a rule the same action ends the check of the rules.\<close>

lemma detach_in_rule:
  assumes "if_check i (ru_expr r) (cx_world c) = (w, Inr True)" "if_act i (ru_action r) w = Detach v"
  shows "rule_loop i rec (r # rs) c = Some (c\<lparr>cx_world := v, cx_attached := False\<rparr>, Ret True)"
  using assms by (simp add: cx_check_rule_def cx_do_action_def and_then_def)

section \<open>Exceptions\<close>

text \<open>Which exceptions the functions may raise beside their own.\<close>

primrec prog_avoids :: "quest_exn \<Rightarrow> 'w prog \<Rightarrow> bool" where
  "prog_avoids x (Done w r) = (r \<noteq> Inl x)"
| "prog_avoids x (Enter w s) = True"
| "prog_avoids x (Restart w s) = True"
| "prog_avoids x (Detach w) = True"
| "prog_avoids x (Attached p p') = (prog_avoids x p \<and> prog_avoids x p')"
| "prog_avoids x (Recheck w k) = (\<forall>w. prog_avoids x (k w))"
| "prog_avoids x (Gain w k) = (\<forall>b w. prog_avoids x (k (b, w)))"

definition action_avoids :: "'w iface \<Rightarrow> quest_exn \<Rightarrow> action \<Rightarrow> bool" where
  "action_avoids i x a \<longleftrightarrow>
     (\<forall>w. prog_avoids x (if_act i a w))
     \<and> (ac_cond a = Cond_If \<or> ac_cond a = Cond_ElseIf \<longrightarrow> (\<forall>w. snd (if_check i (ac_cond_expr a) w) \<noteq> Inl x))"

definition iface_avoids :: "'w iface \<Rightarrow> quest_exn \<Rightarrow> quest_state \<Rightarrow> bool" where
  "iface_avoids i x s \<longleftrightarrow>
     (\<forall>m w. snd (if_begin i m s w) \<noteq> Some x)
     \<and> (\<forall>a\<in>set (qs_actions s). action_avoids i x a)
     \<and> (\<forall>r\<in>set (qs_rules s). \<forall>w. prog_avoids x (if_act i (ru_action r) w) \<and> snd (if_check i (ru_expr r) w) \<noteq> Inl x)"

definition own_exn :: "quest_exn \<Rightarrow> bool" where
  "own_exn x \<longleftrightarrow> x = Too_Deep \<or> x = No_State \<or> (\<exists>s. x = Unknown_State s)"

definition avoids :: "quest \<Rightarrow> quest_exn \<Rightarrow> 'w step \<Rightarrow> bool" where
  "avoids q x r \<longleftrightarrow> (\<forall>c out. r = Some (c, out) \<longrightarrow> cx_in q c \<and> out \<noteq> Exn x)"

lemma avoids_simps [simp]:
  "avoids q x None" "avoids q x (Some (c, out)) \<longleftrightarrow> cx_in q c \<and> out \<noteq> Exn x"
  by (simp_all add: avoids_def)

lemma avoids_and_then:
  assumes "avoids q x r" "\<And>c b. cx_in q c \<Longrightarrow> avoids q x (k c b)"
  shows "avoids q x (and_then r k)"
  using assms by (cases r) (auto simp: and_then_def split: outcome.split)

lemma avoids_guarded:
  "x \<noteq> Too_Deep \<Longrightarrow> cx_in q c \<Longrightarrow> avoids q x (body (enter_depth c)) \<Longrightarrow> avoids q x (guarded body c)"
  by (auto simp: guarded_def avoids_def)

lemma recheck_avoids:
  "(\<And>cl d. cx_in q d \<Longrightarrow> avoids q x (rec cl d)) \<Longrightarrow> cx_in q c \<Longrightarrow> avoids q x (recheck rec c)"
  by (simp add: recheck_def)

lemma run_prog_avoids:
  assumes rec: "\<And>cl d. cx_in q d \<Longrightarrow> avoids q x (rec cl d)" and x: "\<not> own_exn x"
  shows "prog_avoids x p \<Longrightarrow> cx_in q c \<Longrightarrow> avoids q x (run_prog rec p c)"
proof (induction p arbitrary: c)
  case (Done w r)
  then show ?case by (cases r) auto
next
  case (Recheck w k)
  then show ?case by (simp add: avoids_and_then Recheck.IH [OF rangeI] recheck_avoids [OF rec])
next
  case (Gain w k)
  then show ?case by (simp add: avoids_and_then Gain.IH [OF rangeI] rec)
qed (simp_all add: avoids_and_then rec)

lemma do_action_avoids:
  assumes "\<And>cl d. cx_in q d \<Longrightarrow> avoids q x (rec cl d)" "\<not> own_exn x"
    and "\<And>w. prog_avoids x (if_act i a w)" "cx_in q c"
  shows "avoids q x (cx_do_action i rec a c)"
  unfolding cx_do_action_def using assms by (intro run_prog_avoids) auto

lemma check_rule_avoids:
  assumes "\<not> own_exn x" "\<And>w. snd (if_check i e w) \<noteq> Inl x" "cx_in q c"
  shows "avoids q x (cx_check_rule i e c)"
  using assms(2) [of "cx_world c"] assms(1,3)
  by (auto simp: cx_check_rule_def own_exn_def split: prod.splits sum.splits)

lemma action_loop_avoids:
  assumes rec: "\<And>cl d. cx_in q d \<Longrightarrow> avoids q x (rec cl d)" and x: "\<not> own_exn x"
  shows "\<forall>a\<in>set as. action_avoids i x a \<Longrightarrow> cx_in q c \<Longrightarrow> avoids q x (action_loop i rec as b c)"
proof (induction as arbitrary: b c)
  case (Cons a as)
  have act: "avoids q x (loop_action i rec a d)" if "cx_in q d" for d
    unfolding loop_action_def
    by (rule avoids_and_then [OF do_action_avoids [OF rec x]]) (use Cons.prems that in \<open>simp_all add: action_avoids_def\<close>)
  have chk: "avoids q x (cx_check_rule i (ac_cond_expr a) d)"
    if "cx_in q d" "ac_cond a = Cond_If \<or> ac_cond a = Cond_ElseIf" for d
    by (rule check_rule_avoids [OF x]) (use Cons.prems that in \<open>auto simp: action_avoids_def\<close>)
  show ?case unfolding action_loop.simps
    using Cons by (simp add: avoids_and_then act chk)
qed simp

lemma rule_loop_avoids:
  assumes rec: "\<And>cl d. cx_in q d \<Longrightarrow> avoids q x (rec cl d)" and x: "\<not> own_exn x"
  shows "\<forall>r\<in>set rs. \<forall>w. prog_avoids x (if_act i (ru_action r) w) \<and> snd (if_check i (ru_expr r) w) \<noteq> Inl x \<Longrightarrow>
    cx_in q c \<Longrightarrow> avoids q x (rule_loop i rec rs c)"
proof (induction rs arbitrary: c)
  case (Cons r rs)
  have act: "avoids q x (cx_do_action i rec (ru_action r) d)" if "cx_in q d" for d
    by (rule do_action_avoids [OF rec x]) (use Cons.prems that in simp_all)
  have chk: "avoids q x (cx_check_rule i (ru_expr r) d)" if "cx_in q d" for d
    by (rule check_rule_avoids [OF x]) (use Cons.prems that in simp_all)
  show ?case unfolding rule_loop.simps
    using Cons by (simp add: avoids_and_then act chk)
qed simp

text \<open>An exception that neither the actions nor the rules of a quest raise, and that is not one of the
  context's own, is never raised.\<close>

lemma exec_avoids:
  assumes x: "\<not> own_exn x" and safe: "\<And>name s. qu_states q name = Some s \<Longrightarrow> iface_avoids i x s"
  shows "cx_in q c \<Longrightarrow> avoids q x (exec i q n cl c)"
proof (induction n arbitrary: cl c)
  case (Suc n)
  have state: "iface_avoids i x s" if "cx_in q d" "cx_state d = Some s" for d s
    using that safe by (auto simp: cx_in_def)
  have rules: "avoids q x (check_rules i (exec i q n) d)" if "cx_in q d" for d
    unfolding check_rules_def using that x state [OF that] Suc.IH
    by (auto intro!: avoids_guarded rule_loop_avoids simp: own_exn_def iface_avoids_def split: option.split)
  have acts: "avoids q x (do_actions i (exec i q n) d)" if "cx_in q d" for d
    unfolding do_actions_def using that x state [OF that] Suc.IH
    by (auto intro!: avoids_and_then avoids_guarded action_loop_avoids rules
        simp: own_exn_def iface_avoids_def split: option.split)
  have gain: "avoids q x (gain_levels i (exec i q n) d)" if "cx_in q d" for d
    using that Suc.IH
    by (auto simp: gain_levels_def intro!: avoids_and_then recheck_avoids split: option.split)
  have set: "avoids q x (set_state i q (exec i q n) s b c)" for s b
  proof -
    have "cx_in q d \<and> avoids q x (do_actions i (exec i q n) d)" if "cx_state d = qu_states q m" for d m
      using that acts [of d] by (auto simp: cx_in_def)
    note entered = this [of _ "lowercase s"]
    have fields: "cx_in q (c\<lparr>cx_name := m, cx_state := None, cx_finished := f\<rparr>)" "cx_in q (c\<lparr>cx_name := m\<rparr>)" for m f
      using Suc.prems by (simp_all add: cx_in_def)
    have "Unknown_State m \<noteq> x" for m using x by (auto simp: own_exn_def)
    moreover have "if_begin i s t (cx_world c) \<noteq> (w, Some x)" if "qu_states q (lowercase s) = Some t" for t w
      using safe [OF that] by (metis iface_avoids_def snd_conv)
    ultimately show ?thesis
      using fields entered Suc.prems
      unfolding set_state_def Let_def
      by (auto split: option.split prod.split)
  qed
  show ?case
    by (cases cl) (simp_all add: rules acts gain set Suc.prems)
qed simp

end
