(* ===== verification/Game.thy ===== *)
theory Game
  imports Packet_IO
begin

text \<open>
  The data that the item handlers share: items and their EIF records, spells, the part of a
  \<open>Character\<close> (\<^verbatim>\<open>src/character.hpp\<close>) that they read and write, the configuration they consult, and
  the packets they send. Numbers are kept in \<open>int\<close>; a value stored into a narrower C++ type is
  reduced with \<open>s16\<close>, \<open>u8\<close> or \<open>s32\<close>.

  A \<open>Character\<close> is one \<open>chr\<close> record under its player id in a \<open>players\<close> map, which stands for the
  objects and the pointers between them: \<open>trade_partner\<close> is the player id of the other side.
\<close>

section \<open>Item, spell and class files\<close>

datatype item_type =
    EIF_Static | EIF_UnknownType1 | EIF_Money | EIF_Heal | EIF_Teleport | EIF_Spell | EIF_EXPReward
  | EIF_StatReward | EIF_SkillReward | EIF_Key | EIF_Weapon | EIF_Shield | EIF_Armor | EIF_Hat
  | EIF_Boots | EIF_Gloves | EIF_Accessory | EIF_Belt | EIF_Necklace | EIF_Ring | EIF_Armlet
  | EIF_Bracer | EIF_Beer | EIF_EffectPotion | EIF_HairDye | EIF_CureCurse

datatype item_subtype = EIF_None | EIF_Ranged | EIF_Arrows | EIF_Wings | EIF_TwoHanded

datatype item_special =
    EIF_Normal | EIF_Rare | EIF_UnknownSpecial2 | EIF_Unique | EIF_Lore | EIF_Cursed

record eif_data =
  eif_id :: int
  eif_type :: item_type
  eif_subtype :: item_subtype
  eif_special :: item_special
  eif_key :: int
  eif_gender :: int
  eif_dual_wield_dollgraphic :: int
  eif_levelreq :: int
  eif_classreq :: int
  eif_strreq :: int
  eif_intreq :: int
  eif_wisreq :: int
  eif_agireq :: int
  eif_conreq :: int
  eif_chareq :: int
  eif_weight :: int

text \<open>The record of the default constructor, which heads every file.\<close>

definition eif_default :: eif_data where
  "eif_default = \<lparr>eif_id = 0, eif_type = EIF_Static, eif_subtype = EIF_None, eif_special = EIF_Lore,
     eif_key = 0, eif_gender = 0, eif_dual_wield_dollgraphic = 0, eif_levelreq = 0, eif_classreq = 0,
     eif_strreq = 0, eif_intreq = 0, eif_wisreq = 0, eif_agireq = 0, eif_conreq = 0, eif_chareq = 0,
     eif_weight = 0\<rparr>"

text \<open>\<open>EIF::Get\<close>: the argument is converted to \<open>unsigned int\<close>, so that a negative id is out of range.\<close>

definition eif_get :: "eif_data list \<Rightarrow> int \<Rightarrow> eif_data" where
  "eif_get data item = (let n = nat (item mod 4294967296) in if n < length data then data ! n else data ! 0)"

fun get_key_from :: "nat \<Rightarrow> int \<Rightarrow> eif_data list \<Rightarrow> nat" where
  "get_key_from i keynum [] = 0"
| "get_key_from i keynum (d # ds) =
     (if eif_type d = EIF_Key \<and> eif_key d = keynum then i else get_key_from (i + 1) keynum ds)"

definition eif_get_key :: "eif_data list \<Rightarrow> int \<Rightarrow> nat" where
  "eif_get_key data keynum = get_key_from 0 keynum data"

section \<open>Characters\<close>

record item_stack =
  st_id :: int
  st_amount :: int

record spell_slot =
  sp_id :: int
  sp_level :: int

datatype npc_type =
    ENF_NPC | ENF_Passive | ENF_Aggressive | ENF_Unknown1 | ENF_Unknown2 | ENF_Unknown3 | ENF_Shop
  | ENF_Inn | ENF_Unknown4 | ENF_Bank | ENF_Barber | ENF_Guild | ENF_Priest | ENF_Law | ENF_Skills
  | ENF_Quest

record chr =
  ch_name :: string
  ch_admin :: int
  ch_clas :: int
  ch_gender :: int
  ch_level :: int
  ch_mapid :: int
  ch_x :: int
  ch_y :: int
  ch_can_interact_items :: bool
  ch_display_str :: int
  ch_display_intl :: int
  ch_display_wis :: int
  ch_display_agi :: int
  ch_display_con :: int
  ch_display_cha :: int
  ch_inventory :: "item_stack list"
  ch_bank :: "item_stack list"
  ch_paperdoll :: "int list"
  ch_spells :: "spell_slot list"
  ch_weight :: int
  ch_maxweight :: int
  ch_bankmax :: int
  ch_goldbank :: int
  ch_trading :: bool
  ch_trade_partner :: "nat option"
  ch_trade_agree :: bool
  ch_trade_inventory :: "item_stack list"
  ch_npc :: nat
  ch_npc_type :: npc_type
  ch_nowhere :: bool

type_synonym players = "nat \<rightharpoonup> chr"

section \<open>Configuration\<close>

text \<open>The loaded files and the settings that the handlers read. \<open>gm_ecf_base\<close> gives the base class of a
  class; \<open>gm_weight_formula\<close> is the value, as a \<open>short\<close>, of the formula configured for the maximal
  weight of a character.\<close>

record game =
  gm_eif :: "eif_data list"
  gm_esf_size :: nat
  gm_ecf_base :: "int \<Rightarrow> int"
  gm_weight_formula :: "chr \<Rightarrow> int"
  gm_MaxItem :: int
  gm_MaxTrade :: int
  gm_TradeAddQuantity :: bool
  gm_EnforceWeight :: int
  gm_unlimitedweight :: int
  gm_JailMap :: int
  gm_MaxBankGold :: int
  gm_MaxBank :: int
  gm_BaseBankSize :: int
  gm_BankSizeStep :: int
  gm_BankUpgradeBase :: int
  gm_BankUpgradeStep :: int
  gm_MaxBankUpgrades :: int
  gm_MaxChest :: int
  gm_MaxShopBuy :: int
  gm_SeeDistance :: int
  gm_MaxDrop :: int
  gm_DropDistance :: int
  gm_MaxTile :: int
  gm_MaxMap :: int
  gm_ProtectPlayerDrop :: int
  gm_GhostArena :: bool

section \<open>Packets sent\<close>

text \<open>A packet built with the given family, action and fields and sent to a player.\<close>

record message =
  ms_to :: nat
  ms_family :: packet_family
  ms_action :: packet_action
  ms_fields :: "field list"

definition mk_message :: "nat \<Rightarrow> packet_family \<Rightarrow> packet_action \<Rightarrow> field list \<Rightarrow> message" where
  "mk_message to fam act fs = \<lparr>ms_to = to, ms_family = fam, ms_action = act, ms_fields = fs\<rparr>"

text \<open>The conversions of the arguments of \<open>AddChar\<close>, \<open>AddShort\<close>, \<open>AddThree\<close> and \<open>AddInt\<close>.\<close>

definition fchar :: "int \<Rightarrow> field" where "fchar n = FChar (nat (u8 n))"
definition fshort :: "int \<Rightarrow> field" where "fshort n = FShort (nat (u16 n))"
definition fthree :: "int \<Rightarrow> field" where "fthree n = FThree (nat (n mod 4294967296))"
definition fint :: "int \<Rightarrow> field" where "fint n = FInt (nat (n mod 4294967296))"

definition fbreak :: "string \<Rightarrow> field" where
  "fbreak s = FBreak (map (\<lambda>c. of_nat (ccode c)) s)"

text \<open>\<open>AddString\<close> appends the bytes of the string, as so many \<open>AddByte\<close>.\<close>

definition fstring :: "string \<Rightarrow> field list" where
  "fstring s = map (\<lambda>c. FByte (ccode c)) s"

section \<open>Lists of stacks\<close>

text \<open>The first stack of an item, and the amount over all its stacks.\<close>

definition find_stack :: "int \<Rightarrow> item_stack list \<Rightarrow> item_stack option" where
  "find_stack item stacks = find (\<lambda>st. st_id st = item) stacks"

definition amount_of :: "item_stack list \<Rightarrow> int \<Rightarrow> int" where
  "amount_of stacks item = (\<Sum>st\<leftarrow>stacks. if st_id st = item then st_amount st else 0)"

text \<open>Changes the first stack of an item; the loops that search a \<open>std::list\<close> do this.\<close>

fun update_stack :: "int \<Rightarrow> (int \<Rightarrow> int) \<Rightarrow> item_stack list \<Rightarrow> item_stack list" where
  "update_stack item f [] = []"
| "update_stack item f (st # sts) =
     (if st_id st = item then st\<lparr>st_amount := f (st_amount st)\<rparr> # sts else st # update_stack item f sts)"

fun erase_stack :: "int \<Rightarrow> item_stack list \<Rightarrow> item_stack list" where
  "erase_stack item [] = []"
| "erase_stack item (st # sts) = (if st_id st = item then sts else st # erase_stack item sts)"

text \<open>One stack per item, and no empty stack.\<close>

definition stacks_ok :: "item_stack list \<Rightarrow> bool" where
  "stacks_ok stacks \<longleftrightarrow> distinct (map st_id stacks) \<and> (\<forall>st\<in>set stacks. 0 < st_amount st)"

lemma amount_of_simps [simp]:
  "amount_of [] item = 0"
  "amount_of (st # sts) item = (if st_id st = item then st_amount st else 0) + amount_of sts item"
  "amount_of (sts @ sts') item = amount_of sts item + amount_of sts' item"
  by (simp_all add: amount_of_def)

lemma amount_of_absent [simp]: "item \<notin> st_id ` set sts \<Longrightarrow> amount_of sts item = 0"
  by (induction sts) auto

lemma stacks_ok_simps [simp]:
  "stacks_ok []"
  "stacks_ok (st # sts) \<longleftrightarrow> 0 < st_amount st \<and> st_id st \<notin> st_id ` set sts \<and> stacks_ok sts"
  by (auto simp: stacks_ok_def)

lemma find_stack_simps [simp]:
  "find_stack item [] = None"
  "find_stack item (st # sts) = (if st_id st = item then Some st else find_stack item sts)"
  by (simp_all add: find_stack_def)

lemma find_stack_None: "find_stack item sts = None \<longleftrightarrow> item \<notin> st_id ` set sts"
  by (induction sts) auto

lemma find_stack_SomeD: "find_stack item sts = Some st \<Longrightarrow> st \<in> set sts \<and> st_id st = item"
  by (induction sts) (auto split: if_splits)

lemma amount_of_find:
  "stacks_ok sts \<Longrightarrow>
   amount_of sts item = (case find_stack item sts of None \<Rightarrow> 0 | Some st \<Rightarrow> st_amount st)"
  by (induction sts) auto

lemma amount_of_nonneg: "stacks_ok sts \<Longrightarrow> 0 \<le> amount_of sts item"
  by (induction sts) auto

lemma amount_of_pos_iff: "stacks_ok sts \<Longrightarrow> 0 < amount_of sts item \<longleftrightarrow> item \<in> st_id ` set sts"
proof (induction sts)
  case (Cons st sts)
  then show ?case using amount_of_nonneg [of sts item] by auto
qed simp

lemma stack_ids_update [simp]: "st_id ` set (update_stack item f sts) = st_id ` set sts"
  by (induction sts) auto

lemma stack_length_update [simp]: "length (update_stack item f sts) = length sts"
  by (induction sts) auto

lemma amount_of_update:
  "amount_of (update_stack item f sts) i =
     amount_of sts i + (case find_stack item sts of
       None \<Rightarrow> 0 | Some st \<Rightarrow> if i = item then f (st_amount st) - st_amount st else 0)"
  by (induction sts) auto

lemma amount_of_erase:
  "amount_of (erase_stack item sts) i =
     amount_of sts i - (case find_stack item sts of
       None \<Rightarrow> 0 | Some st \<Rightarrow> if i = item then st_amount st else 0)"
  by (induction sts) auto

lemma stacks_ok_update:
  "stacks_ok sts \<Longrightarrow> (\<And>st. find_stack item sts = Some st \<Longrightarrow> 0 < f (st_amount st)) \<Longrightarrow>
   stacks_ok (update_stack item f sts)"
  by (induction sts) auto

lemma stack_ids_erase: "st_id ` set (erase_stack item sts) \<subseteq> st_id ` set sts"
  by (induction sts) auto

lemma stacks_ok_erase: "stacks_ok sts \<Longrightarrow> stacks_ok (erase_stack item sts)"
proof (induction sts)
  case (Cons st sts)
  then show ?case using stack_ids_erase [of item sts] by auto
qed simp

lemma stacks_ok_append [simp]:
  "stacks_ok (sts @ [st]) \<longleftrightarrow> stacks_ok sts \<and> 0 < st_amount st \<and> st_id st \<notin> st_id ` set sts"
  by (induction sts) auto

text \<open>Amounts are values of a C++ \<open>int\<close>.\<close>

definition ints_ok :: "item_stack list \<Rightarrow> bool" where
  "ints_ok stacks \<longleftrightarrow> (\<forall>st\<in>set stacks. st_amount st \<le> int_max)"

lemma ints_ok_simps [simp]:
  "ints_ok []"
  "ints_ok (st # sts) \<longleftrightarrow> st_amount st \<le> int_max \<and> ints_ok sts"
  "ints_ok (sts @ sts') \<longleftrightarrow> ints_ok sts \<and> ints_ok sts'"
  by (auto simp: ints_ok_def)

lemma ints_ok_find: "ints_ok sts \<Longrightarrow> find_stack item sts = Some st \<Longrightarrow> st_amount st \<le> int_max"
  using find_stack_SomeD by (fastforce simp: ints_ok_def)

lemma ints_ok_update:
  "ints_ok sts \<Longrightarrow> (\<And>st. find_stack item sts = Some st \<Longrightarrow> f (st_amount st) \<le> int_max) \<Longrightarrow>
   ints_ok (update_stack item f sts)"
  by (induction sts) auto

lemma ints_ok_erase: "ints_ok sts \<Longrightarrow> ints_ok (erase_stack item sts)"
  by (induction sts) auto

end
