(* ===== verification/Stock.thy ===== *)
theory Stock
  imports Game
begin

text \<open>
  The interface of everything that holds items: inventories, lockers, chests, the bank account. The
  code moves items by a removal here and an addition there; what makes that safe is the same
  everywhere, and is proved here once. \<open>room s i n\<close> says that \<open>n\<close> more of item \<open>i\<close> fit without
  loss.
\<close>

section \<open>One stock\<close>

locale stock =
  fixes count :: "'s \<Rightarrow> int \<Rightarrow> int"
    and ok :: "'s \<Rightarrow> bool"
    and room :: "'s \<Rightarrow> int \<Rightarrow> int \<Rightarrow> bool"
    and put :: "int \<Rightarrow> int \<Rightarrow> 's \<Rightarrow> 's"
    and take_out :: "int \<Rightarrow> int \<Rightarrow> 's \<Rightarrow> 's"
  assumes put_ok: "ok s \<Longrightarrow> 0 < n \<Longrightarrow> room s i n \<Longrightarrow> ok (put i n s)"
    and put_count: "ok s \<Longrightarrow> 0 < n \<Longrightarrow> room s i n \<Longrightarrow>
      count (put i n s) = (count s)(i := count s i + n)"
    and take_ok: "ok s \<Longrightarrow> 0 < n \<Longrightarrow> n \<le> count s i \<Longrightarrow> ok (take_out i n s)"
    and take_count: "ok s \<Longrightarrow> 0 < n \<Longrightarrow> n \<le> count s i \<Longrightarrow>
      count (take_out i n s) = (count s)(i := count s i - n)"
begin

lemma put_take:
  assumes "ok s" "0 < n" "room s i n" "0 \<le> count s i"
  shows "ok (take_out i n (put i n s)) \<and> count (take_out i n (put i n s)) = count s"
  using assms by (simp add: put_ok put_count take_ok take_count fun_eq_iff)

end

section \<open>Moving between two stocks\<close>

text \<open>Two stocks in one state, such that changing one does not touch the other.\<close>

locale transfer =
  src: stock count_s ok_s room_s put_s take_s + dst: stock count_d ok_d room_d put_d take_d
  for count_s :: "'s \<Rightarrow> int \<Rightarrow> int" and ok_s room_s put_s take_s
    and count_d :: "'s \<Rightarrow> int \<Rightarrow> int" and ok_d room_d put_d take_d +
  assumes src_frame: "count_s (put_d i n s) = count_s s" "ok_s (put_d i n s) = ok_s s"
    and dst_frame: "count_d (take_s i n s) = count_d s" "ok_d (take_s i n s) = ok_d s"
      "room_d (take_s i n s) j m = room_d s j m"
begin

lemma move:
  assumes "ok_s s" "ok_d s" "0 < n" "n \<le> count_s s i" "room_d s i n"
  defines "s' \<equiv> put_d i n (take_s i n s)"
  shows "ok_s s' \<and> ok_d s' \<and> count_s s' = (count_s s)(i := count_s s i - n)
    \<and> count_d s' = (count_d s)(i := count_d s i + n)"
  using assms by (simp add: src_frame dst_frame src.take_ok src.take_count dst.put_ok dst.put_count)

lemma move_put_first:
  assumes "ok_s s" "ok_d s" "0 < n" "n \<le> count_s s i" "room_d s i n"
  defines "s' \<equiv> take_s i n (put_d i n s)"
  shows "ok_s s' \<and> ok_d s' \<and> count_s s' = (count_s s)(i := count_s s i - n)
    \<and> count_d s' = (count_d s)(i := count_d s i + n)"
  using assms by (simp add: src_frame dst_frame src.take_ok src.take_count dst.put_ok dst.put_count)

lemma move_conserves:
  assumes "ok_s s" "ok_d s" "0 < n" "n \<le> count_s s i" "room_d s i n"
  shows "count_s (put_d i n (take_s i n s)) j + count_d (put_d i n (take_s i n s)) j
    = count_s s j + count_d s j"
  using move [OF assms] by simp

end

section \<open>Moving a list of stacks\<close>

fun move_all ::
  "(int \<Rightarrow> int \<Rightarrow> 's \<Rightarrow> 's) \<Rightarrow> (int \<Rightarrow> int \<Rightarrow> 's \<Rightarrow> 's) \<Rightarrow> item_stack list \<Rightarrow> 's \<Rightarrow> 's" where
  "move_all put tk [] s = s"
| "move_all put tk (st # sts) s =
     move_all put tk sts (put (st_id st) (st_amount st) (tk (st_id st) (st_amount st) s))"

text \<open>Where the room for an item depends on how much of that item there is only.\<close>

locale counted_transfer = transfer +
  assumes room_count: "ok_d s \<Longrightarrow> ok_d s' \<Longrightarrow> count_d s i = count_d s' i \<Longrightarrow>
    room_d s i n \<longleftrightarrow> room_d s' i n"
begin

lemma move_all:
  assumes "ok_s s" "ok_d s" "stacks_ok sts"
    and "\<forall>st\<in>set sts. st_amount st \<le> count_s s (st_id st) \<and> room_d s (st_id st) (st_amount st)"
  shows "ok_s (move_all put_d take_s sts s) \<and> ok_d (move_all put_d take_s sts s)
    \<and> (\<forall>j. count_s (move_all put_d take_s sts s) j = count_s s j - amount_of sts j
          \<and> count_d (move_all put_d take_s sts s) j = count_d s j + amount_of sts j)"
  using assms
proof (induction sts arbitrary: s)
  case (Cons st sts)
  let ?i = "st_id st" and ?n = "st_amount st"
  let ?s = "put_d ?i ?n (take_s ?i ?n s)"
  have "0 < ?n" and new: "?i \<notin> st_id ` set sts" using Cons.prems by auto
  then have m: "ok_s ?s" "ok_d ?s" "count_s ?s = (count_s s)(?i := count_s s ?i - ?n)"
    "count_d ?s = (count_d s)(?i := count_d s ?i + ?n)"
    using move [of s ?n ?i] Cons.prems by auto
  have "\<forall>t\<in>set sts. st_amount t \<le> count_s ?s (st_id t) \<and> room_d ?s (st_id t) (st_amount t)"
  proof
    fix t
    assume t: "t \<in> set sts"
    then have "st_id t \<noteq> ?i" using new by (metis image_eqI)
    then show "st_amount t \<le> count_s ?s (st_id t) \<and> room_d ?s (st_id t) (st_amount t)"
      using t m Cons.prems room_count [of ?s s "st_id t"] by auto
  qed
  with Cons.IH [of ?s] m Cons.prems have
    "ok_s (move_all put_d take_s sts ?s) \<and> ok_d (move_all put_d take_s sts ?s)
      \<and> (\<forall>j. count_s (move_all put_d take_s sts ?s) j = count_s ?s j - amount_of sts j
            \<and> count_d (move_all put_d take_s sts ?s) j = count_d ?s j + amount_of sts j)"
    by simp
  with m new show ?case by simp
qed simp

end

end
