(* ===== verification/Inventory.thy ===== *)
theory Inventory
  imports Stock
begin

text \<open>
  What a character owns (\<^verbatim>\<open>src/character.cpp\<close>): the inventory with its weight, the items offered in a
  trade, the spells and the paperdoll. The operations return the character and the result of the
  C++ function. Status messages and the check of the quest rules, which follow some of the
  operations, are not part of the model.
\<close>

section \<open>Weight\<close>

text \<open>The part of \<open>CalculateStats\<close> that computes the weight, a \<open>short\<close>: the inventory until 250 is
  reached, then the paperdoll.\<close>

fun inventory_weight :: "eif_data list \<Rightarrow> int \<Rightarrow> item_stack list \<Rightarrow> int" where
  "inventory_weight data w [] = w"
| "inventory_weight data w (st # sts) =
     (let w1 = s16 (w + eif_weight (eif_get data (st_id st)) * st_amount st)
      in if 250 \<le> w1 then w1 else inventory_weight data w1 sts)"

fun paperdoll_weight :: "eif_data list \<Rightarrow> int \<Rightarrow> int list \<Rightarrow> int" where
  "paperdoll_weight data w [] = w"
| "paperdoll_weight data w (i # is) =
     paperdoll_weight data (if i \<noteq> 0 then s16 (w + eif_weight (eif_get data i)) else w) is"

definition calculate_stats :: "game \<Rightarrow> chr \<Rightarrow> chr" where
  "calculate_stats g c =
     (let w = paperdoll_weight (gm_eif g) (inventory_weight (gm_eif g) 0 (ch_inventory c)) (ch_paperdoll c);
          w1 = (if w < 0 \<or> 250 < w then 250 else w);
          m = gm_weight_formula g c
      in if gm_unlimitedweight g \<le> ch_admin c
         then c\<lparr>ch_weight := 0, ch_maxweight := 251\<rparr>
         else c\<lparr>ch_weight := w1, ch_maxweight := (if m < 70 \<or> 250 < m then 250 else m)\<rparr>)"

section \<open>Inventory\<close>

definition has_item :: "int \<Rightarrow> bool \<Rightarrow> chr \<Rightarrow> int" where
  "has_item item include_trade c =
     (case find_stack item (ch_inventory c) of
        None \<Rightarrow> 0
      | Some it \<Rightarrow>
          if ch_trading c \<and> \<not> include_trade
          then (case find_stack item (ch_trade_inventory c) of
                  Some trade_item \<Rightarrow> max (st_amount it - st_amount trade_item) 0
                | None \<Rightarrow> st_amount it)
          else st_amount it)"

definition item_exists :: "game \<Rightarrow> int \<Rightarrow> bool" where
  "item_exists g item \<longleftrightarrow> \<not> (item \<le> 0 \<or> nat item \<ge> length (gm_eif g))"

definition add_item :: "game \<Rightarrow> int \<Rightarrow> int \<Rightarrow> chr \<Rightarrow> chr \<times> bool" where
  "add_item g item amount c =
     (if amount \<le> 0 then (c, False)
      else if \<not> item_exists g item then (c, False)
      else case find_stack item (ch_inventory c) of
             Some it \<Rightarrow>
               if s32 (st_amount it + amount) < 0 then (c, False)
               else (calculate_stats g (c\<lparr>ch_inventory :=
                       update_stack item (\<lambda>a. min (s32 (a + amount)) (gm_MaxItem g)) (ch_inventory c)\<rparr>),
                     True)
           | None \<Rightarrow>
               (calculate_stats g (c\<lparr>ch_inventory :=
                  ch_inventory c @ [\<lparr>st_id = item, st_amount = amount\<rparr>]\<rparr>), True))"

definition del_item :: "game \<Rightarrow> int \<Rightarrow> int \<Rightarrow> chr \<Rightarrow> chr \<times> bool" where
  "del_item g item amount c =
     (if amount \<le> 0 then (c, False)
      else case find_stack item (ch_inventory c) of
             Some it \<Rightarrow>
               (calculate_stats g (c\<lparr>ch_inventory :=
                  (if st_amount it < 0 \<or> st_amount it - amount \<le> 0
                   then erase_stack item (ch_inventory c)
                   else update_stack item (\<lambda>a. a - amount) (ch_inventory c))\<rparr>), True)
           | None \<Rightarrow> (c, False))"

definition can_hold_item :: "game \<Rightarrow> int \<Rightarrow> int \<Rightarrow> chr \<Rightarrow> int" where
  "can_hold_item g itemid max_amount c =
     (let item = eif_get (gm_eif g) itemid;
          amount =
            (if 2 \<le> gm_EnforceWeight g \<and> ch_admin c < gm_unlimitedweight g
             then (if ch_maxweight c < ch_weight c then 0
                   else if eif_id item = 0 \<or> eif_weight item = 0 then max_amount
                   else min ((ch_maxweight c - ch_weight c) div eif_weight item) max_amount)
             else max_amount)
      in min amount (gm_MaxItem g))"

section \<open>Items offered in a trade\<close>

definition offered_amount :: "int \<Rightarrow> item_stack list \<Rightarrow> int" where
  "offered_amount item stacks = fold (\<lambda>st n. if st_id st = item then st_amount st else n) stacks 0"

definition put_offer :: "bool \<Rightarrow> int \<Rightarrow> int \<Rightarrow> item_stack list \<Rightarrow> item_stack list" where
  "put_offer add_quantity item amount stacks =
     (case find_stack item stacks of
        Some st \<Rightarrow> update_stack item (\<lambda>a. if add_quantity then a + amount else amount) stacks
      | None \<Rightarrow> stacks @ [\<lparr>st_id = item, st_amount = amount\<rparr>])"

definition add_trade_item :: "game \<Rightarrow> int \<Rightarrow> int \<Rightarrow> chr \<Rightarrow> chr \<times> bool" where
  "add_trade_item g item amount0 c =
     (let amount = min amount0 (has_item item (\<not> gm_TradeAddQuantity g) c);
          total = s32 (offered_amount item (ch_trade_inventory c) + amount)
      in if \<not> item_exists g item then (c, False)
         else if amount \<le> 0 \<or> gm_MaxTrade g < amount then (c, False)
         else if gm_TradeAddQuantity g \<and> (total < 0 \<or> gm_MaxTrade g < total) then (c, False)
         else (c\<lparr>ch_trade_inventory :=
                 put_offer (gm_TradeAddQuantity g) item amount (ch_trade_inventory c)\<rparr>, True))"

definition del_trade_item :: "int \<Rightarrow> chr \<Rightarrow> chr \<times> bool" where
  "del_trade_item item c =
     (case find_stack item (ch_trade_inventory c) of
        Some st \<Rightarrow> (c\<lparr>ch_trade_inventory := erase_stack item (ch_trade_inventory c)\<rparr>, True)
      | None \<Rightarrow> (c, False))"

section \<open>Spells\<close>

definition has_spell :: "int \<Rightarrow> chr \<Rightarrow> bool" where
  "has_spell spell c \<longleftrightarrow> list_ex (\<lambda>cs. sp_id cs = spell) (ch_spells c)"

definition spell_level :: "int \<Rightarrow> chr \<Rightarrow> int" where
  "spell_level spell c =
     (case find (\<lambda>cs. sp_id cs = spell) (ch_spells c) of Some cs \<Rightarrow> sp_level cs | None \<Rightarrow> 0)"

definition add_spell :: "game \<Rightarrow> int \<Rightarrow> chr \<Rightarrow> chr \<times> bool" where
  "add_spell g spell c =
     (if spell \<le> 0 \<or> nat spell \<ge> gm_esf_size g then (c, False)
      else if has_spell spell c then (c, False)
      else (c\<lparr>ch_spells := ch_spells c @ [\<lparr>sp_id = spell, sp_level = 0\<rparr>]\<rparr>, True))"

definition del_spell :: "int \<Rightarrow> chr \<Rightarrow> chr \<times> bool" where
  "del_spell spell c =
     (let kept = filter (\<lambda>cs. sp_id cs \<noteq> spell) (ch_spells c)
      in (c\<lparr>ch_spells := kept\<rparr>, length kept \<noteq> length (ch_spells c)))"

section \<open>Paperdoll\<close>

datatype equip_location =
    Boots | Accessory | Gloves | Belt | Armor | Necklace | Hat | Shield | Weapon | Ring1 | Ring2
  | Armlet1 | Armlet2 | Bracer1 | Bracer2

fun slot_no :: "equip_location \<Rightarrow> nat" where
  "slot_no Boots = 0" | "slot_no Accessory = 1" | "slot_no Gloves = 2" | "slot_no Belt = 3"
| "slot_no Armor = 4" | "slot_no Necklace = 5" | "slot_no Hat = 6" | "slot_no Shield = 7"
| "slot_no Weapon = 8" | "slot_no Ring1 = 9" | "slot_no Ring2 = 10" | "slot_no Armlet1 = 11"
| "slot_no Armlet2 = 12" | "slot_no Bracer1 = 13" | "slot_no Bracer2 = 14"

abbreviation doll :: "chr \<Rightarrow> equip_location \<Rightarrow> int" where
  "doll c slot \<equiv> ch_paperdoll c ! slot_no slot"

definition set_doll :: "equip_location \<Rightarrow> int \<Rightarrow> chr \<Rightarrow> chr" where
  "set_doll slot item c = c\<lparr>ch_paperdoll := (ch_paperdoll c)[slot_no slot := item]\<rparr>"

definition second_slot :: "nat \<Rightarrow> int" where
  "second_slot i = (if i = slot_no Ring2 \<or> i = slot_no Armlet2 \<or> i = slot_no Bracer2 then 1 else 0)"

definition unequip :: "game \<Rightarrow> int \<Rightarrow> int \<Rightarrow> chr \<Rightarrow> chr \<times> bool" where
  "unequip g item subloc c =
     (if item = 0 then (c, False)
      else case find (\<lambda>i. ch_paperdoll c ! i = item \<and> second_slot i = subloc) [0..<length (ch_paperdoll c)] of
             Some i \<Rightarrow>
               (let c1 = c\<lparr>ch_paperdoll := (ch_paperdoll c)[i := 0]\<rparr>
                in (calculate_stats g (fst (add_item g item 1 c1)), True))
           | None \<Rightarrow> (c, False))"

definition equip_oneslot :: "game \<Rightarrow> int \<Rightarrow> equip_location \<Rightarrow> chr \<Rightarrow> chr \<times> bool" where
  "equip_oneslot g item slot c =
     (if doll c slot \<noteq> 0 then (c, False)
      else (calculate_stats g (fst (del_item g item 1 (set_doll slot item c))), True))"

definition equip_twoslot ::
  "game \<Rightarrow> int \<Rightarrow> int \<Rightarrow> equip_location \<Rightarrow> equip_location \<Rightarrow> chr \<Rightarrow> chr \<times> bool" where
  "equip_twoslot g item subloc slot1 slot2 c =
     (if subloc = 0
      then (if doll c slot1 \<noteq> 0 then (c, False)
            else (calculate_stats g (fst (del_item g item 1 (set_doll slot1 item c))), True))
      else (if doll c slot2 \<noteq> 0 then (c, False)
            else (calculate_stats g (fst (del_item g item 1 (set_doll slot2 item c))), True)))"

text \<open>The tests of \<open>Equip\<close> before the \<open>switch\<close>: gender, two-handed weapons, requirements.\<close>

definition weapon_clash :: "game \<Rightarrow> eif_data \<Rightarrow> chr \<Rightarrow> bool" where
  "weapon_clash g eif c \<longleftrightarrow>
     eif_type eif = EIF_Weapon \<and> eif_subtype eif = EIF_TwoHanded \<and> doll c Shield \<noteq> 0 \<and>
     (let shield_eif = eif_get (gm_eif g) (doll c Shield)
      in eif_dual_wield_dollgraphic eif \<noteq> 0 \<or>
         eif_subtype shield_eif \<noteq> EIF_Arrows \<and> eif_subtype shield_eif \<noteq> EIF_Wings)"

definition shield_clash :: "game \<Rightarrow> eif_data \<Rightarrow> chr \<Rightarrow> bool" where
  "shield_clash g eif c \<longleftrightarrow>
     eif_type eif = EIF_Shield \<and> doll c Weapon \<noteq> 0 \<and>
     (let weapon_eif = eif_get (gm_eif g) (doll c Weapon)
      in eif_subtype weapon_eif = EIF_TwoHanded \<and>
         (eif_dual_wield_dollgraphic weapon_eif \<noteq> 0 \<or>
          eif_subtype eif \<noteq> EIF_Arrows \<and> eif_subtype eif \<noteq> EIF_Wings))"

definition requirements_fail :: "game \<Rightarrow> eif_data \<Rightarrow> chr \<Rightarrow> bool" where
  "requirements_fail g eif c \<longleftrightarrow>
     ch_level c < eif_levelreq eif
     \<or> (ch_clas c \<noteq> eif_classreq eif \<and> gm_ecf_base g (ch_clas c) \<noteq> eif_classreq eif)
     \<or> ch_display_str c < eif_strreq eif \<or> ch_display_intl c < eif_intreq eif
     \<or> ch_display_wis c < eif_wisreq eif \<or> ch_display_agi c < eif_agireq eif
     \<or> ch_display_con c < eif_conreq eif \<or> ch_display_cha c < eif_chareq eif"

definition equip :: "game \<Rightarrow> int \<Rightarrow> int \<Rightarrow> chr \<Rightarrow> chr \<times> bool" where
  "equip g item subloc c =
     (let eif = eif_get (gm_eif g) item
      in if has_item item False c = 0 then (c, False)
         else if eif_type eif = EIF_Armor \<and> eif_gender eif \<noteq> ch_gender c then (c, False)
         else if weapon_clash g eif c then (c, False)
         else if shield_clash g eif c then (c, False)
         else if requirements_fail g eif c then (c, False)
         else case eif_type eif of
                EIF_Weapon \<Rightarrow> equip_oneslot g item Weapon c
              | EIF_Shield \<Rightarrow> equip_oneslot g item Shield c
              | EIF_Hat \<Rightarrow> equip_oneslot g item Hat c
              | EIF_Boots \<Rightarrow> equip_oneslot g item Boots c
              | EIF_Gloves \<Rightarrow> equip_oneslot g item Gloves c
              | EIF_Accessory \<Rightarrow> equip_oneslot g item Accessory c
              | EIF_Belt \<Rightarrow> equip_oneslot g item Belt c
              | EIF_Armor \<Rightarrow> equip_oneslot g item Armor c
              | EIF_Necklace \<Rightarrow> equip_oneslot g item Necklace c
              | EIF_Ring \<Rightarrow> equip_twoslot g item subloc Ring1 Ring2 c
              | EIF_Armlet \<Rightarrow> equip_twoslot g item subloc Armlet1 Armlet2 c
              | EIF_Bracer \<Rightarrow> equip_twoslot g item subloc Bracer1 Bracer2 c
              | _ \<Rightarrow> (c, False))"

section \<open>What the operations change\<close>

lemma calculate_stats_sel [simp]:
  "ch_inventory (calculate_stats g c) = ch_inventory c"
  "ch_paperdoll (calculate_stats g c) = ch_paperdoll c"
  "ch_bank (calculate_stats g c) = ch_bank c"
  "ch_goldbank (calculate_stats g c) = ch_goldbank c"
  "ch_bankmax (calculate_stats g c) = ch_bankmax c"
  "ch_spells (calculate_stats g c) = ch_spells c"
  "ch_trading (calculate_stats g c) = ch_trading c"
  "ch_trade_partner (calculate_stats g c) = ch_trade_partner c"
  "ch_trade_agree (calculate_stats g c) = ch_trade_agree c"
  "ch_trade_inventory (calculate_stats g c) = ch_trade_inventory c"
  "ch_mapid (calculate_stats g c) = ch_mapid c"
  "ch_admin (calculate_stats g c) = ch_admin c"
  "ch_can_interact_items (calculate_stats g c) = ch_can_interact_items c"
  "ch_npc_type (calculate_stats g c) = ch_npc_type c"
  by (simp_all add: calculate_stats_def Let_def)

text \<open>Only the inventory, the weight and the maximal weight.\<close>

definition same_but_inventory :: "chr \<Rightarrow> chr \<Rightarrow> bool" where
  "same_but_inventory c c' \<longleftrightarrow>
     c' = c\<lparr>ch_inventory := ch_inventory c', ch_weight := ch_weight c', ch_maxweight := ch_maxweight c'\<rparr>"

lemma same_but_inventory_calc [intro]:
  "same_but_inventory c (calculate_stats g (c\<lparr>ch_inventory := sts\<rparr>))"
  by (simp add: same_but_inventory_def calculate_stats_def Let_def)

lemma same_but_inventory_refl [simp]: "same_but_inventory c c"
  by (simp add: same_but_inventory_def)

lemma same_but_inventory_add [simp]: "same_but_inventory c (fst (add_item g i n c))"
  by (auto simp: add_item_def split: option.split)

lemma same_but_inventory_del [simp]: "same_but_inventory c (fst (del_item g i n c))"
  by (auto simp: del_item_def split: option.split)

lemma same_but_inventoryD:
  assumes "same_but_inventory c c'"
  shows "ch_bank c' = ch_bank c" "ch_goldbank c' = ch_goldbank c" "ch_trading c' = ch_trading c"
    "ch_trade_inventory c' = ch_trade_inventory c" "ch_trade_partner c' = ch_trade_partner c"
    "ch_trade_agree c' = ch_trade_agree c" "ch_paperdoll c' = ch_paperdoll c"
    "ch_bankmax c' = ch_bankmax c" "ch_mapid c' = ch_mapid c" "ch_spells c' = ch_spells c"
    "ch_can_interact_items c' = ch_can_interact_items c" "ch_npc_type c' = ch_npc_type c"
    "ch_admin c' = ch_admin c"
  using assms by (cases c, cases c', simp add: same_but_inventory_def)+

lemmas add_item_frame [simp] = same_but_inventoryD [OF same_but_inventory_add]
lemmas del_item_frame [simp] = same_but_inventoryD [OF same_but_inventory_del]

section \<open>The inventory as a stock\<close>

definition owned :: "chr \<Rightarrow> int \<Rightarrow> int" where
  "owned c = amount_of (ch_inventory c)"

definition inventory_ok :: "chr \<Rightarrow> bool" where
  "inventory_ok c \<longleftrightarrow> stacks_ok (ch_inventory c) \<and> ints_ok (ch_inventory c)"

definition inventory_room :: "game \<Rightarrow> chr \<Rightarrow> int \<Rightarrow> int \<Rightarrow> bool" where
  "inventory_room g c item n \<longleftrightarrow>
     item_exists g item \<and> owned c item + n \<le> int_max
     \<and> (owned c item = 0 \<or> owned c item + n \<le> gm_MaxItem g)"

lemma owned_find:
  "inventory_ok c \<Longrightarrow>
   owned c item = (case find_stack item (ch_inventory c) of None \<Rightarrow> 0 | Some st \<Rightarrow> st_amount st)"
  by (simp add: owned_def inventory_ok_def amount_of_find)

lemma find_stack_pos: "stacks_ok sts \<Longrightarrow> find_stack item sts = Some st \<Longrightarrow> 0 < st_amount st"
  using find_stack_SomeD by (fastforce simp: stacks_ok_def)

lemma has_item_owned:
  "inventory_ok c \<Longrightarrow> \<not> ch_trading c \<or> include_trade \<Longrightarrow> has_item item include_trade c = owned c item"
  by (auto simp: has_item_def owned_find split: option.split)

lemma has_item_le_owned: "inventory_ok c \<Longrightarrow> stacks_ok (ch_trade_inventory c) \<Longrightarrow>
    0 \<le> has_item item t c \<and> has_item item t c \<le> owned c item"
  using find_stack_pos [of "ch_inventory c" item] find_stack_pos [of "ch_trade_inventory c" item]
  by (auto simp: has_item_def owned_find inventory_ok_def split: option.split)

lemma add_item_spec:
  assumes "inventory_ok c" "0 < n" "inventory_room g c item n"
  shows "inventory_ok (fst (add_item g item n c)) \<and> snd (add_item g item n c)
    \<and> owned (fst (add_item g item n c)) = (owned c)(item := owned c item + n)"
proof (cases "find_stack item (ch_inventory c)")
  case None
  moreover from None have "item \<notin> st_id ` set (ch_inventory c)" by (simp add: find_stack_None)
  ultimately show ?thesis using assms
    by (auto simp: add_item_def inventory_room_def inventory_ok_def owned_def fun_eq_iff)
next
  case (Some st)
  let ?f = "\<lambda>a. min (s32 (a + n)) (gm_MaxItem g)"
  have pos: "0 < st_amount st" and own: "owned c item = st_amount st"
    using Some assms find_stack_pos by (auto simp: inventory_ok_def owned_find [OF assms(1)])
  then have le: "st_amount st + n \<le> gm_MaxItem g" "st_amount st + n \<le> int_max"
    and m: "s32 (st_amount st + n) = st_amount st + n"
    using assms by (simp_all add: inventory_room_def s32_id)
  have "stacks_ok (update_stack item ?f (ch_inventory c))"
    using assms pos le m Some by (intro stacks_ok_update) (auto simp: inventory_ok_def)
  moreover have "ints_ok (update_stack item ?f (ch_inventory c))"
    using assms le m Some by (intro ints_ok_update) (auto simp: inventory_ok_def)
  ultimately show ?thesis using assms Some pos le m
    by (auto simp: add_item_def inventory_room_def inventory_ok_def owned_def amount_of_update fun_eq_iff)
qed

lemma del_item_keeps: "inventory_ok c \<Longrightarrow> inventory_ok (fst (del_item g item n c))"
proof (cases "find_stack item (ch_inventory c)")
  case (Some st)
  assume ok: "inventory_ok c"
  have "stacks_ok (update_stack item (\<lambda>a. a - n) (ch_inventory c))" if "\<not> st_amount st - n \<le> 0"
    using ok Some that by (intro stacks_ok_update) (auto simp: inventory_ok_def)
  moreover have "ints_ok (update_stack item (\<lambda>a. a - n) (ch_inventory c))" if "0 < n"
    using ok Some that ints_ok_find [of "ch_inventory c" item]
    by (intro ints_ok_update) (fastforce simp: inventory_ok_def)+
  ultimately show ?thesis using ok Some
    by (auto simp: del_item_def inventory_ok_def stacks_ok_erase ints_ok_erase)
qed (auto simp: del_item_def)

lemma del_item_spec:
  assumes "inventory_ok c" "0 < n" "n \<le> owned c item"
  shows "inventory_ok (fst (del_item g item n c)) \<and> snd (del_item g item n c)
    \<and> owned (fst (del_item g item n c)) = (owned c)(item := owned c item - n)"
proof (cases "find_stack item (ch_inventory c)")
  case None
  then show ?thesis using assms owned_find [OF assms(1), of item] by simp
next
  case (Some st)
  then have "0 < st_amount st" "owned c item = st_amount st"
    using assms find_stack_pos by (auto simp: inventory_ok_def owned_find [OF assms(1)])
  then have "snd (del_item g item n c)
      \<and> owned (fst (del_item g item n c)) = (owned c)(item := owned c item - n)"
    using assms Some by (auto simp: del_item_def owned_def amount_of_update amount_of_erase fun_eq_iff)
  then show ?thesis using del_item_keeps [OF assms(1)] by blast
qed

text \<open>Adding keeps an inventory well formed even when the amount is cut at \<open>MaxItem\<close>.\<close>

lemma add_item_keeps:
  assumes "1 \<le> gm_MaxItem g" "n \<le> int_max" "inventory_ok c"
  shows "inventory_ok (fst (add_item g item n c))"
proof (cases "find_stack item (ch_inventory c)")
  case None
  moreover have "item \<notin> st_id ` set (ch_inventory c)" using None by (simp add: find_stack_None)
  ultimately show ?thesis using assms by (auto simp: add_item_def inventory_ok_def)
next
  case (Some st)
  let ?f = "\<lambda>a. min (s32 (a + n)) (gm_MaxItem g)"
  have st: "0 < st_amount st" "st_amount st \<le> int_max"
    using Some assms find_stack_pos ints_ok_find by (auto simp: inventory_ok_def)
  show ?thesis
  proof (cases "0 < n \<and> 0 \<le> s32 (st_amount st + n)")
    case True
    then have "st_amount st + n \<le> int_max"
      using st assms(2) s32_add_nonneg [of "st_amount st" n] by simp
    then have "0 < s32 (st_amount st + n)" using st True by (simp add: s32_id)
    then have "stacks_ok (update_stack item ?f (ch_inventory c))"
      using assms Some by (intro stacks_ok_update) (auto simp: inventory_ok_def)
    moreover have "ints_ok (update_stack item ?f (ch_inventory c))"
      using assms by (intro ints_ok_update) (auto simp: inventory_ok_def min_le_iff_disj s32_range)
    ultimately show ?thesis using Some True assms by (auto simp: add_item_def inventory_ok_def)
  qed (use Some assms in \<open>auto simp: add_item_def\<close>)
qed

abbreviation inv_put :: "game \<Rightarrow> int \<Rightarrow> int \<Rightarrow> chr \<Rightarrow> chr" where
  "inv_put g i n c \<equiv> fst (add_item g i n c)"

abbreviation inv_take :: "game \<Rightarrow> int \<Rightarrow> int \<Rightarrow> chr \<Rightarrow> chr" where
  "inv_take g i n c \<equiv> fst (del_item g i n c)"

interpretation bag: stock owned inventory_ok "inventory_room g" "inv_put g" "inv_take g" for g
  by unfold_locales (simp_all add: add_item_spec del_item_spec)

section \<open>Offers\<close>

text \<open>What is offered is owned: the invariant that makes a trade conserve the items.\<close>

definition offer_ok :: "chr \<Rightarrow> bool" where
  "offer_ok c \<longleftrightarrow> stacks_ok (ch_trade_inventory c)
     \<and> (\<forall>item. amount_of (ch_trade_inventory c) item \<le> owned c item)"

lemma fold_offered:
  "distinct (map st_id sts) \<Longrightarrow>
   fold (\<lambda>st n. if st_id st = item then st_amount st else n) sts m =
     (case find_stack item sts of None \<Rightarrow> m | Some st \<Rightarrow> st_amount st)"
proof (induction sts arbitrary: m)
  case (Cons st sts)
  then have "st_id st = item \<Longrightarrow> find_stack item sts = None"
    by (auto simp: find_stack_None)
  with Cons show ?case by auto
qed simp

lemma offered_amount_of:
  "stacks_ok sts \<Longrightarrow> offered_amount item sts = amount_of sts item"
  by (simp add: offered_amount_def fold_offered amount_of_find stacks_ok_def)

lemma has_item_offer:
  assumes "inventory_ok c" "offer_ok c" "ch_trading c"
  shows "has_item item False c = owned c item - amount_of (ch_trade_inventory c) item"
proof -
  have le: "amount_of (ch_trade_inventory c) item \<le> owned c item" using assms(2) by (simp add: offer_ok_def)
  have ok: "stacks_ok (ch_trade_inventory c)" using assms(2) by (simp add: offer_ok_def)
  show ?thesis
  proof (cases "find_stack item (ch_inventory c)")
    case None
    then have "amount_of (ch_trade_inventory c) item = 0"
      using le amount_of_nonneg [OF ok, of item] by (simp add: owned_find [OF assms(1)])
    with None show ?thesis by (simp add: has_item_def owned_find [OF assms(1)])
  next
    case (Some it)
    with le show ?thesis using assms(3)
      by (cases "find_stack item (ch_trade_inventory c)")
        (simp_all add: has_item_def owned_find [OF assms(1)] amount_of_find [OF ok])
  qed
qed

lemma owned_trade_update [simp]: "owned (c\<lparr>ch_trade_inventory := sts\<rparr>) = owned c"
  by (simp add: owned_def)

lemma put_offer_spec:
  assumes "stacks_ok sts" "0 < n"
  shows "stacks_ok (put_offer q item n sts)
    \<and> amount_of (put_offer q item n sts) i =
        (if i = item then (if q then amount_of sts item else 0) + n else amount_of sts i)"
proof (cases "find_stack item sts")
  case None
  then have "item \<notin> st_id ` set sts" by (simp add: find_stack_None)
  with None assms show ?thesis by (simp add: put_offer_def)
next
  case (Some st)
  let ?f = "\<lambda>a. if q then a + n else n"
  have st: "amount_of sts item = st_amount st" "0 < st_amount st"
    using assms Some find_stack_pos by (auto simp: amount_of_find)
  then have "stacks_ok (update_stack item ?f sts)"
    using assms Some by (intro stacks_ok_update) auto
  then show ?thesis using Some st by (simp add: put_offer_def amount_of_update)
qed

lemma add_trade_item_result:
  "add_trade_item g item n c = (c, False)
   \<or> 0 < min n (has_item item (\<not> gm_TradeAddQuantity g) c)
     \<and> add_trade_item g item n c = (c\<lparr>ch_trade_inventory :=
         put_offer (gm_TradeAddQuantity g) item (min n (has_item item (\<not> gm_TradeAddQuantity g) c))
           (ch_trade_inventory c)\<rparr>, True)"
proof -
  obtain amount where a: "amount = min n (has_item item (\<not> gm_TradeAddQuantity g) c)" by blast
  show ?thesis unfolding add_trade_item_def Let_def a [symmetric] by auto
qed

lemma add_trade_item_only_offer:
  "\<exists>sts. fst (add_trade_item g item n c) = c\<lparr>ch_trade_inventory := sts\<rparr>"
  using add_trade_item_result [of g item n c]
proof (elim disjE conjE)
  assume "add_trade_item g item n c = (c, False)"
  then show ?thesis by (intro exI [of _ "ch_trade_inventory c"]) simp
qed auto

lemma add_trade_item_ok:
  assumes "inventory_ok c" "offer_ok c" "ch_trading c"
  shows "offer_ok (fst (add_trade_item g item n c)) \<and> inventory_ok (fst (add_trade_item g item n c))"
proof -
  let ?q = "gm_TradeAddQuantity g" and ?sts = "ch_trade_inventory c"
  let ?n = "min n (has_item item (\<not> ?q) c)"
  have ok: "stacks_ok ?sts" "amount_of ?sts i \<le> owned c i" for i using assms(2) by (auto simp: offer_ok_def)
  have "?n \<le> owned c item - (if ?q then amount_of ?sts item else 0)"
    using has_item_offer [OF assms, of item] has_item_owned [OF assms(1), of True item] by auto
  then have "amount_of (put_offer ?q item ?n ?sts) i \<le> owned c i" if "0 < ?n" for i
    using put_offer_spec [OF ok(1) that, of ?q item i] ok(2) [of i] by auto
  then have "offer_ok (c\<lparr>ch_trade_inventory := put_offer ?q item ?n ?sts\<rparr>)" if "0 < ?n"
    using put_offer_spec [OF ok(1) that, of ?q item] that by (simp add: offer_ok_def)
  with assms add_trade_item_result [of g item n c] show ?thesis
    by (elim disjE conjE) (simp_all add: inventory_ok_def)
qed

lemma del_trade_item_ok:
  assumes "inventory_ok c" "offer_ok c"
  shows "offer_ok (fst (del_trade_item item c)) \<and> inventory_ok (fst (del_trade_item item c))"
proof -
  have "amount_of (erase_stack item (ch_trade_inventory c)) i \<le> owned c i" for i
  proof -
    have "0 \<le> (case find_stack item (ch_trade_inventory c) of
        None \<Rightarrow> 0 | Some st \<Rightarrow> if i = item then st_amount st else 0)"
      using assms(2) find_stack_pos [of "ch_trade_inventory c" item]
      by (auto simp: offer_ok_def split: option.split)
    moreover have "amount_of (ch_trade_inventory c) i \<le> owned c i" using assms(2) by (simp add: offer_ok_def)
    ultimately show ?thesis by (simp add: amount_of_erase)
  qed
  then show ?thesis using assms
    by (auto simp: del_trade_item_def offer_ok_def inventory_ok_def owned_def stacks_ok_erase
        split: option.split)
qed

text \<open>C24: While a character trades, \<open>AddTradeItem\<close> and \<open>DelTradeItem\<close> keep its offer covered by its
  inventory, one stack per item, in both modes of \<open>TradeAddQuantity\<close> and for every amount asked
  for; the inventory itself is not touched.\<close>

theorem offer_stays_covered:
  assumes "inventory_ok c" "offer_ok c" "ch_trading c"
  shows "offer_ok (fst (add_trade_item g item n c)) \<and> offer_ok (fst (del_trade_item item c))
    \<and> ch_inventory (fst (add_trade_item g item n c)) = ch_inventory c
    \<and> ch_inventory (fst (del_trade_item item c)) = ch_inventory c"
proof -
  have "ch_inventory (fst (add_trade_item g item n c)) = ch_inventory c"
    using add_trade_item_only_offer [of g item n c] by auto
  moreover have "ch_inventory (fst (del_trade_item item c)) = ch_inventory c"
    by (simp add: del_trade_item_def split: option.split)
  ultimately show ?thesis using add_trade_item_ok [OF assms] del_trade_item_ok [OF assms(1,2)] by simp
qed

section \<open>A small world\<close>

text \<open>Gold (item 1), a stone of weight 1 (item 2) and a ring of weight 2 (item 3), used by the witnesses.\<close>

definition sample_items :: "eif_data list" where
  "sample_items =
     [eif_default, eif_default\<lparr>eif_id := 1, eif_type := EIF_Money, eif_special := EIF_Normal\<rparr>,
      eif_default\<lparr>eif_id := 2, eif_special := EIF_Normal, eif_weight := 1\<rparr>,
      eif_default\<lparr>eif_id := 3, eif_type := EIF_Ring, eif_special := EIF_Normal, eif_weight := 2\<rparr>]"

definition sample_game :: game where
  "sample_game = \<lparr>gm_eif = sample_items, gm_esf_size = 2, gm_ecf_base = (\<lambda>_. 0),
     gm_weight_formula = (\<lambda>_. 80), gm_MaxItem = 2000000000, gm_MaxTrade = 2000000000,
     gm_TradeAddQuantity = False, gm_EnforceWeight = 2, gm_unlimitedweight = 3, gm_JailMap = 76,
     gm_MaxBankGold = 2000000000, gm_MaxBank = 200, gm_BaseBankSize = 25, gm_BankSizeStep = 5,
     gm_BankUpgradeBase = 1000, gm_BankUpgradeStep = 1000, gm_MaxBankUpgrades = 7,
     gm_MaxChest = 10000000, gm_MaxShopBuy = 4,
     gm_SeeDistance = 11, gm_MaxDrop = 10000000, gm_DropDistance = 2, gm_MaxTile = 8, gm_MaxMap = 400,
     gm_ProtectPlayerDrop = 5, gm_GhostArena = False\<rparr>"

definition sample_chr :: "(int \<times> int) list \<Rightarrow> chr" where
  "sample_chr items = \<lparr>ch_name = ''someone'', ch_admin = 0, ch_clas = 0, ch_gender = 0, ch_level = 0,
     ch_mapid = 1, ch_x = 5, ch_y = 5, ch_can_interact_items = True, ch_display_str = 0,
     ch_display_intl = 0, ch_display_wis = 0, ch_display_agi = 0, ch_display_con = 0,
     ch_display_cha = 0, ch_inventory = map (\<lambda>(i, n). \<lparr>st_id = i, st_amount = n\<rparr>) items,
     ch_bank = [], ch_paperdoll = replicate 15 0, ch_spells = [], ch_weight = 0, ch_maxweight = 80,
     ch_bankmax = 0, ch_goldbank = 0, ch_trading = False, ch_trade_partner = None,
     ch_trade_agree = False, ch_trade_inventory = [], ch_npc = 0, ch_npc_type = ENF_NPC, ch_nowhere = False\<rparr>"

lemmas sample_defs = sample_items_def sample_game_def sample_chr_def eif_default_def eif_get_def

theorem offer_stays_covered_witness:
  "offer_ok (fst (add_trade_item sample_game 1 700 ((sample_chr [(1, 500)])\<lparr>ch_trading := True\<rparr>)))
   \<and> ch_trade_inventory (fst (add_trade_item sample_game 1 700 ((sample_chr [(1, 500)])\<lparr>ch_trading := True\<rparr>)))
     = [\<lparr>st_id = 1, st_amount = 500\<rparr>]"
proof -
  let ?c = "(sample_chr [(1, 500)])\<lparr>ch_trading := True\<rparr>"
  have "inventory_ok ?c" "offer_ok ?c" "ch_trading ?c"
    by (simp_all add: inventory_ok_def offer_ok_def owned_def sample_chr_def int_max_def)
  from offer_stays_covered [OF this, of sample_game 1 700] show ?thesis
    by (simp add: add_trade_item_def Let_def has_item_def item_exists_def put_offer_def
        offered_amount_def sample_defs)
qed

section \<open>The weight limit\<close>

text \<open>The weight of a character's things, computed without bound.\<close>

definition stacks_weight :: "eif_data list \<Rightarrow> item_stack list \<Rightarrow> int" where
  "stacks_weight data sts = (\<Sum>st\<leftarrow>sts. eif_weight (eif_get data (st_id st)) * st_amount st)"

definition doll_weight :: "eif_data list \<Rightarrow> int list \<Rightarrow> int" where
  "doll_weight data is = (\<Sum>i\<leftarrow>is. if i \<noteq> 0 then eif_weight (eif_get data i) else 0)"

definition weights_ok :: "eif_data list \<Rightarrow> bool" where
  "weights_ok data \<longleftrightarrow> (\<forall>item. 0 \<le> eif_weight (eif_get data item))"

lemma stacks_weight_simps [simp]:
  "stacks_weight data [] = 0"
  "stacks_weight data (st # sts) =
     eif_weight (eif_get data (st_id st)) * st_amount st + stacks_weight data sts"
  "stacks_weight data (sts @ sts') = stacks_weight data sts + stacks_weight data sts'"
  by (simp_all add: stacks_weight_def)

lemma stacks_weight_nonneg: "weights_ok data \<Longrightarrow> stacks_ok sts \<Longrightarrow> 0 \<le> stacks_weight data sts"
  by (induction sts) (auto simp: weights_ok_def)

lemma doll_weight_nonneg: "weights_ok data \<Longrightarrow> 0 \<le> doll_weight data is"
  by (induction "is") (auto simp: doll_weight_def weights_ok_def)

lemma inventory_weight_eq:
  assumes "weights_ok data" "stacks_ok sts" "0 \<le> w" "w + stacks_weight data sts \<le> 250"
  shows "inventory_weight data w sts = w + stacks_weight data sts"
  using assms(2-4)
proof (induction sts arbitrary: w)
  case (Cons st sts)
  let ?x = "eif_weight (eif_get data (st_id st)) * st_amount st"
  have x: "0 \<le> ?x" using Cons.prems assms(1) by (simp add: weights_ok_def)
  have r: "0 \<le> stacks_weight data sts" using stacks_weight_nonneg [OF assms(1)] Cons.prems by simp
  have s: "s16 (w + ?x) = w + ?x" using Cons.prems x r by (simp add: s16_id)
  show ?case
  proof (cases "250 \<le> w + ?x")
    case True
    then show ?thesis using s Cons.prems r by (simp add: Let_def)
  next
    case False
    then show ?thesis using s Cons.prems r x Cons.IH [of "w + ?x"] by (simp add: Let_def)
  qed
qed simp

lemma paperdoll_weight_eq:
  assumes "weights_ok data" "0 \<le> w" "w + doll_weight data is \<le> 250"
  shows "paperdoll_weight data w is = w + doll_weight data is"
  using assms(2-3)
proof (induction "is" arbitrary: w)
  case (Cons i "is")
  have "0 \<le> doll_weight data is" "0 \<le> eif_weight (eif_get data i)"
    using assms(1) doll_weight_nonneg by (auto simp: weights_ok_def)
  then show ?case using Cons by (auto simp: doll_weight_def s16_id)
qed (simp add: doll_weight_def)

definition total_weight :: "game \<Rightarrow> chr \<Rightarrow> int" where
  "total_weight g c = stacks_weight (gm_eif g) (ch_inventory c) + doll_weight (gm_eif g) (ch_paperdoll c)"

lemma calculate_stats_weight:
  assumes "weights_ok (gm_eif g)" "inventory_ok c" "total_weight g c \<le> 250"
    "ch_admin c < gm_unlimitedweight g"
  shows "ch_weight (calculate_stats g c) = total_weight g c"
proof -
  have n: "0 \<le> stacks_weight (gm_eif g) (ch_inventory c)" "0 \<le> doll_weight (gm_eif g) (ch_paperdoll c)"
    using stacks_weight_nonneg doll_weight_nonneg assms by (auto simp: inventory_ok_def)
  then have "paperdoll_weight (gm_eif g) (inventory_weight (gm_eif g) 0 (ch_inventory c)) (ch_paperdoll c)
      = total_weight g c"
    using assms inventory_weight_eq [of "gm_eif g" "ch_inventory c" 0]
      paperdoll_weight_eq [of "gm_eif g" "stacks_weight (gm_eif g) (ch_inventory c)" "ch_paperdoll c"]
    by (simp add: total_weight_def inventory_ok_def)
  then show ?thesis using assms n by (simp add: calculate_stats_def Let_def total_weight_def)
qed

lemma stacks_weight_update:
  assumes "find_stack item sts = Some st"
  shows "stacks_weight data (update_stack item f sts) =
    stacks_weight data sts + eif_weight (eif_get data item) * (f (st_amount st) - st_amount st)"
  using assms by (induction sts) (auto simp: algebra_simps)

lemma add_item_weight:
  assumes "inventory_ok c" "0 < n" "inventory_room g c item n"
  shows "total_weight g (fst (add_item g item n c)) = total_weight g c + eif_weight (eif_get (gm_eif g) item) * n"
proof (cases "find_stack item (ch_inventory c)")
  case None
  then show ?thesis using assms by (auto simp: add_item_def inventory_room_def total_weight_def)
next
  case (Some st)
  then have pos: "0 < st_amount st" and own: "owned c item = st_amount st"
    using assms find_stack_pos by (auto simp: inventory_ok_def owned_find [OF assms(1)])
  then have "st_amount st + n \<le> gm_MaxItem g" "s32 (st_amount st + n) = st_amount st + n"
    using assms by (simp_all add: inventory_room_def s32_id)
  with Some pos assms show ?thesis
    by (simp add: add_item_def inventory_room_def total_weight_def stacks_weight_update)
qed

lemma add_item_calculated:
  assumes "0 < n" "item_exists g item" "find_stack item (ch_inventory c) = None \<or> snd (add_item g item n c)"
  shows "\<exists>sts. fst (add_item g item n c) = calculate_stats g (c\<lparr>ch_inventory := sts\<rparr>)"
  using assms by (auto simp: add_item_def split: option.splits if_splits)

text \<open>Weight is enforced by \<open>CanHoldItem\<close>: a character within its limit that takes no more of an
  item than \<open>CanHoldItem\<close> allows is within its limit afterwards, when the limit itself is at most
  250, as \<open>CalculateStats\<close> makes it, and has not changed.\<close>

theorem can_hold_item_weight:
  assumes "weights_ok (gm_eif g)" "inventory_ok c" "0 < n" "inventory_room g c item n"
    and "2 \<le> gm_EnforceWeight g" "ch_admin c < gm_unlimitedweight g"
    and "ch_weight c = total_weight g c" "ch_weight c \<le> ch_maxweight c" "ch_maxweight c \<le> 250"
    and "n \<le> can_hold_item g item m c" "eif_id (eif_get (gm_eif g) item) \<noteq> 0"
  shows "ch_weight (fst (add_item g item n c)) \<le> ch_maxweight c"
proof -
  let ?w = "eif_weight (eif_get (gm_eif g) item)"
  have w: "0 \<le> ?w" using assms(1) by (simp add: weights_ok_def)
  have "?w * n \<le> ch_maxweight c - ch_weight c"
  proof (cases "?w = 0")
    case False
    then have "n \<le> (ch_maxweight c - ch_weight c) div ?w"
      using assms by (simp add: can_hold_item_def Let_def)
    then have "?w * n \<le> ?w * ((ch_maxweight c - ch_weight c) div ?w)" using w by (simp add: mult_left_mono)
    also have "\<dots> \<le> ch_maxweight c - ch_weight c"
      using w False by (metis minus_mod_eq_mult_div [symmetric] diff_ge_0_iff_ge pos_mod_sign
          le_less add_diff_cancel_left' diff_add_cancel le_add_same_cancel1 minus_mod_eq_mult_div)
    finally show ?thesis .
  qed (use assms in simp)
  moreover let ?c = "fst (add_item g item n c)"
  have t: "total_weight g ?c = total_weight g c + ?w * n"
    using assms by (intro add_item_weight)
  obtain sts where sts: "?c = calculate_stats g (c\<lparr>ch_inventory := sts\<rparr>)"
    using add_item_calculated [of n g item c] add_item_spec [OF assms(2-4)] assms(3,4)
    by (auto simp: inventory_room_def)
  have "ch_weight ?c = total_weight g (c\<lparr>ch_inventory := sts\<rparr>)"
    unfolding sts
  proof (rule calculate_stats_weight)
    show "inventory_ok (c\<lparr>ch_inventory := sts\<rparr>)"
      using add_item_spec [OF assms(2-4)] unfolding sts by (simp add: inventory_ok_def)
    show "total_weight g (c\<lparr>ch_inventory := sts\<rparr>) \<le> 250"
      using t calculation assms unfolding sts by (simp add: total_weight_def)
  qed (use assms in auto)
  ultimately show ?thesis using t assms unfolding sts by (simp add: total_weight_def)
qed

lemma sample_weights_ok: "weights_ok (gm_eif sample_game)"
proof -
  have "list_all (\<lambda>d. 0 \<le> eif_weight d) sample_items" by (simp add: sample_items_def eif_default_def)
  then have "0 \<le> eif_weight (sample_items ! n)" if "n < length sample_items" for n
    using that by (simp add: list_all_length)
  then show ?thesis by (auto simp: weights_ok_def eif_get_def Let_def sample_game_def sample_items_def eif_default_def)
qed

theorem can_hold_item_weight_witness:
  "can_hold_item sample_game 2 50 ((sample_chr [(2, 60)])\<lparr>ch_weight := 60\<rparr>) = 20
   \<and> ch_weight (fst (add_item sample_game 2 20 ((sample_chr [(2, 60)])\<lparr>ch_weight := 60\<rparr>))) \<le> 80"
proof -
  let ?c = "(sample_chr [(2, 60)])\<lparr>ch_weight := 60\<rparr>"
  have h: "can_hold_item sample_game 2 50 ?c = 20"
    by (simp add: can_hold_item_def Let_def sample_defs)
  have "ch_weight (fst (add_item sample_game 2 20 ?c)) \<le> ch_maxweight ?c"
    by (rule can_hold_item_weight [where m = 50, OF sample_weights_ok])
      (simp_all add: h, simp_all add: inventory_ok_def inventory_room_def item_exists_def owned_def
        total_weight_def doll_weight_def sum_list_replicate sample_defs int_max_def)
  with h show ?thesis by (simp add: sample_defs)
qed

lemma paperdoll_weight_empty [simp]: "paperdoll_weight data w (replicate k 0) = w"
  by (induction k) auto

text \<open>The weight is a \<open>short\<close> that wraps around: a character with no more than one stack of an
  item, whose weight in total is a multiple of 65536, is taken to weigh nothing.\<close>

theorem weight_wraps:
  assumes "ch_inventory c = [\<lparr>st_id = item, st_amount = n\<rparr>]" "ch_paperdoll c = replicate k 0"
    and "eif_weight (eif_get (gm_eif g) item) * n = 65536 * m"
    and "ch_admin c < gm_unlimitedweight g"
  shows "ch_weight (calculate_stats g c) = 0"
proof -
  have "(32768 + 65536 * m) mod 65536 = (32768 :: int)"
    using mod_mult_self2 [of 32768 65536 m] by simp
  then have "s16 (65536 * m) = 0" by (simp add: s16_def add.commute)
  then have "paperdoll_weight (gm_eif g) (inventory_weight (gm_eif g) 0 (ch_inventory c)) (ch_paperdoll c) = 0"
    unfolding assms by (simp add: assms(3))
  then show ?thesis using assms(4) by (simp add: calculate_stats_def Let_def)
qed

theorem weight_wraps_witness:
  "ch_weight (calculate_stats sample_game (sample_chr [(2, 65536)])) = 0"
proof (rule weight_wraps)
  show "ch_inventory (sample_chr [(2, 65536)]) = [\<lparr>st_id = 2, st_amount = 65536\<rparr>]"
    "ch_paperdoll (sample_chr [(2, 65536)]) = replicate 15 0"
    by (simp_all add: sample_chr_def)
  show "eif_weight (eif_get (gm_eif sample_game) 2) * 65536 = 65536 * 1"
    by (simp add: sample_game_def sample_items_def eif_get_def)
  show "ch_admin (sample_chr [(2, 65536)]) < gm_unlimitedweight sample_game"
    by (simp add: sample_chr_def sample_game_def)
qed

section \<open>Putting on and taking off\<close>

text \<open>What a character has of an item, worn or not.\<close>

definition possessed :: "chr \<Rightarrow> int \<Rightarrow> int" where
  "possessed c item = owned c item + int (count_list (ch_paperdoll c) item)"

definition doll_ok :: "chr \<Rightarrow> bool" where
  "doll_ok c \<longleftrightarrow> length (ch_paperdoll c) = 15"

lemma count_list_update:
  "n < length xs \<Longrightarrow>
   int (count_list (xs[n := y]) x) =
     int (count_list xs x) - (if xs ! n = x then 1 else 0) + (if y = x then 1 else 0)"
proof (induction xs arbitrary: n)
  case (Cons a xs)
  show ?case
  proof (cases n)
    case (Suc k)
    then show ?thesis using Cons.IH [of k] Cons.prems by (auto split: if_splits)
  qed simp
qed simp

lemma slot_no_less: "slot_no slot < 15"
  by (cases slot) simp_all

lemma owned_doll [simp]: "owned (c\<lparr>ch_paperdoll := d\<rparr>) = owned c"
  by (simp add: owned_def)

lemma wear_possessed:
  fixes g :: game
  assumes "inventory_ok c" "doll_ok c" "1 \<le> owned c item" "doll c slot = 0" "item \<noteq> 0"
  defines "c' \<equiv> calculate_stats g (fst (del_item g item 1 (set_doll slot item c)))"
  shows "inventory_ok c' \<and> doll_ok c' \<and> (\<forall>i. i \<noteq> 0 \<longrightarrow> possessed c' i = possessed c i)"
proof -
  let ?c1 = "set_doll slot item c"
  have n: "slot_no slot < length (ch_paperdoll c)" using assms(2) slot_no_less by (simp add: doll_ok_def)
  have "inventory_ok ?c1" "1 \<le> owned ?c1 item"
    using assms by (simp_all add: inventory_ok_def set_doll_def)
  from del_item_spec [OF this(1) _ this(2), of g] assms n show ?thesis
    by (auto simp: possessed_def set_doll_def doll_ok_def inventory_ok_def count_list_update owned_def)
qed

text \<open>C25: \<open>Equip\<close> neither loses nor duplicates an item: whether it succeeds or not, what the character
  has of each item, worn or in the inventory, is unchanged, and the inventory stays well formed; when
  it fails nothing changes.\<close>

theorem equip_conserves:
  assumes "inventory_ok c" "stacks_ok (ch_trade_inventory c)" "doll_ok c" "item \<noteq> 0"
  shows "inventory_ok (fst (equip g item subloc c)) \<and> doll_ok (fst (equip g item subloc c))
    \<and> (\<forall>i. i \<noteq> 0 \<longrightarrow> possessed (fst (equip g item subloc c)) i = possessed c i)
    \<and> (\<not> snd (equip g item subloc c) \<longrightarrow> fst (equip g item subloc c) = c)"
proof (cases "has_item item False c = 0")
  case True
  then show ?thesis using assms by (simp add: equip_def Let_def)
next
  case False
  then have own: "1 \<le> owned c item"
    using has_item_le_owned [OF assms(1,2), of item False] by linarith
  have one: "inventory_ok (fst r) \<and> doll_ok (fst r) \<and> (\<forall>i. i \<noteq> 0 \<longrightarrow> possessed (fst r) i = possessed c i)
      \<and> (\<not> snd r \<longrightarrow> fst r = c)"
    if "r = equip_oneslot g item slot c \<or> r = equip_twoslot g item subloc slot slot2 c \<or> r = (c, False)"
    for r slot slot2
    using that assms wear_possessed [OF assms(1,3) own _ assms(4)]
    by (auto simp: equip_oneslot_def equip_twoslot_def)
  have "\<exists>slot slot2. equip g item subloc c = equip_oneslot g item slot c
      \<or> equip g item subloc c = equip_twoslot g item subloc slot slot2 c
      \<or> equip g item subloc c = (c, False)"
    unfolding equip_def Let_def by (auto split: item_type.split)
  with one show ?thesis by metis
qed

theorem equip_conserves_witness:
  "snd (equip sample_game 3 1 (sample_chr [(3, 2)]))
   \<and> possessed (fst (equip sample_game 3 1 (sample_chr [(3, 2)]))) 3 = 2
   \<and> doll (fst (equip sample_game 3 1 (sample_chr [(3, 2)]))) Ring2 = 3"
proof -
  let ?c = "sample_chr [(3, 2)]"
  have "inventory_ok ?c" "stacks_ok (ch_trade_inventory ?c)" "doll_ok ?c" "(3::int) \<noteq> 0"
    by (simp_all add: inventory_ok_def doll_ok_def sample_chr_def int_max_def)
  from equip_conserves [OF this, of sample_game 1]
  have "possessed (fst (equip sample_game 3 1 ?c)) 3 = possessed ?c 3" by simp
  moreover have "possessed ?c 3 = 2"
    by (simp add: possessed_def owned_def sample_chr_def numeral_eq_Suc)
  moreover have "snd (equip sample_game 3 1 ?c) \<and> doll (fst (equip sample_game 3 1 ?c)) Ring2 = 3"
    by (simp add: equip_def Let_def has_item_def weapon_clash_def shield_clash_def requirements_fail_def
        equip_twoslot_def set_doll_def sample_defs)
  ultimately show ?thesis by simp
qed

end
