(* ===== verification/Floating.thy ===== *)
theory Floating
  imports Prelude
begin

text \<open>
  Floating point numbers as the code uses them, a type \<open>'d\<close> with the operations collected in \<open>fp\<close>, and
  the reading of numbers with them (\<open>tdparse\<close> and \<open>to_int\<close> in \<^verbatim>\<open>src/util.cpp\<close>).
\<close>

section \<open>The operations\<close>

text \<open>\<open>fp_int\<close> is the conversion to \<open>int\<close>, undefined outside its range; \<open>fp_rand n\<close> is the draw that a
  formula makes when \<open>n\<close> tokens are left; \<open>fp_tenth\<close> and \<open>fp_half\<close> are the literals 0.1 and 0.5.\<close>

record 'd fp =
  fp_add :: "'d \<Rightarrow> 'd \<Rightarrow> 'd"
  fp_sub :: "'d \<Rightarrow> 'd \<Rightarrow> 'd"
  fp_mul :: "'d \<Rightarrow> 'd \<Rightarrow> 'd"
  fp_div :: "'d \<Rightarrow> 'd \<Rightarrow> 'd"
  fp_pow :: "'d \<Rightarrow> 'd \<Rightarrow> 'd"
  fp_log10 :: "'d \<Rightarrow> 'd"
  fp_exp :: "'d \<Rightarrow> 'd"
  fp_log :: "'d \<Rightarrow> 'd"
  fp_sqrt :: "'d \<Rightarrow> 'd"
  fp_sin :: "'d \<Rightarrow> 'd"
  fp_cos :: "'d \<Rightarrow> 'd"
  fp_tan :: "'d \<Rightarrow> 'd"
  fp_rand :: "nat \<Rightarrow> 'd \<Rightarrow> 'd \<Rightarrow> 'd"
  fp_ceil :: "'d \<Rightarrow> 'd"
  fp_floor :: "'d \<Rightarrow> 'd"
  fp_less :: "'d \<Rightarrow> 'd \<Rightarrow> bool"
  fp_le :: "'d \<Rightarrow> 'd \<Rightarrow> bool"
  fp_int :: "'d \<Rightarrow> int option"
  fp_of_int :: "int \<Rightarrow> 'd"
  fp_tenth :: 'd
  fp_half :: 'd
  fp_epsilon :: 'd
  fp_epsilon_2 :: 'd

definition fp_round :: "'d fp \<Rightarrow> 'd \<Rightarrow> 'd" where
  "fp_round f x = fp_floor f (fp_add f x (fp_half f))"

text \<open>An IEEE \<open>double\<close> adds and multiplies integers exactly as long as all of them stay within
  \<open>2 ^ 53\<close>, and the conversion to \<open>int\<close> gives an integer in its range back.\<close>

definition exact_ints :: "'d fp \<Rightarrow> bool" where
  "exact_ints f \<longleftrightarrow>
     (\<forall>a b. \<bar>a\<bar> \<le> 2 ^ 53 \<and> \<bar>b\<bar> \<le> 2 ^ 53 \<and> \<bar>a + b\<bar> \<le> 2 ^ 53
        \<longrightarrow> fp_add f (fp_of_int f a) (fp_of_int f b) = fp_of_int f (a + b))
     \<and> (\<forall>a b. \<bar>a\<bar> \<le> 2 ^ 53 \<and> \<bar>b\<bar> \<le> 2 ^ 53 \<and> \<bar>a * b\<bar> \<le> 2 ^ 53
        \<longrightarrow> fp_mul f (fp_of_int f a) (fp_of_int f b) = fp_of_int f (a * b))
     \<and> (\<forall>a. - 2147483648 \<le> a \<and> a \<le> int_max \<longrightarrow> fp_int f (fp_of_int f a) = Some a)"

text \<open>Integer arithmetic meets this.\<close>

definition int_fp :: "int fp" where
  "int_fp = \<lparr>fp_add = (+), fp_sub = (-), fp_mul = (*), fp_div = (div), fp_pow = (\<lambda>x y. x ^ nat y),
     fp_log10 = (\<lambda>x. x), fp_exp = (\<lambda>x. x), fp_log = (\<lambda>x. x), fp_sqrt = (\<lambda>x. x), fp_sin = (\<lambda>x. x),
     fp_cos = (\<lambda>x. x), fp_tan = (\<lambda>x. x), fp_rand = (\<lambda>_ x _. x), fp_ceil = (\<lambda>x. x), fp_floor = (\<lambda>x. x),
     fp_less = (<), fp_le = (\<le>), fp_int = Some, fp_of_int = (\<lambda>x. x), fp_tenth = 0, fp_half = 0,
     fp_epsilon = 0, fp_epsilon_2 = 0\<rparr>"

lemma int_fp_exact: "exact_ints int_fp"
  by (simp add: exact_ints_def int_fp_def)

section \<open>Reading numbers\<close>

text \<open>The multiplier of a unit; the sign \<open>%\<close> divides and is apart.\<close>

definition period_mul :: "char \<Rightarrow> int option" where
  "period_mul c = map_of [(CHR ''s'', 1), (CHR ''m'', 60), (CHR ''k'', 1000), (CHR ''h'', 3600), (CHR ''d'', 86400)] c"

fun tdparse_loop ::
  "'d fp \<Rightarrow> 'd \<Rightarrow> 'd \<Rightarrow> bool \<Rightarrow> 'd \<Rightarrow> bool \<Rightarrow> string \<Rightarrow> 'd \<times> 'd \<times> bool" where
  "tdparse_loop f ret val decimal multi negate [] = (ret, val, negate)"
| "tdparse_loop f ret val decimal multi negate (c0 # cs) =
     (let zero = fp_of_int f 0; c = to_lower c0
      in if c0 = CHR ''-'' then tdparse_loop f ret val decimal multi True cs
         else if c = CHR ''m'' \<and> cs \<noteq> [] \<and> hd cs = CHR ''s''
         then tdparse_loop f (fp_add f ret (fp_div f val (fp_of_int f 1000))) zero False (fp_tenth f) negate (tl cs)
         else if c = CHR ''%''
         then tdparse_loop f (fp_add f ret (fp_div f val (fp_of_int f 100))) zero False (fp_tenth f) negate cs
         else case period_mul c of
                Some k \<Rightarrow>
                  tdparse_loop f (fp_add f ret (fp_mul f val (fp_of_int f k))) zero False (fp_tenth f) negate cs
              | None \<Rightarrow>
                  if is_digit_char c
                  then
                    let d = fp_of_int f (digit_value c)
                    in if \<not> decimal
                       then tdparse_loop f ret (fp_add f (fp_mul f val (fp_of_int f 10)) d) decimal multi negate cs
                       else tdparse_loop f ret (fp_add f val (fp_mul f d multi)) decimal
                              (fp_div f multi (fp_of_int f 10)) negate cs
                  else if c = CHR ''.'' then tdparse_loop f ret val True (fp_tenth f) negate cs
                  else tdparse_loop f ret val decimal multi negate cs)"

definition tdparse :: "'d fp \<Rightarrow> string \<Rightarrow> 'd" where
  "tdparse f timestr =
     (case tdparse_loop f (fp_of_int f 0) (fp_of_int f 0) False (fp_tenth f) False timestr of
        (ret, val, negate) \<Rightarrow> fp_mul f (fp_add f ret val) (fp_of_int f (if negate then - 1 else 1)))"

text \<open>\<open>to_int\<close> of a string goes through \<open>tdparse\<close>; \<open>None\<close> is a conversion that is out of range.\<close>

definition to_int :: "'d fp \<Rightarrow> string \<Rightarrow> int option" where
  "to_int f subject = fp_int f (tdparse f subject)"

lemma digit_is_no_unit:
  "is_digit_char c \<Longrightarrow> period_mul c = None \<and> c \<noteq> CHR ''-'' \<and> c \<noteq> CHR ''m'' \<and> c \<noteq> CHR ''%'' \<and> to_lower c = c"
  by (auto simp: period_mul_def is_digit_char_def is_upper_char_def ccode_def)

lemma tdparse_loop_digits:
  assumes "exact_ints f"
  shows "\<forall>c\<in>set cs. is_digit_char c \<Longrightarrow> 0 \<le> v \<Longrightarrow> dec_value v cs \<le> int_max + 1 \<Longrightarrow>
    tdparse_loop f ret (fp_of_int f v) False multi negate cs = (ret, fp_of_int f (dec_value v cs), negate)"
proof (induction cs arbitrary: v)
  case (Cons c cs)
  have c: "is_digit_char c" "0 \<le> digit_value c" "digit_value c \<le> 9"
    using Cons.prems(1) digit_value_range [of c] by auto
  have le: "10 * v + digit_value c \<le> int_max + 1" using dec_value_mono [of cs "10 * v + digit_value c"] Cons.prems c by simp
  have "fp_add f (fp_mul f (fp_of_int f v) (fp_of_int f 10)) (fp_of_int f (digit_value c))
      = fp_of_int f (10 * v + digit_value c)"
    using assms le Cons.prems(2) c by (simp add: exact_ints_def int_max_def mult.commute)
  then show ?case using Cons c digit_is_no_unit [OF c(1)] by (simp add: Let_def)
qed simp

lemma to_int_dec:
  assumes "exact_ints f" "- 2147483648 \<le> n" "n \<le> int_max"
  shows "to_int f (dec_of_int n) = Some n"
proof -
  have digits: "\<forall>c\<in>set (dec_of_nat k). is_digit_char c" for k using dec_of_nat_digits by blast
  have run: "tdparse_loop f (fp_of_int f 0) (fp_of_int f 0) False (fp_tenth f) neg (dec_of_nat k)
      = (fp_of_int f 0, fp_of_int f (int k), neg)" if "int k \<le> int_max + 1" for k neg
    using tdparse_loop_digits [OF assms(1) digits, of 0] that by simp
  have "tdparse f (dec_of_int n) = fp_of_int f n"
  proof (cases "n < 0")
    case True
    then have "tdparse_loop f (fp_of_int f 0) (fp_of_int f 0) False (fp_tenth f) False (dec_of_int n)
        = (fp_of_int f 0, fp_of_int f (- n), True)"
      using run [of "nat (- n)" True] assms(2) by (simp add: dec_of_int_def int_max_def Let_def)
    then show ?thesis using assms(1,2) True by (simp add: tdparse_def exact_ints_def)
  next
    case False
    then have "tdparse_loop f (fp_of_int f 0) (fp_of_int f 0) False (fp_tenth f) False (dec_of_int n)
        = (fp_of_int f 0, fp_of_int f n, False)"
      using run [of "nat n" False] assms(3) by (simp add: dec_of_int_def)
    then show ?thesis using assms(1,3) False by (simp add: tdparse_def exact_ints_def int_max_def)
  qed
  then show ?thesis using assms by (simp add: to_int_def exact_ints_def)
qed

end
