(* ===== verification/RPN.thy ===== *)
theory RPN
  imports EOPlus_Types Floating
begin

text \<open>
  Formulas (\<^verbatim>\<open>src/util/rpn.cpp\<close>): a formula is cut into tokens from its end, so that the first token is
  on top of the stack, and is then run on a stack of numbers of the given floating point arithmetic, of
  which nothing is assumed.
\<close>

section \<open>Cutting a formula into tokens\<close>

function rpn_reverse_loop :: "nat \<Rightarrow> nat \<Rightarrow> string \<Rightarrow> string" where
  "rpn_reverse_loop b e str =
     (if b < e then rpn_reverse_loop (b + 1) (e - 1) (str[b := str ! e, e := str ! b]) else str)"
  by pat_completeness auto
termination by (relation "measure (\<lambda>(b, e, _). e - b)") auto

declare rpn_reverse_loop.simps [simp del]

definition rpn_parse_str_reverse :: "string \<Rightarrow> string" where
  "rpn_parse_str_reverse str = rpn_reverse_loop 0 (length str - 1) str"

text \<open>The loop runs over the reversed characters. The empty formula makes it read in front of the
  string: \<open>None\<close>.\<close>

fun rpn_parse_loop :: "string \<Rightarrow> string \<Rightarrow> variant list \<Rightarrow> variant list" where
  "rpn_parse_loop [] tok stack =
     (if tok \<noteq> [] then VString (rpn_parse_str_reverse tok) # stack else stack)"
| "rpn_parse_loop (c # cs) tok stack =
     (if c \<noteq> CHR '' '' then rpn_parse_loop cs (tok @ [c]) stack
      else if tok \<noteq> [] then rpn_parse_loop cs [] (VString (rpn_parse_str_reverse tok) # stack)
      else rpn_parse_loop cs tok stack)"

definition rpn_parse :: "string \<Rightarrow> variant list option" where
  "rpn_parse expr = (if expr = [] then None else Some (rpn_parse_loop (rev expr) [] []))"

section \<open>The operators\<close>

datatype rpn_op =
    Op_add | Op_sub | Op_mul | Op_div | Op_mod | Op_and | Op_or | Op_xor | Op_not | Op_pow | Op_sqrt
  | Op_log | Op_exp | Op_ln | Op_sin | Op_cos | Op_tan | Op_rand | Op_min | Op_max | Op_ceil | Op_round
  | Op_floor | Op_lt | Op_lte | Op_eq | Op_gte | Op_gt | Op_iif

definition fp_bool :: "'d fp \<Rightarrow> bool \<Rightarrow> 'd" where
  "fp_bool f b = fp_of_int f (if b then 1 else 0)"

definition int_op :: "'d fp \<Rightarrow> (int \<Rightarrow> int \<Rightarrow> int option) \<Rightarrow> 'd \<Rightarrow> 'd \<Rightarrow> 'd option" where
  "int_op f h a b =
     (case (fp_int f (fp_round f a), fp_int f (fp_round f b)) of
        (Some x, Some y) \<Rightarrow> map_option (fp_of_int f) (h x y)
      | _ \<Rightarrow> None)"

text \<open>The remainder of C++, which takes the sign of the dividend; undefined for the divisor 0 and where
  the quotient does not fit.\<close>

definition c_mod :: "int \<Rightarrow> int \<Rightarrow> int option" where
  "c_mod x y =
     (if y = 0 \<or> x = - 2147483648 \<and> y = - 1 then None else Some (sgn x * (\<bar>x\<bar> mod \<bar>y\<bar>)))"

unbundle bit_operations_syntax

text \<open>The functions take a vector of exactly as many numbers as they read.\<close>

fun args1 :: "('d \<Rightarrow> 'd option) \<Rightarrow> 'd list \<Rightarrow> 'd option" where
  "args1 h [a] = h a"
| "args1 h _ = None"

fun args2 :: "('d \<Rightarrow> 'd \<Rightarrow> 'd option) \<Rightarrow> 'd list \<Rightarrow> 'd option" where
  "args2 h [a, b] = h a b"
| "args2 h _ = None"

fun args3 :: "('d \<Rightarrow> 'd \<Rightarrow> 'd \<Rightarrow> 'd option) \<Rightarrow> 'd list \<Rightarrow> 'd option" where
  "args3 h [a, b, c] = h a b c"
| "args3 h _ = None"

definition rpn_apply :: "'d fp \<Rightarrow> nat \<Rightarrow> rpn_op \<Rightarrow> 'd list \<Rightarrow> 'd option" where
  "rpn_apply f n fn args =
     (case fn of
        Op_add \<Rightarrow> args2 (\<lambda>a b. Some (fp_add f a b)) args
      | Op_sub \<Rightarrow> args2 (\<lambda>a b. Some (fp_sub f a b)) args
      | Op_mul \<Rightarrow> args2 (\<lambda>a b. Some (fp_mul f a b)) args
      | Op_div \<Rightarrow> args2 (\<lambda>a b. Some (fp_div f a b)) args
      | Op_mod \<Rightarrow> args2 (\<lambda>a b. int_op f c_mod a b) args
      | Op_and \<Rightarrow> args2 (\<lambda>a b. int_op f (\<lambda>x y. Some (x AND y)) a b) args
      | Op_or \<Rightarrow> args2 (\<lambda>a b. int_op f (\<lambda>x y. Some (x OR y)) a b) args
      | Op_xor \<Rightarrow> args2 (\<lambda>a b. int_op f (\<lambda>x y. Some (x XOR y)) a b) args
      | Op_not \<Rightarrow> args1 (\<lambda>a. map_option (\<lambda>x. fp_of_int f (NOT x)) (fp_int f (fp_round f a))) args
      | Op_pow \<Rightarrow> args2 (\<lambda>a b. Some (fp_pow f a b)) args
      | Op_log \<Rightarrow> args1 (\<lambda>a. Some (fp_log10 f a)) args
      | Op_exp \<Rightarrow> args1 (\<lambda>a. Some (fp_exp f a)) args
      | Op_ln \<Rightarrow> args1 (\<lambda>a. Some (fp_log f a)) args
      | Op_sqrt \<Rightarrow> args1 (\<lambda>a. Some (fp_sqrt f a)) args
      | Op_sin \<Rightarrow> args1 (\<lambda>a. Some (fp_sin f a)) args
      | Op_cos \<Rightarrow> args1 (\<lambda>a. Some (fp_cos f a)) args
      | Op_tan \<Rightarrow> args1 (\<lambda>a. Some (fp_tan f a)) args
      | Op_rand \<Rightarrow> args2 (\<lambda>a b. Some (fp_rand f n a b)) args
      | Op_min \<Rightarrow> args2 (\<lambda>a b. Some (if fp_less f b a then b else a)) args
      | Op_max \<Rightarrow> args2 (\<lambda>a b. Some (if fp_less f a b then b else a)) args
      | Op_ceil \<Rightarrow> args1 (\<lambda>a. Some (fp_ceil f a)) args
      | Op_round \<Rightarrow> args1 (\<lambda>a. Some (fp_round f a)) args
      | Op_floor \<Rightarrow> args1 (\<lambda>a. Some (fp_floor f a)) args
      | Op_lt \<Rightarrow> args2 (\<lambda>a b. Some (fp_bool f (fp_less f a (fp_sub f b (fp_epsilon f))))) args
      | Op_lte \<Rightarrow> args2 (\<lambda>a b. Some (fp_bool f (fp_le f a (fp_add f b (fp_epsilon f))))) args
      | Op_eq \<Rightarrow> args2 (\<lambda>a b. Some (fp_bool f (fp_le f (fp_sub f b (fp_epsilon_2 f)) a \<and> fp_le f a (fp_add f b (fp_epsilon_2 f))))) args
      | Op_gte \<Rightarrow> args2 (\<lambda>a b. Some (fp_bool f (fp_le f (fp_sub f b (fp_epsilon f)) a))) args
      | Op_gt \<Rightarrow> args2 (\<lambda>a b. Some (fp_bool f (fp_less f (fp_add f b (fp_epsilon f)) a))) args
      | Op_iif \<Rightarrow> args3 (\<lambda>a b c. Some (if \<not> (fp_le f (fp_round f a) (fp_of_int f 0) \<and> fp_le f (fp_of_int f 0) (fp_round f a)) then b else c)) args)"

text \<open>The table: the character (a blank for none), the name and the number of arguments.\<close>

definition rpn_eval_funcs :: "(rpn_op \<times> char \<times> string \<times> nat) list" where
  "rpn_eval_funcs =
     [(Op_add, CHR ''+'', ''add'', 2), (Op_sub, CHR ''-'', ''sub'', 2), (Op_mul, CHR ''*'', ''mul'', 2),
      (Op_div, CHR ''/'', ''div'', 2), (Op_mod, CHR ''%'', ''mod'', 2), (Op_and, CHR ''&'', ''and'', 2),
      (Op_or, CHR ''|'', ''or'', 2), (Op_xor, CHR ''^'', ''xor'', 2), (Op_not, CHR ''~'', ''not'', 1),
      (Op_pow, CHR '' '', ''pow'', 2), (Op_sqrt, CHR '' '', ''sqrt'', 1), (Op_log, CHR '' '', ''log'', 1),
      (Op_exp, CHR '' '', ''exp'', 1), (Op_ln, CHR '' '', ''ln'', 1), (Op_sin, CHR '' '', ''sin'', 1),
      (Op_cos, CHR '' '', ''cos'', 1), (Op_tan, CHR '' '', ''tan'', 1), (Op_rand, CHR '' '', ''rand'', 2),
      (Op_min, CHR '' '', ''min'', 2), (Op_max, CHR '' '', ''max'', 2), (Op_ceil, CHR '' '', ''ceil'', 1),
      (Op_round, CHR '' '', ''round'', 1), (Op_floor, CHR '' '', ''floor'', 1), (Op_lt, CHR ''<'', ''lt'', 2),
      (Op_lte, CHR '' '', ''lte'', 2), (Op_eq, CHR ''='', ''eq'', 2), (Op_gte, CHR '' '', ''gte'', 2),
      (Op_gt, CHR ''>'', ''gt'', 2), (Op_iif, CHR ''?'', ''iif'', 3)]"

definition rpn_matches :: "string \<Rightarrow> rpn_op \<times> char \<times> string \<times> nat \<Rightarrow> bool" where
  "rpn_matches tok fn =
     (case fn of (_, c, name, _) \<Rightarrow> tok = name \<or> c \<noteq> CHR '' '' \<and> tok \<noteq> [] \<and> hd tok = c)"

section \<open>Running a formula\<close>

datatype rpn_error = Stack_Underflow | Undefined_Behaviour

fun variant_float :: "'d fp \<Rightarrow> variant \<Rightarrow> 'd" where
  "variant_float f (VInt i) = fp_of_int f i"
| "variant_float f (VString s) = tdparse f s"
| "variant_float f (VBool b) = fp_of_int f (if b then 0 else 1)"

text \<open>One turn of the loop: the token on top, with \<open>n\<close> tokens below it.\<close>

definition rpn_step ::
  "'d fp \<Rightarrow> (string \<rightharpoonup> 'd) \<Rightarrow> nat \<Rightarrow> variant \<Rightarrow> 'd list \<Rightarrow> rpn_error + 'd list" where
  "rpn_step f vars n v args =
     (case find (rpn_matches (variant_string v)) rpn_eval_funcs of
        Some (fn, _, _, k) \<Rightarrow>
          if length args < k then Inl Stack_Underflow
          else (case rpn_apply f n fn (take k args) of
                  None \<Rightarrow> Inl Undefined_Behaviour
                | Some d \<Rightarrow> Inr (d # drop k args))
      | None \<Rightarrow>
          (case vars (variant_string v) of
             Some d \<Rightarrow> Inr (d # args)
           | None \<Rightarrow> Inr (variant_float f v # args)))"

fun rpn_run :: "'d fp \<Rightarrow> (string \<rightharpoonup> 'd) \<Rightarrow> variant list \<Rightarrow> 'd list \<Rightarrow> rpn_error + 'd list" where
  "rpn_run f vars [] args = Inr args"
| "rpn_run f vars (v # stack) args =
     (case rpn_step f vars (length stack) v args of Inl e \<Rightarrow> Inl e | Inr args' \<Rightarrow> rpn_run f vars stack args')"

text \<open>The top of an empty stack is undefined: the empty list of tokens has no value.\<close>

definition rpn_eval :: "'d fp \<Rightarrow> variant list \<Rightarrow> (string \<rightharpoonup> 'd) \<Rightarrow> rpn_error + 'd" where
  "rpn_eval f stack vars =
     (case rpn_run f vars stack [] of
        Inl e \<Rightarrow> Inl e
      | Inr [] \<Rightarrow> Inl Undefined_Behaviour
      | Inr (d # _) \<Rightarrow> Inr d)"

section \<open>Formulas as trees\<close>

text \<open>The reference: a formula is a tree whose value is computed by recursion. In the text the arguments
  stand in front of their operator, the last one first.\<close>

datatype rpn_expr = Leaf string | App rpn_op "rpn_expr list"

definition op_name :: "rpn_op \<Rightarrow> string" where
  "op_name fn = (case map_of rpn_eval_funcs fn of Some (_, name, _) \<Rightarrow> name | None \<Rightarrow> [])"

definition op_arity :: "rpn_op \<Rightarrow> nat" where
  "op_arity fn = (case map_of rpn_eval_funcs fn of Some (_, _, k) \<Rightarrow> k | None \<Rightarrow> 0)"

fun rpn_tokens :: "rpn_expr \<Rightarrow> string list" where
  "rpn_tokens (Leaf s) = [s]"
| "rpn_tokens (App fn es) = concat (rev (map rpn_tokens es)) @ [op_name fn]"

fun rpn_value :: "'d fp \<Rightarrow> (string \<rightharpoonup> 'd) \<Rightarrow> rpn_expr \<Rightarrow> 'd option" where
  "rpn_value f vars (Leaf s) = Some (case vars s of Some d \<Rightarrow> d | None \<Rightarrow> tdparse f s)"
| "rpn_value f vars (App fn es) = Option.bind (those (map (rpn_value f vars) es)) (rpn_apply f 0 fn)"

fun words_text :: "string list \<Rightarrow> string" where
  "words_text [] = []"
| "words_text [t] = t"
| "words_text (t # ts) = t @ CHR '' '' # words_text ts"

text \<open>Leaves are words that the table does not take for an operator; random numbers are left out, since
  each draw is a new one.\<close>

fun expr_ok :: "rpn_expr \<Rightarrow> bool" where
  "expr_ok (Leaf s) \<longleftrightarrow> s \<noteq> [] \<and> CHR '' '' \<notin> set s \<and> find (rpn_matches s) rpn_eval_funcs = None"
| "expr_ok (App fn es) \<longleftrightarrow> fn \<noteq> Op_rand \<and> length es = op_arity fn \<and> list_all expr_ok es"

lemma reverse_loop_nth:
  "e < length str \<Longrightarrow> length (rpn_reverse_loop b e str) = length str \<and>
   (\<forall>i<length str. rpn_reverse_loop b e str ! i = (if b \<le> i \<and> i \<le> e then str ! (b + e - i) else str ! i))"
proof (induction b e str rule: rpn_reverse_loop.induct)
  case (1 b e str)
  show ?case
  proof (cases "b < e")
    case True
    let ?str = "str[b := str ! e, e := str ! b]"
    have r: "rpn_reverse_loop b e str = rpn_reverse_loop (b + 1) (e - 1) ?str"
      using True by (simp add: rpn_reverse_loop.simps [of b e str])
    have IH: "length (rpn_reverse_loop (b + 1) (e - 1) ?str) = length str"
      "\<And>i. i < length str \<Longrightarrow> rpn_reverse_loop (b + 1) (e - 1) ?str ! i
         = (if b + 1 \<le> i \<and> i \<le> e - 1 then ?str ! (b + 1 + (e - 1) - i) else ?str ! i)"
      using 1(1) [OF True] 1(2) True by auto
    have "rpn_reverse_loop b e str ! i = (if b \<le> i \<and> i \<le> e then str ! (b + e - i) else str ! i)"
      if i: "i < length str" for i
      unfolding r IH(2) [OF i] using True 1(2) i by (auto simp: nth_list_update)
    with IH(1) r show ?thesis by simp
  next
    case False
    then show ?thesis by (simp add: rpn_reverse_loop.simps [of b e str]) (metis add_diff_cancel_right' le_antisym le_trans not_less)
  qed
qed

lemma parse_str_reverse [simp]: "str \<noteq> [] \<Longrightarrow> rpn_parse_str_reverse str = rev str"
  using reverse_loop_nth [of "length str - 1" str 0]
  by (auto simp: rpn_parse_str_reverse_def rev_nth intro!: nth_equalityI)

lemma parse_loop_word:
  "CHR '' '' \<notin> set t \<Longrightarrow> rpn_parse_loop (t @ cs) tok stack = rpn_parse_loop cs (tok @ t) stack"
  by (induction t arbitrary: tok) auto

lemma words_text_snoc: "ts \<noteq> [] \<Longrightarrow> words_text (ts @ [t]) = words_text ts @ CHR '' '' # t"
  by (induction ts rule: words_text.induct) (auto simp: neq_Nil_conv)

definition token_ok :: "string \<Rightarrow> bool" where
  "token_ok t \<longleftrightarrow> t \<noteq> [] \<and> CHR '' '' \<notin> set t"

lemma parse_loop_words:
  "list_all token_ok ts \<Longrightarrow> rpn_parse_loop (rev (words_text ts)) [] stack = map VString ts @ stack"
proof (induction ts arbitrary: stack rule: rev_induct)
  case (snoc t ts)
  then have t: "token_ok t" and IH: "rpn_parse_loop (rev (words_text ts)) [] (VString t # stack) = map VString ts @ VString t # stack"
    by auto
  show ?case
    using t IH parse_loop_word [of "rev t" "[]"] parse_loop_word [of "rev t" "CHR '' '' # rev (words_text ts)"]
    by (cases "ts = []") (auto simp: words_text_snoc token_ok_def)
qed simp

lemma op_found:
  "\<exists>c. find (rpn_matches (op_name fn)) rpn_eval_funcs = Some (fn, c, op_name fn, op_arity fn)"
  by (cases fn; simp add: op_name_def op_arity_def rpn_eval_funcs_def rpn_matches_def)

lemma op_name_ok: "token_ok (op_name fn)"
  by (cases fn; simp add: op_name_def rpn_eval_funcs_def token_ok_def)

lemma tokens_ok: "expr_ok e \<Longrightarrow> list_all token_ok (rpn_tokens e) \<and> rpn_tokens e \<noteq> []"
  by (induction e) (auto simp: token_ok_def list_all_iff op_name_ok [unfolded token_ok_def])

lemma apply_no_rand: "fn \<noteq> Op_rand \<Longrightarrow> rpn_apply f n fn = rpn_apply f 0 fn"
  by (cases fn) (simp_all add: rpn_apply_def fun_eq_iff)

lemma run_args:
  assumes "\<And>e rest args. e \<in> set es \<Longrightarrow>
      rpn_run f vars (map VString (rpn_tokens e) @ rest) args
        = (case rpn_value f vars e of None \<Rightarrow> Inl Undefined_Behaviour | Some d \<Rightarrow> rpn_run f vars rest (d # args))"
  shows "rpn_run f vars (map VString (concat (rev (map rpn_tokens es))) @ rest) args
    = (case those (map (rpn_value f vars) es) of None \<Rightarrow> Inl Undefined_Behaviour
       | Some ds \<Rightarrow> rpn_run f vars rest (ds @ args))"
  using assms by (induction es arbitrary: rest) (auto simp: map_concat split: option.split)

lemma those_length: "those xs = Some ys \<Longrightarrow> length ys = length xs"
  by (induction xs arbitrary: ys) (auto split: option.splits)

lemma run_tokens:
  "expr_ok e \<Longrightarrow> rpn_run f vars (map VString (rpn_tokens e) @ rest) args
     = (case rpn_value f vars e of None \<Rightarrow> Inl Undefined_Behaviour | Some d \<Rightarrow> rpn_run f vars rest (d # args))"
proof (induction e arbitrary: rest args)
  case (Leaf s)
  then show ?case by (auto simp: rpn_step_def split: option.split)
next
  case (App fn es)
  obtain c where c: "find (rpn_matches (op_name fn)) rpn_eval_funcs = Some (fn, c, op_name fn, op_arity fn)"
    using op_found by blast
  have *: "rpn_step f vars n (VString (op_name fn)) (ds @ args) =
      (case rpn_apply f 0 fn ds of None \<Rightarrow> Inl Undefined_Behaviour | Some d \<Rightarrow> Inr (d # args))"
    if "those (map (rpn_value f vars) es) = Some ds" for n ds
    using App.prems those_length [OF that] apply_no_rand [of fn f n] c
    by (simp add: rpn_step_def split: option.split)
  have "rpn_run f vars (map VString (concat (rev (map rpn_tokens es))) @ VString (op_name fn) # rest) args
    = (case those (map (rpn_value f vars) es) of None \<Rightarrow> Inl Undefined_Behaviour
       | Some ds \<Rightarrow> rpn_run f vars (VString (op_name fn) # rest) (ds @ args))"
    using App by (intro run_args) (auto simp: list_all_iff)
  then show ?case by (auto simp: * split: option.split bind_split)
qed

text \<open>C21: Cutting the text of a formula into tokens and running them on the stack gives the value of the
  tree that the text stands for, for every formula of the right arities and every floating point
  arithmetic: the stack machine agrees with evaluation by recursion. It never underflows, and it is
  undefined exactly when an operation of the tree is.\<close>

theorem rpn_eval_expression:
  assumes "expr_ok e"
  shows "\<exists>stack. rpn_parse (words_text (rpn_tokens e)) = Some stack
    \<and> rpn_eval f stack vars = (case rpn_value f vars e of None \<Rightarrow> Inl Undefined_Behaviour | Some d \<Rightarrow> Inr d)"
proof -
  have t: "list_all token_ok (rpn_tokens e)" "rpn_tokens e \<noteq> []" using tokens_ok [OF assms] by auto
  then have "words_text (rpn_tokens e) \<noteq> []"
    by (cases "rpn_tokens e" rule: words_text.cases) (auto simp: token_ok_def)
  then have "rpn_parse (words_text (rpn_tokens e)) = Some (map VString (rpn_tokens e))"
    using parse_loop_words [OF t(1), of "[]"] by (simp add: rpn_parse_def)
  moreover have "rpn_eval f (map VString (rpn_tokens e)) vars
      = (case rpn_value f vars e of None \<Rightarrow> Inl Undefined_Behaviour | Some d \<Rightarrow> Inr d)"
    using run_tokens [OF assms, of f vars "[]" "[]"] by (simp add: rpn_eval_def split: option.split)
  ultimately show ?thesis by blast
qed

theorem rpn_eval_expression_witness:
  "\<exists>stack. rpn_parse ''10 str sub'' = Some stack \<and> rpn_eval int_fp stack [''str'' \<mapsto> 30] = Inr 20"
proof -
  let ?e = "App Op_sub [Leaf ''str'', Leaf ''10'']"
  have "expr_ok ?e" by (simp add: op_arity_def rpn_eval_funcs_def rpn_matches_def)
  moreover have "words_text (rpn_tokens ?e) = ''10 str sub''" by (simp add: op_name_def rpn_eval_funcs_def)
  moreover have "rpn_value int_fp [''str'' \<mapsto> 30] ?e = Some 20" by code_simp
  ultimately show ?thesis using rpn_eval_expression [of ?e int_fp "[''str'' \<mapsto> 30]"] by simp
qed

text \<open>A literal cannot start with a sign: it is taken for the operator.\<close>

lemma negative_literal_underflows:
  "rpn_eval f [VString (CHR ''-'' # s)] vars = Inl Stack_Underflow"
  by (simp add: rpn_eval_def rpn_step_def rpn_eval_funcs_def rpn_matches_def)

end
