(* ===== verification/Quest.thy ===== *)
theory Quest
  imports EOPlus_Context Inventory RPN "HOL-Library.Char_ord" "HOL-Library.List_Lexorder"
begin

text \<open>
  Quests at run time (\<^verbatim>\<open>src/quest.cpp\<close>): what is checked when a quest is loaded, the rules and actions of
  the language as the virtual functions of \<open>EOPlus_Context\<close>, and the progress that a character makes.
  The world is a character with one quest.
\<close>

section \<open>Validation\<close>

text \<open>The least and the greatest number of arguments.\<close>

definition info_t :: "int \<Rightarrow> int \<Rightarrow> int \<times> int" where
  "info_t min_args max_args = (min_args, if max_args < 0 then max_args else max min_args max_args)"

definition action_argument_info :: "string \<rightharpoonup> int \<times> int" where
  "action_argument_info = map_of
     [(''setstate'', info_t 1 0), (''reset'', info_t 0 0), (''resetdaily'', info_t 0 0), (''end'', info_t 0 0),
      (''startquest'', info_t 1 2), (''resetquest'', info_t 1 0), (''setqueststate'', info_t 2 0),
      (''addnpctext'', info_t 2 0), (''addnpcinput'', info_t 3 0),
      (''addnpcchat'', info_t 2 0), (''showhint'', info_t 1 0), (''quake'', info_t 0 1), (''quakeworld'', info_t 0 1),
      (''setmap'', info_t 3 0), (''setcoord'', info_t 3 0), (''playsound'', info_t 1 0), (''giveexp'', info_t 1 0),
      (''giveitem'', info_t 1 2), (''removeitem'', info_t 1 2), (''setclass'', info_t 1 0), (''setrace'', info_t 1 0),
      (''removekarma'', info_t 1 0), (''givekarma'', info_t 1 0),
      (''settitle'', info_t 1 0), (''setfiance'', info_t 1 0), (''setpartner'', info_t 1 0), (''sethome'', info_t 1 0),
      (''setstat'', info_t 2 0), (''givestat'', info_t 2 0), (''removestat'', info_t 2 0),
      (''roll'', info_t 1 0)]"

definition rule_argument_info :: "string \<rightharpoonup> int \<times> int" where
  "rule_argument_info = map_of
     [(''inputnpc'', info_t 1 0), (''talkedtonpc'', info_t 1 0), (''always'', info_t 0 0), (''donedaily'', info_t 1 0),
      (''entermap'', info_t 1 0), (''entercoord'', info_t 3 0), (''leavemap'', info_t 1 0), (''leavecoord'', info_t 3 0),
      (''killednpcs'', info_t 1 2), (''killedplayers'', info_t 1 0),
      (''gotitems'', info_t 1 2), (''lostitems'', info_t 1 2), (''useditem'', info_t 1 2),
      (''isgender'', info_t 1 0), (''isclass'', info_t 1 0), (''israce'', info_t 1 0), (''iswearing'', info_t 1 0),
      (''gotspell'', info_t 1 2), (''lostspell'', info_t 1 0), (''usedspell'', info_t 1 2),
      (''citizenof'', info_t 1 0), (''rolled'', info_t 1 2),
      (''statis'', info_t 2 0), (''statnot'', info_t 2 0), (''statgreater'', info_t 2 0), (''statless'', info_t 2 0),
      (''statbetween'', info_t 3 0), (''statrpn'', info_t 1 0)]"

text \<open>An error is a message with the name of the state.\<close>

type_synonym validation_error = "string \<times> string"

definition validate_call ::
  "quest \<Rightarrow> string \<Rightarrow> string \<Rightarrow> string \<Rightarrow> variant list \<Rightarrow> int \<times> int \<Rightarrow> validation_error option" where
  "validate_call q name ty function args info =
     (if int (length args) < fst info
      then Some (ty @ '' '' @ function @ '' requires at least '' @ dec_of_int (fst info) @ '' argument(s)'', name)
      else if snd info \<noteq> - 1 \<and> snd info < int (length args)
      then Some (ty @ '' '' @ function @ '' requires at most '' @ dec_of_int (snd info) @ '' argument(s)'', name)
      else if function = ''setstate'' \<and> qu_states q (lowercase (variant_string (args ! 0))) = None
      then Some (''Unknown quest state: '' @ lowercase (variant_string (args ! 0)), name)
      else None)"

definition validate_action :: "quest \<Rightarrow> string \<Rightarrow> action \<Rightarrow> validation_error option" where
  "validate_action q name a =
     (let f = ex_function (ac_expr a)
      in case action_argument_info f of
           None \<Rightarrow> Some (''Unknown action: '' @ f, name)
         | Some info \<Rightarrow> validate_call q name ''Action'' f (ex_args (ac_expr a)) info)"

definition validate_rule :: "quest \<Rightarrow> string \<Rightarrow> expression \<Rightarrow> validation_error option" where
  "validate_rule q name e =
     (case rule_argument_info (ex_function e) of
        None \<Rightarrow> Some (''Unknown rule: '' @ ex_function e, name)
      | Some info \<Rightarrow> validate_call q name ''Rule'' (ex_function e) (ex_args e) info)"

fun first_error :: "('a \<Rightarrow> 'e option) \<Rightarrow> 'a list \<Rightarrow> 'e option" where
  "first_error f [] = None"
| "first_error f (x # xs) = (case f x of Some e \<Rightarrow> Some e | None \<Rightarrow> first_error f xs)"

definition or_error :: "'e option \<Rightarrow> 'e option \<Rightarrow> 'e option" where
  "or_error a b = (case a of Some e \<Rightarrow> Some e | None \<Rightarrow> b)"

definition validate_state :: "quest \<Rightarrow> string \<Rightarrow> quest_state \<Rightarrow> validation_error option" where
  "validate_state q name s =
     or_error (first_error (validate_action q name) (qs_actions s))
       (or_error (first_error (\<lambda>r. validate_action q name (ru_action r)) (qs_rules s))
          (first_error (\<lambda>r. validate_rule q name (ru_expr r)) (qs_rules s)))"

text \<open>\<open>names\<close> are the names of the states, in the order of the map.\<close>

definition validate_quest :: "string list \<Rightarrow> quest \<Rightarrow> validation_error option" where
  "validate_quest names q =
     first_error (\<lambda>name. case qu_states q name of Some s \<Rightarrow> validate_state q name s | None \<Rightarrow> None) names"

lemma first_error_None: "first_error f xs = None \<longleftrightarrow> (\<forall>x\<in>set xs. f x = None)"
  by (induction xs) (auto split: option.splits)

lemma or_error_None [simp]: "or_error a b = None \<longleftrightarrow> a = None \<and> b = None"
  by (cases a) (simp_all add: or_error_def)

section \<open>The world of a quest\<close>

text \<open>The fields of \<open>Character\<close> that quests use beside those of \<open>chr\<close>.\<close>

record qchr =
  qc_chr :: chr
  qc_exp :: int
  qc_karma :: int
  qc_race :: int
  qc_hairstyle :: int
  qc_haircolor :: int
  qc_guild_rank :: int
  qc_str :: int
  qc_intl :: int
  qc_wis :: int
  qc_agi :: int
  qc_con :: int
  qc_cha :: int
  qc_statpoints :: int
  qc_skillpoints :: int
  qc_home :: string
  qc_title :: string
  qc_fiance :: string
  qc_partner :: string

text \<open>The links are a multimap: sorted by their number, equal numbers in the order of insertion.\<close>

record dialog =
  dl_pages :: "string list"
  dl_links :: "(int \<times> string) list"

text \<open>Calls into the rest of the program, in their order: packets sent to the player, and operations that
  the model does not follow any further (the world and the people near by; the other quests of the
  character and a second context of this one, \<open>Not_Followed\<close>).\<close>

datatype world_call =
    Send packet_family packet_action "field list"
  | Send_Stats bool
  | Status_Msg string
  | Warp_To int int int
  | Play_Sound int
  | Map_Quake int
  | World_Quake int
  | Admin_Count int
  | Show_Level_Up
  | Not_Followed string "variant list"

text \<open>\<open>progress\<close> is a \<open>std::map\<close> from strings to \<open>short\<close>, sorted by the key.\<close>

record qworld =
  qw_progress :: "(string \<times> int) list"
  qw_dialogs :: "int \<rightharpoonup> dialog"
  qw_desc :: string
  qw_chr :: qchr
  qw_calls :: "world_call list"

text \<open>What does not change while quests run: the quest's own number and whether it is disabled, the day, the
  settings, the experience for each level, the number of classes, the maps that exist, the variables of formulas
  (\<open>Character::FormulaVars\<close>); \<open>qe_roll\<close> is the draw of the random number generator after so many calls.\<close>

record 'd qenv =
  qe_id :: int
  qe_disabled :: bool
  qe_day :: int
  qe_config :: "string \<Rightarrow> int"
  qe_exp_table :: "int \<Rightarrow> int"
  qe_classes :: int
  qe_map_exists :: "int \<Rightarrow> bool"
  qe_game :: game
  qe_fp :: "'d fp"
  qe_vars :: "qchr \<Rightarrow> string \<rightharpoonup> 'd"
  qe_roll :: "nat \<Rightarrow> int \<Rightarrow> int"

definition tell_world :: "world_call \<Rightarrow> qworld \<Rightarrow> qworld" where
  "tell_world x w = w\<lparr>qw_calls := qw_calls w @ [x]\<rparr>"

definition set_qc :: "(qchr \<Rightarrow> qchr) \<Rightarrow> qworld \<Rightarrow> qworld" where
  "set_qc f w = w\<lparr>qw_chr := f (qw_chr w)\<rparr>"

definition set_chr :: "(chr \<Rightarrow> chr) \<Rightarrow> qworld \<Rightarrow> qworld" where
  "set_chr f = set_qc (\<lambda>q. q\<lparr>qc_chr := f (qc_chr q)\<rparr>)"

definition chr_of :: "qworld \<Rightarrow> chr" where
  "chr_of w = qc_chr (qw_chr w)"

section \<open>Progress\<close>

fun progress_put :: "string \<Rightarrow> int \<Rightarrow> (string \<times> int) list \<Rightarrow> (string \<times> int) list" where
  "progress_put k v [] = [(k, v)]"
| "progress_put k v ((k', v') # m) =
     (if k < k' then (k, v) # (k', v') # m
      else if k = k' then (k, v) # m
      else (k', v') # progress_put k v m)"

text \<open>\<open>operator[]\<close> makes an entry 0 where there is none.\<close>

definition progress_get :: "string \<Rightarrow> (string \<times> int) list \<Rightarrow> int" where
  "progress_get k m = (case map_of m k of Some v \<Rightarrow> v | None \<Rightarrow> 0)"

definition progress_touch :: "string \<Rightarrow> (string \<times> int) list \<Rightarrow> (string \<times> int) list" where
  "progress_touch k m = (if map_of m k = None then progress_put k 0 m else m)"

definition progress_has :: "string \<Rightarrow> (string \<times> int) list \<Rightarrow> bool" where
  "progress_has k m \<longleftrightarrow> map_of m k \<noteq> None"

definition progress_erase :: "string \<Rightarrow> (string \<times> int) list \<Rightarrow> (string \<times> int) list" where
  "progress_erase k m = filter (\<lambda>e. fst e \<noteq> k) m"

definition set_progress :: "string \<Rightarrow> int \<Rightarrow> qworld \<Rightarrow> qworld" where
  "set_progress k v w = w\<lparr>qw_progress := progress_put k (s16 v) (qw_progress w)\<rparr>"

fun entries :: "(string \<times> int) list \<Rightarrow> string" where
  "entries [] = []"
| "entries [(k, v)] = k @ ''='' @ dec_of_int v"
| "entries ((k, v) # m) = k @ ''='' @ dec_of_int v @ '','' @ entries m"

definition serialize_progress :: "(string \<times> int) list \<Rightarrow> string" where
  "serialize_progress m = ''{'' @ entries m @ ''}''"

definition signed_code :: "char \<Rightarrow> int" where
  "signed_code c = (if ccode c < 128 then int (ccode c) else int (ccode c) - 256)"

text \<open>The loop of \<open>UnserializeProgress\<close>: \<open>value\<close> is the flag \<open>state\<close>. It ends at \<open>}\<close> or at the end of the text.\<close>

fun read_progress ::
  "string \<Rightarrow> int \<Rightarrow> bool \<Rightarrow> (string \<times> int) list \<Rightarrow> string \<Rightarrow> (string \<times> int) list \<times> string" where
  "read_progress key val value m cs =
     (case cs of
        [] \<Rightarrow> (if value then progress_put key val m else m, [])
      | c # cs' \<Rightarrow>
          if c = CHR ''}'' then (if value then progress_put key val m else m, cs')
          else if \<not> value
          then (if c = CHR ''='' then read_progress key val True m cs'
                else read_progress (key @ [c]) val value m cs')
          else if c = CHR '','' then read_progress [] 0 False (progress_put key val m) cs'
          else read_progress key (s16 (s16 (val * 10) + (signed_code c - 48))) value m cs')"

declare read_progress.simps [simp del]

definition unserialize_progress :: "(string \<times> int) list \<Rightarrow> string \<Rightarrow> (string \<times> int) list \<times> string" where
  "unserialize_progress m s =
     (case s of [] \<Rightarrow> (m, s) | c # cs \<Rightarrow> if c = CHR ''{'' then read_progress [] 0 False m cs else (m, s))"

section \<open>Arguments\<close>

definition let_val :: "quest_exn + 'a \<Rightarrow> ('a \<Rightarrow> quest_exn + 'b) \<Rightarrow> quest_exn + 'b" where
  "let_val r k = (case r of Inl x \<Rightarrow> Inl x | Inr v \<Rightarrow> k v)"

text \<open>\<open>args[k]\<close> behind the end has no value.\<close>

definition arg :: "variant list \<Rightarrow> nat \<Rightarrow> quest_exn + variant" where
  "arg args k = (if k < length args then Inr (args ! k) else Inl Missing_Arg)"

fun q_int :: "'d fp \<Rightarrow> variant \<Rightarrow> int option" where
  "q_int f (VInt i) = Some i"
| "q_int f (VString s) = to_int f s"
| "q_int f (VBool b) = Some (if b then 0 else - 1)"

definition arg_int :: "'d qenv \<Rightarrow> variant list \<Rightarrow> nat \<Rightarrow> quest_exn + int" where
  "arg_int e args k =
     let_val (arg args k) (\<lambda>v. case q_int (qe_fp e) v of Some i \<Rightarrow> Inr i | None \<Rightarrow> Inl Undefined)"

definition arg_str :: "variant list \<Rightarrow> nat \<Rightarrow> quest_exn + string" where
  "arg_str args k = let_val (arg args k) (\<lambda>v. Inr (variant_string v))"

text \<open>\<open>expr.args.size() >= 2 ? int(expr.args[1]) : 1\<close>\<close>

definition arg_count :: "'d qenv \<Rightarrow> variant list \<Rightarrow> quest_exn + int" where
  "arg_count e args = (if 2 \<le> length args then arg_int e args 1 else Inr 1)"

section \<open>Rules\<close>

definition rpn_char_eval :: "'d qenv \<Rightarrow> variant list \<Rightarrow> qchr \<Rightarrow> quest_exn + bool" where
  "rpn_char_eval e stack c =
     (let f = qe_fp e; zero = fp_of_int f 0
      in case rpn_eval f stack (qe_vars e c) of
           Inl Stack_Underflow \<Rightarrow> Inl (Runtime ''RPN Stack underflow'')
         | Inl Undefined_Behaviour \<Rightarrow> Inl Undefined
         | Inr d \<Rightarrow> Inr (\<not> (fp_le f d zero \<and> fp_le f zero d)))"

definition stat_rule :: "'d qenv \<Rightarrow> string \<Rightarrow> variant list \<Rightarrow> qchr \<Rightarrow> quest_exn + bool" where
  "stat_rule e op args c =
     let_val (arg args 1) (\<lambda>v. let_val (arg args 0) (\<lambda>st. rpn_char_eval e [v, st, VString op] c))"

definition at_coord :: "'d qenv \<Rightarrow> variant list \<Rightarrow> chr \<Rightarrow> quest_exn + bool" where
  "at_coord e args c =
     let_val (arg_int e args 0) (\<lambda>m. if ch_mapid c \<noteq> m then Inr False else
     let_val (arg_int e args 1) (\<lambda>x. if ch_x c \<noteq> x then Inr False else
     let_val (arg_int e args 2) (\<lambda>y. Inr (ch_y c = y))))"

text \<open>The rules that only look at the character. What has no meaning is false.\<close>

definition character_rule :: "'d qenv \<Rightarrow> string \<Rightarrow> variant list \<Rightarrow> qworld \<Rightarrow> quest_exn + bool" where
  "character_rule e fn args w =
     (let qc = qw_chr w; c = qc_chr qc; int_arg = arg_int e args
      in if fn = ''always'' then Inr True
         else if fn = ''entermap'' then let_val (int_arg 0) (\<lambda>m. Inr (ch_mapid c = m))
         else if fn = ''entercoord'' then at_coord e args c
         else if fn = ''leavemap'' then let_val (int_arg 0) (\<lambda>m. Inr (ch_mapid c \<noteq> m))
         else if fn = ''leavecoord'' then let_val (at_coord e args c) (\<lambda>b. Inr (\<not> b))
         else if fn = ''gotitems''
         then let_val (int_arg 0) (\<lambda>i. let_val (arg_count e args) (\<lambda>n. Inr (n \<le> has_item (s16 i) False c)))
         else if fn = ''lostitems''
         then let_val (int_arg 0) (\<lambda>i. let_val (arg_count e args) (\<lambda>n. Inr (has_item (s16 i) False c < n)))
         else if fn = ''gotspell''
         then let_val (int_arg 0) (\<lambda>i.
                if \<not> has_spell (s16 i) c then Inr False
                else if length args < 2 then Inr True
                else let_val (int_arg 1) (\<lambda>n. Inr (n \<le> spell_level (s16 i) c)))
         else if fn = ''lostspell'' then let_val (int_arg 0) (\<lambda>i. Inr (\<not> has_spell (s16 i) c))
         else if fn = ''isgender'' then let_val (int_arg 0) (\<lambda>g. Inr (ch_gender c = u8 g))
         else if fn = ''isclass'' then let_val (int_arg 0) (\<lambda>k. Inr (ch_clas c = k))
         else if fn = ''israce'' then let_val (int_arg 0) (\<lambda>r. Inr (qc_race qc = r))
         else if fn = ''iswearing''
         then let_val (int_arg 0) (\<lambda>i. Inr (list_ex (\<lambda>d. d = i) (ch_paperdoll c)))
         else if fn = ''citizenof'' then let_val (arg_str args 0) (\<lambda>h. Inr (qc_home qc = h))
         else if fn = ''statis'' then stat_rule e ''='' args qc
         else if fn = ''statnot'' then stat_rule e ''='' args qc
         else if fn = ''statgreater'' then stat_rule e ''>'' args qc
         else if fn = ''statless'' then stat_rule e ''<'' args qc
         else if fn = ''statbetween''
         then let_val (arg args 1) (\<lambda>lo. let_val (arg args 0) (\<lambda>st. let_val (arg args 2) (\<lambda>hi.
                rpn_char_eval e [lo, st, VString ''gte'', hi, st, VString ''lte'', VString ''&''] qc)))
         else if fn = ''statrpn''
         then let_val (arg_str args 0) (\<lambda>t.
                case rpn_parse t of None \<Rightarrow> Inl Undefined | Some stack \<Rightarrow> rpn_char_eval e stack qc)
         else Inr False)"

text \<open>\<open>CheckRule\<close>. Two rules look at the progress, and make entries in it.\<close>

definition check_rule :: "'d qenv \<Rightarrow> expression \<Rightarrow> qworld \<Rightarrow> qworld \<times> (quest_exn + bool)" where
  "check_rule e expr w =
     (let fn = ex_function expr; args = ex_args expr; m = qw_progress w
      in if qe_disabled e then (w, Inr False)
         else if fn = ''donedaily''
         then let m1 = progress_touch ''d'' m
              in if progress_get ''d'' m1 = qe_day e
                 then let m2 = progress_touch ''c'' m1
                      in (w\<lparr>qw_progress := m2\<rparr>,
                          let_val (arg_int e args 0) (\<lambda>n. Inr (n \<le> progress_get ''c'' m2)))
                 else (set_progress ''c'' 0 (set_progress ''d'' (qe_day e) w), Inr False)
         else if fn = ''rolled''
         then let m1 = progress_touch ''r'' m; roll = progress_get ''r'' m1
              in (w\<lparr>qw_progress := m1\<rparr>,
                  let_val (arg_int e args 0) (\<lambda>lo.
                    if length args < 2 then Inr (roll = lo)
                    else if roll < lo then Inr False
                    else let_val (arg_int e args 1) (\<lambda>hi. Inr (roll \<le> hi))))
         else (w, character_rule e fn args w))"

section \<open>Actions\<close>

definition use_val :: "quest_exn + 'a \<Rightarrow> qworld \<Rightarrow> ('a \<Rightarrow> qworld prog) \<Rightarrow> qworld prog" where
  "use_val r w k = (case r of Inl x \<Rightarrow> Done w (Inl x) | Inr v \<Rightarrow> k v)"

definition done_action :: "qworld \<Rightarrow> qworld prog" where
  "done_action w = Done w (Inr False)"

text \<open>\<open>CheckQuestRules\<close> at the end of an action.\<close>

definition then_check :: "qworld \<Rightarrow> qworld prog" where
  "then_check w = Recheck w done_action"

text \<open>\<open>Warp\<close>, which has the rules checked when the character enters the map.\<close>

definition q_warp :: "'d qenv \<Rightarrow> int \<Rightarrow> int \<Rightarrow> int \<Rightarrow> qworld \<Rightarrow> qworld prog" where
  "q_warp e mapid x y w =
     (if \<not> qe_map_exists e mapid then done_action w
      else then_check (tell_world (Warp_To mapid x y) (set_chr (\<lambda>c. c\<lparr>ch_mapid := mapid, ch_x := x, ch_y := y,
             ch_npc_type := ENF_NPC, ch_nowhere := False\<rparr>) w)))"

definition level_packet :: "bool \<Rightarrow> qworld \<Rightarrow> world_call" where
  "level_packet level w =
     Send PACKET_RECOVER PACKET_REPLY
       [fint (qc_exp (qw_chr w)), fshort (qc_karma (qw_chr w)), fchar (if level then ch_level (chr_of w) else 0)]"

text \<open>The fields that \<open>modify_stat\<close> clamps, with what has to be done afterwards.\<close>

datatype stat_group = Level_Group | Stats_Group | Statpoints_Group | Skillpoints_Group | Appearance_Group | Karma_Group | Plain_Group

definition modify_field ::
  "'d qenv \<Rightarrow> string \<Rightarrow> (int \<Rightarrow> int) \<Rightarrow> qchr \<Rightarrow> (qchr \<times> stat_group) option" where
  "modify_field e name f q =
     (let cfg = qe_config e; c = qc_chr q; stat = \<lambda>v. s16 (clamp (f v) 0 (cfg ''MaxStat''))
      in if name = ''level''
         then Some (q\<lparr>qc_chr := c\<lparr>ch_level := u8 (clamp (f (ch_level c)) 0 (cfg ''MaxLevel''))\<rparr>\<rparr>, Level_Group)
         else if name = ''exp'' then Some (q\<lparr>qc_exp := clamp (f (qc_exp q)) 0 (cfg ''MaxEXP'')\<rparr>, Level_Group)
         else if name = ''str'' then Some (q\<lparr>qc_str := stat (qc_str q)\<rparr>, Stats_Group)
         else if name = ''int'' then Some (q\<lparr>qc_intl := stat (qc_intl q)\<rparr>, Stats_Group)
         else if name = ''wis'' then Some (q\<lparr>qc_wis := stat (qc_wis q)\<rparr>, Stats_Group)
         else if name = ''agi'' then Some (q\<lparr>qc_agi := stat (qc_agi q)\<rparr>, Stats_Group)
         else if name = ''con'' then Some (q\<lparr>qc_con := stat (qc_con q)\<rparr>, Stats_Group)
         else if name = ''cha'' then Some (q\<lparr>qc_cha := stat (qc_cha q)\<rparr>, Stats_Group)
         else if name = ''statpoints''
         then Some (q\<lparr>qc_statpoints :=
                s16 (clamp (f (qc_statpoints q)) 0 (cfg ''MaxLevel'' * cfg ''StatPerLevel''))\<rparr>, Statpoints_Group)
         else if name = ''skillpoints''
         then Some (q\<lparr>qc_skillpoints :=
                s16 (clamp (f (qc_skillpoints q)) 0 (cfg ''MaxLevel'' * cfg ''SkillPerLevel''))\<rparr>, Skillpoints_Group)
         else if name = ''admin''
         then Some (q\<lparr>qc_chr := c\<lparr>ch_admin := clamp (u8 (f (ch_admin c))) 0 4\<rparr>\<rparr>, Plain_Group)
         else if name = ''gender''
         then Some (q\<lparr>qc_chr := c\<lparr>ch_gender := clamp (u8 (f (ch_gender c))) 0 1\<rparr>\<rparr>, Appearance_Group)
         else if name = ''hairstyle''
         then Some (q\<lparr>qc_hairstyle := u8 (clamp (f (qc_hairstyle q)) 0 (cfg ''MaxHairStyle''))\<rparr>, Appearance_Group)
         else if name = ''haircolor''
         then Some (q\<lparr>qc_haircolor := u8 (clamp (f (qc_haircolor q)) 0 (cfg ''MaxHairColor''))\<rparr>, Appearance_Group)
         else if name = ''race''
         then Some (q\<lparr>qc_race := clamp (u8 (f (qc_race q))) 0 (u8 (cfg ''MaxSkin''))\<rparr>, Appearance_Group)
         else if name = ''guildrank'' then Some (q\<lparr>qc_guild_rank := clamp (f (qc_guild_rank q)) 0 9\<rparr>, Plain_Group)
         else if name = ''karma'' then Some (q\<lparr>qc_karma := clamp (f (qc_karma q)) 0 2000\<rparr>, Karma_Group)
         else if name = ''class''
         then Some (q\<lparr>qc_chr := c\<lparr>ch_clas := u8 (clamp (f (ch_clas c)) 0 (qe_classes e - 1))\<rparr>\<rparr>, Stats_Group)
         else None)"

text \<open>The number of administrators in the world changes with the first and the last step.\<close>

definition count_admin :: "int \<Rightarrow> int \<Rightarrow> qworld \<Rightarrow> qworld" where
  "count_admin old new w =
     (if new = 0 \<and> old \<noteq> 0 then tell_world (Admin_Count (- 1)) w
      else if new \<noteq> 0 \<and> old = 0 then tell_world (Admin_Count 1) w
      else w)"

definition modify_stat :: "'d qenv \<Rightarrow> string \<Rightarrow> (int \<Rightarrow> int) \<Rightarrow> qworld \<Rightarrow> qworld prog option" where
  "modify_stat e name f w =
     (case modify_field e name f (qw_chr w) of
        None \<Rightarrow> None
      | Some (q, g) \<Rightarrow>
          let w0 = (if name = ''admin'' then count_admin (ch_admin (chr_of w)) (ch_admin (qc_chr q)) w else w);
              w1 = w0\<lparr>qw_chr := q\<rparr>; c = qc_chr q;
              recount = set_chr (calculate_stats (qe_game e))
          in Some (case g of
               Appearance_Group \<Rightarrow> q_warp e (ch_mapid c) (ch_x c) (ch_y c) w1
             | Stats_Group \<Rightarrow> Recheck (recount w1) (\<lambda>w. done_action (tell_world (Send_Stats False) w))
             | Statpoints_Group \<Rightarrow> Recheck (recount w1) (\<lambda>w. then_check (tell_world (Send_Stats True) w))
             | Skillpoints_Group \<Rightarrow>
                 Recheck (recount w1)
                   (\<lambda>w. done_action (tell_world (Send PACKET_STATSKILL PACKET_ACCEPT
                          [fshort (qc_skillpoints (qw_chr w)), fshort 0, fshort 0]) w))
             | Level_Group \<Rightarrow> then_check (tell_world (level_packet True w1) w1)
             | Karma_Group \<Rightarrow> then_check (tell_world (level_packet False w1) w1)
             | Plain_Group \<Rightarrow> then_check w1))"

text \<open>The actions that move the quest itself. After \<open>ResetQuest\<close> the character has no context of that number:
  \<open>resetquest\<close> and \<open>setqueststate\<close> then do nothing, \<open>startquest\<close> makes a second context. That one, and the
  numbers of other quests, lead to \<open>Not_Followed\<close>.\<close>

definition quest_action :: "'d qenv \<Rightarrow> string \<Rightarrow> variant list \<Rightarrow> qworld \<Rightarrow> qworld prog" where
  "quest_action e fn args w =
     (let over = progress_has ''c'' (qw_progress w);
          other = done_action (tell_world (Not_Followed fn args) w)
      in if fn = ''setstate'' then use_val (arg_str args 0) w (\<lambda>s. Enter w (lowercase s))
         else if fn = ''reset'' then if over then Enter w ''done'' else Detach w
         else if fn = ''resetdaily''
         then let w1 = set_progress ''d'' (qe_day e) w
              in Enter (set_progress ''c'' (progress_get ''c'' (qw_progress w1) + 1) w1) ''done''
         else if fn = ''end'' then Enter w ''end''
         else if fn = ''startquest''
         then use_val (arg_int e args 0) w (\<lambda>i.
                if s16 i \<noteq> qe_id e then other
                else Attached
                       (if length args < 2 then Restart w ''begin'' else use_val (arg_str args 1) w (Restart w))
                       other)
         else if fn = ''resetquest''
         then use_val (arg_int e args 0) w (\<lambda>i.
                if s16 i \<noteq> qe_id e then other
                else Attached (if over then Detach w else Enter w ''done'') (Done w (Inr True)))
         else use_val (arg_int e args 0) w (\<lambda>i. use_val (arg_str args 1) w (\<lambda>s.
                if s16 i \<noteq> qe_id e then other else Attached (Enter w s) (done_action w))))"

text \<open>\<open>giveexp\<close>. One level is gained at a time, the stats calculated and the rules checked. (The people near
  by are sent their own number with the news of the level, not that of the character.)\<close>

definition gain_level :: "'d qenv \<Rightarrow> qworld \<Rightarrow> qworld option" where
  "gain_level e w =
     (let q = qw_chr w; c = qc_chr q; cfg = qe_config e
      in if ch_level c < cfg ''MaxLevel'' \<and> qe_exp_table e (ch_level c + 1) \<le> qc_exp q
         then Some (w\<lparr>qw_chr := q\<lparr>
                qc_chr := calculate_stats (qe_game e) (c\<lparr>ch_level := u8 (ch_level c + 1)\<rparr>),
                qc_statpoints := s16 (qc_statpoints q + cfg ''StatPerLevel''),
                qc_skillpoints := s16 (qc_skillpoints q + cfg ''SkillPerLevel'')\<rparr>\<rparr>)
         else None)"

definition exp_packet :: "bool \<Rightarrow> qworld \<Rightarrow> world_call" where
  "exp_packet level_up w =
     (let q = qw_chr w
      in Send PACKET_RECOVER PACKET_REPLY
           ([fint (qc_exp q), fshort (qc_karma q), fchar (if level_up then ch_level (qc_chr q) else 0)]
            @ (if level_up then [fshort (qc_statpoints q), fshort (qc_skillpoints q)] else [])))"

definition exp_action :: "'d qenv \<Rightarrow> variant list \<Rightarrow> qworld \<Rightarrow> qworld prog" where
  "exp_action e args w =
     use_val (arg_int e args 0) w (\<lambda>n.
       let x = qc_exp (qw_chr w) + n
       in if x < - int_max - 1 \<or> int_max < x then Done w (Inl Undefined)
          else Gain (set_qc (\<lambda>q. q\<lparr>qc_exp := min x (qe_config e ''MaxExp'')\<rparr>) w)
                 (\<lambda>(level_up, w). done_action
                    (let w1 = tell_world (exp_packet level_up w) w
                     in if level_up then tell_world Show_Level_Up w1 else w1)))"

definition quake_strength :: "'d qenv \<Rightarrow> variant list \<Rightarrow> quest_exn + int" where
  "quake_strength e args =
     (if 1 \<le> length args then let_val (arg_int e args 0) (\<lambda>n. Inr (max 1 (min 8 n))) else Inr 5)"

definition world_action :: "'d qenv \<Rightarrow> string \<Rightarrow> variant list \<Rightarrow> qworld \<Rightarrow> qworld prog" where
  "world_action e fn args w =
     (if fn = ''showhint'' then use_val (arg_str args 0) w (\<lambda>t. done_action (tell_world (Status_Msg t) w))
      else if fn = ''quake'' then use_val (quake_strength e args) w (\<lambda>n. done_action (tell_world (Map_Quake n) w))
      else if fn = ''quakeworld'' then use_val (quake_strength e args) w (\<lambda>n. done_action (tell_world (World_Quake n) w))
      else if fn = ''setmap'' \<or> fn = ''setcoord''
      then use_val (arg_int e args 0) w (\<lambda>m. use_val (arg_int e args 1) w (\<lambda>x. use_val (arg_int e args 2) w (\<lambda>y.
             q_warp e (s16 m) (u8 x) (u8 y) w)))
      else use_val (arg_int e args 0) w (\<lambda>i. done_action (tell_world (Play_Sound (u8 i)) w)))"

definition item_packet :: "int \<Rightarrow> int \<Rightarrow> chr \<Rightarrow> world_call" where
  "item_packet i n c =
     (if i = 1
      then Send PACKET_ITEM PACKET_GET [fshort 0, fshort i, fthree n, fchar (ch_weight c), fchar (ch_maxweight c)]
      else Send PACKET_ITEM PACKET_OBTAIN [fshort i, fthree n, fchar (ch_weight c)])"

text \<open>Both have the rules checked before they send their packet, which they read from the context.\<close>

definition item_action :: "'d qenv \<Rightarrow> string \<Rightarrow> variant list \<Rightarrow> qworld \<Rightarrow> qworld prog" where
  "item_action e fn args w =
     use_val (arg_int e args 0) w (\<lambda>i. use_val (arg_count e args) w (\<lambda>n.
       if fn = ''giveitem''
       then case add_item (qe_game e) (s16 i) n (chr_of w) of
              (c, ok) \<Rightarrow>
                if ok then Recheck (set_chr (\<lambda>_. c) w)
                             (\<lambda>w. done_action (tell_world (item_packet i n (chr_of w)) w))
                else done_action w
       else case del_item (qe_game e) (s16 i) n (chr_of w) of
              (c, ok) \<Rightarrow>
                if ok then Recheck (set_chr (\<lambda>_. c) w)
                             (\<lambda>w. done_action (tell_world (Send PACKET_ITEM PACKET_KICK
                                [fshort i, fint (has_item (s16 i) False (chr_of w)), fchar (ch_weight (chr_of w))]) w))
                else done_action w))"

definition karma_action :: "(int \<Rightarrow> int) \<Rightarrow> qworld \<Rightarrow> qworld prog" where
  "karma_action f w =
     (let w1 = set_qc (\<lambda>q. q\<lparr>qc_karma := f (qc_karma q)\<rparr>) w in done_action (tell_world (level_packet False w1) w1))"

text \<open>The actions on the character: class, race, karma, and the texts, which are cut.\<close>

definition trait_action :: "'d qenv \<Rightarrow> string \<Rightarrow> variant list \<Rightarrow> qworld \<Rightarrow> qworld prog" where
  "trait_action e fn args w =
     (let text_arg = \<lambda>k. use_val (arg_str args 0) w (\<lambda>t. done_action (set_qc (k t) w))
      in if fn = ''setclass''
         then use_val (arg_int e args 0) w (\<lambda>k.
                Recheck (set_chr (\<lambda>c. calculate_stats (qe_game e) (c\<lparr>ch_clas := u8 k\<rparr>)) w)
                  (\<lambda>w. done_action (tell_world (Send_Stats False) w)))
         else if fn = ''setrace''
         then use_val (arg_int e args 0) w (\<lambda>r.
                q_warp e (ch_mapid (chr_of w)) (ch_x (chr_of w)) (ch_y (chr_of w)) (set_qc (\<lambda>q. q\<lparr>qc_race := u8 r\<rparr>) w))
         else if fn = ''removekarma''
         then use_val (arg_int e args 0) w (\<lambda>n. karma_action (\<lambda>k. if s16 (k - n) < 0 then 0 else s16 (k - n)) w)
         else if fn = ''givekarma''
         then use_val (arg_int e args 0) w (\<lambda>n. karma_action (\<lambda>k. if 2000 < s16 (k + n) then 2000 else s16 (k + n)) w)
         else if fn = ''settitle'' then text_arg (\<lambda>t q. q\<lparr>qc_title := take 32 t\<rparr>)
         else if fn = ''setfiance'' then text_arg (\<lambda>t q. q\<lparr>qc_fiance := take 16 t\<rparr>)
         else if fn = ''setpartner'' then text_arg (\<lambda>t q. q\<lparr>qc_partner := take 16 t\<rparr>)
         else text_arg (\<lambda>t q. q\<lparr>qc_home := take 32 t\<rparr>))"

definition stat_action :: "'d qenv \<Rightarrow> string \<Rightarrow> variant list \<Rightarrow> qworld \<Rightarrow> qworld prog" where
  "stat_action e fn args w =
     use_val (arg_str args 0) w (\<lambda>stat. use_val (arg_int e args 1) w (\<lambda>v.
       let f = (if fn = ''setstat'' then (\<lambda>_. v) else if fn = ''givestat'' then (\<lambda>x. x + v) else (\<lambda>x. x - v))
       in case modify_stat e stat f w of
            Some p \<Rightarrow> p
          | None \<Rightarrow> Done w (Inl (Runtime (''Unknown stat: '' @ stat)))))"

definition roll_action :: "'d qenv \<Rightarrow> variant list \<Rightarrow> qworld \<Rightarrow> qworld prog" where
  "roll_action e args w =
     use_val (arg_int e args 0) w (\<lambda>n.
       done_action (set_progress ''r'' (qe_roll e (length (qw_calls w)) n) w))"

definition do_action :: "'d qenv \<Rightarrow> action \<Rightarrow> qworld \<Rightarrow> qworld prog" where
  "do_action e a w =
     (let fn = ex_function (ac_expr a); args = ex_args (ac_expr a)
      in if qe_disabled e then done_action w
         else if fn \<in> {''setstate'', ''reset'', ''resetdaily'', ''end'', ''startquest'', ''resetquest'', ''setqueststate''}
         then quest_action e fn args w
         else if fn \<in> {''showhint'', ''quake'', ''quakeworld'', ''setmap'', ''setcoord'', ''playsound''}
         then world_action e fn args w
         else if fn = ''giveexp''
         then exp_action e args w
         else if fn \<in> {''giveitem'', ''removeitem''} then item_action e fn args w
         else if fn \<in> {''setclass'', ''setrace'', ''removekarma'', ''givekarma'', ''settitle'', ''setfiance'',
                       ''setpartner'', ''sethome''}
         then trait_action e fn args w
         else if fn \<in> {''setstat'', ''givestat'', ''removestat''} then stat_action e fn args w
         else if fn = ''roll'' then roll_action e args w
         else done_action w)"

section \<open>Entering a state\<close>

fun add_link :: "int \<Rightarrow> string \<Rightarrow> (int \<times> string) list \<Rightarrow> (int \<times> string) list" where
  "add_link i t [] = [(i, t)]"
| "add_link i t ((j, u) # ls) = (if i < j then (i, t) # (j, u) # ls else (j, u) # add_link i t ls)"

definition add_page :: "string \<Rightarrow> dialog \<Rightarrow> dialog" where
  "add_page t d = d\<lparr>dl_pages := dl_pages d @ [t]\<rparr>"

definition dialog_new :: dialog where
  "dialog_new = \<lparr>dl_pages = [], dl_links = []\<rparr>"

text \<open>Reading behind the end of the arguments, or a number out of range, makes \<open>None\<close> of the dialogs.\<close>

definition add_dialog :: "'d qenv \<Rightarrow> action \<Rightarrow> (int \<rightharpoonup> dialog) \<Rightarrow> quest_exn + (int \<rightharpoonup> dialog)" where
  "add_dialog e a ds =
     (let fn = ex_function (ac_expr a); args = ex_args (ac_expr a)
      in if fn \<noteq> ''addnpctext'' \<and> fn \<noteq> ''addnpcinput'' then Inr ds
         else let_val (arg_int e args 0) (\<lambda>i.
                let d = (case ds (s16 i) of Some d \<Rightarrow> d | None \<Rightarrow> dialog_new)
                in if fn = ''addnpctext''
                   then let_val (arg_str args 1) (\<lambda>t. Inr (ds(s16 i \<mapsto> add_page t d)))
                   else let_val (arg_int e args 1) (\<lambda>l. let_val (arg_str args 2) (\<lambda>t.
                          Inr (ds(s16 i \<mapsto> d\<lparr>dl_links := add_link l t (dl_links d)\<rparr>))))))"

fun add_dialogs :: "'d qenv \<Rightarrow> action list \<Rightarrow> (int \<rightharpoonup> dialog) \<Rightarrow> quest_exn + (int \<rightharpoonup> dialog)" where
  "add_dialogs e [] ds = Inr ds"
| "add_dialogs e (a # as) ds = let_val (add_dialog e a ds) (add_dialogs e as)"

text \<open>\<open>BeginState\<close>: only the entries \<open>d\<close> and \<open>c\<close> of the progress survive.\<close>

definition begin_state :: "'d qenv \<Rightarrow> string \<Rightarrow> quest_state \<Rightarrow> qworld \<Rightarrow> qworld \<times> quest_exn option" where
  "begin_state e name s w =
     (let w1 = w\<lparr>qw_desc := qs_desc s,
                 qw_progress := filter (\<lambda>p. fst p = ''d'' \<or> fst p = ''c'') (qw_progress w),
                 qw_dialogs := Map.empty\<rparr>
      in if qe_disabled e then (w1, None)
         else case add_dialogs e (qs_actions s) Map.empty of
                Inl x \<Rightarrow> (w1, Some x)
              | Inr ds \<Rightarrow> (w1\<lparr>qw_dialogs := ds\<rparr>, None))"

definition quest_iface :: "'d qenv \<Rightarrow> qworld iface" where
  "quest_iface e =
     \<lparr>if_begin = begin_state e, if_check = check_rule e, if_act = do_action e, if_gain = gain_level e\<rparr>"

section \<open>What a player does\<close>

definition first_int_is :: "'d qenv \<Rightarrow> int \<Rightarrow> variant list \<Rightarrow> quest_exn + bool" where
  "first_int_is e i args = let_val (arg_int e args 0) (\<lambda>k. Inr (k = i))"

definition dialog_input :: "'d qenv \<Rightarrow> quest \<Rightarrow> nat \<Rightarrow> int \<Rightarrow> qworld cx \<Rightarrow> qworld step" where
  "dialog_input e q n link_id c =
     (if qe_disabled e then Some (c, Ret False)
      else trigger_rule (quest_iface e) q n ''inputnpc'' (first_int_is e link_id) c)"

definition talked_npc :: "'d qenv \<Rightarrow> quest \<Rightarrow> nat \<Rightarrow> int \<Rightarrow> qworld cx \<Rightarrow> qworld step" where
  "talked_npc e q n vendor_id c =
     (if qe_disabled e then Some (c, Ret False)
      else trigger_rule (quest_iface e) q n ''talkedtonpc'' (first_int_is e vendor_id) c)"

text \<open>Counting: a rule of the kind is looked for, its counter goes up, and the action of the first rule whose
  count is reached runs; the counter is then erased.\<close>

definition count_up :: "string \<Rightarrow> qworld cx \<Rightarrow> qworld cx \<times> int" where
  "count_up key c =
     (let v = s16 (progress_get key (qw_progress (cx_world c)) + 1)
      in (c\<lparr>cx_world := set_progress key v (cx_world c)\<rparr>, v))"

definition erase_count :: "string \<Rightarrow> qworld cx \<Rightarrow> qworld cx" where
  "erase_count key c =
     c\<lparr>cx_world := (cx_world c)\<lparr>qw_progress := progress_erase key (qw_progress (cx_world c))\<rparr>\<rparr>"

definition counted_rule ::
  "'d qenv \<Rightarrow> quest \<Rightarrow> nat \<Rightarrow> string \<Rightarrow> string \<Rightarrow> (variant list \<Rightarrow> quest_exn + bool) \<Rightarrow>
   (int \<Rightarrow> variant list \<Rightarrow> quest_exn + bool) \<Rightarrow> qworld cx \<Rightarrow> qworld step" where
  "counted_rule e q n kind key concerns reached c =
     (if qe_disabled e then Some (c, Ret False)
      else case query_rule kind concerns c of
             Inl x \<Rightarrow> Some (c, Exn x)
           | Inr check \<Rightarrow>
               (case if check then count_up key c else (c, 0) of
                  (c1, amount) \<Rightarrow>
                    and_then (trigger_rule (quest_iface e) q n kind (reached amount) c1)
                      (\<lambda>c triggered. if triggered then Some (erase_count key c, Ret True) else Some (c, Ret False))))"

definition id_reached :: "'d qenv \<Rightarrow> int \<Rightarrow> int \<Rightarrow> variant list \<Rightarrow> quest_exn + bool" where
  "id_reached e i amount args =
     let_val (arg_int e args 0) (\<lambda>k. if k \<noteq> i then Inr False else let_val (arg_int e args 1) (\<lambda>m. Inr (m \<le> amount)))"

definition used_item :: "'d qenv \<Rightarrow> quest \<Rightarrow> nat \<Rightarrow> int \<Rightarrow> qworld cx \<Rightarrow> qworld step" where
  "used_item e q n i =
     counted_rule e q n ''useditem'' (''useditem/'' @ dec_of_int i) (first_int_is e i) (id_reached e i)"

definition used_spell :: "'d qenv \<Rightarrow> quest \<Rightarrow> nat \<Rightarrow> int \<Rightarrow> qworld cx \<Rightarrow> qworld step" where
  "used_spell e q n i =
     counted_rule e q n ''usedspell'' (''usedspell/'' @ dec_of_int i) (first_int_is e i) (id_reached e i)"

definition killed_npc :: "'d qenv \<Rightarrow> quest \<Rightarrow> nat \<Rightarrow> int \<Rightarrow> qworld cx \<Rightarrow> qworld step" where
  "killed_npc e q n i =
     counted_rule e q n ''killednpcs'' (''killednpcs/'' @ dec_of_int i) (first_int_is e i) (id_reached e i)"

definition killed_player :: "'d qenv \<Rightarrow> quest \<Rightarrow> nat \<Rightarrow> qworld cx \<Rightarrow> qworld step" where
  "killed_player e q n =
     counted_rule e q n ''killedplayers'' ''killedplayers'' (\<lambda>_. Inr True)
       (\<lambda>amount args. let_val (arg_int e args 0) (\<lambda>m. Inr (m \<le> amount)))"

definition is_hidden :: "quest \<Rightarrow> qworld cx \<Rightarrow> bool" where
  "is_hidden q c \<longleftrightarrow>
     qi_hidden (qu_info q) = Hidden \<or> qi_hidden (qu_info q) = HiddenEnd \<and> cx_name c = ''end'' \<or> cx_name c = ''done''"

section \<open>The progress of the goal\<close>

datatype book_icon = Icon_Item | Icon_Talk | Icon_Kill | Icon_Step

definition progress_of :: "string \<Rightarrow> qworld cx \<Rightarrow> int" where
  "progress_of key c = progress_get key (qw_progress (cx_world c))"

text \<open>\<open>Progress\<close>: the icon, how far, and how far to go.\<close>

definition goal_progress :: "'d qenv \<Rightarrow> qworld cx \<Rightarrow> quest_exn + book_icon \<times> int \<times> int" where
  "goal_progress e c =
     (case get_goal c of
        None \<Rightarrow> Inr (Icon_Talk, 0, 0)
      | Some goal \<Rightarrow>
          let fn = ex_function (ru_expr goal); args = ex_args (ru_expr goal)
          in if fn = ''gotitems'' \<or> fn = ''gotspell''
             then let_val (arg_int e args 1) (\<lambda>m. let_val (arg_int e args 0) (\<lambda>i. let_val (arg_count e args) (\<lambda>n.
                    Inr (Icon_Item, s16 (min m (has_item (s16 i) False (chr_of (cx_world c)))), s16 n))))
             else if fn = ''useditem'' \<or> fn = ''usedspell'' \<or> fn = ''killednpcs''
             then let_val (arg_str args 0) (\<lambda>i. let_val (arg_count e args) (\<lambda>n.
                    Inr (if fn = ''killednpcs'' then Icon_Kill else Icon_Item, progress_of (fn @ ''/'' @ i) c, s16 n)))
             else if fn = ''killedplayers''
             then let_val (arg_int e args 0) (\<lambda>n. Inr (Icon_Kill, progress_of fn c, s16 n))
             else if fn = ''entercoord'' \<or> fn = ''leavecoord'' \<or> fn = ''entermap'' \<or> fn = ''leavemap''
             then Inr (Icon_Step, 0, 0)
             else Inr (Icon_Talk, 0, 0))"

section \<open>Validated quests\<close>

text \<open>The conditions of \<open>if\<close> and \<open>elseif\<close>, which the code does not validate.\<close>

definition validate_conditions :: "string list \<Rightarrow> quest \<Rightarrow> bool" where
  "validate_conditions names q \<longleftrightarrow>
     list_all (\<lambda>name. case qu_states q name of
                        None \<Rightarrow> True
                      | Some s \<Rightarrow> list_all (\<lambda>a. ac_cond a = Cond_None \<or> ac_cond a = Cond_Else
                                             \<or> validate_rule q name (ac_cond_expr a) = None) (qs_actions s)) names"

text \<open>No argument is missing: for values and for actions.\<close>

definition present :: "quest_exn + 'a \<Rightarrow> bool" where
  "present r \<longleftrightarrow> r \<noteq> Inl Missing_Arg"

definition complete :: "'w prog \<Rightarrow> bool" where
  "complete p \<longleftrightarrow> prog_avoids Missing_Arg p"

named_theorems args_present \<open>what reads no missing argument\<close>

lemma present_Inr [args_present]: "present (Inr v)"
  by (simp add: present_def)

lemma arg_present [args_present]:
  "k < length args \<Longrightarrow> present (arg args k)"
  "k < length args \<Longrightarrow> present (arg_int e args k)"
  "k < length args \<Longrightarrow> present (arg_str args k)"
  "present (arg_count e args)"
  by (auto simp: present_def arg_def arg_int_def arg_str_def arg_count_def let_val_def split: option.splits)

lemma let_val_present [args_present]: "present r \<Longrightarrow> (\<And>v. present (k v)) \<Longrightarrow> present (let_val r k)"
  by (auto simp: present_def let_val_def split: sum.splits)

lemma rpn_char_eval_present [args_present]: "present (rpn_char_eval e stack c)"
  by (auto simp: present_def rpn_char_eval_def Let_def split: sum.splits rpn_error.splits)

lemma if_present [args_present]: "(b \<Longrightarrow> present x) \<Longrightarrow> (\<not> b \<Longrightarrow> present y) \<Longrightarrow> present (if b then x else y)"
  by simp

lemma parsed_present [args_present]:
  "present (case rpn_parse t of None \<Rightarrow> Inl Undefined | Some stack \<Rightarrow> rpn_char_eval e stack c)"
  using rpn_char_eval_present by (auto simp: present_def split: option.split)

lemma use_val_complete [args_present]: "present r \<Longrightarrow> (\<And>v. complete (k v)) \<Longrightarrow> complete (use_val r w k)"
  by (auto simp: present_def complete_def use_val_def split: sum.splits)

lemma if_complete [args_present]: "(b \<Longrightarrow> complete x) \<Longrightarrow> (\<not> b \<Longrightarrow> complete y) \<Longrightarrow> complete (if b then x else y)"
  by simp

lemma helpers_complete [args_present]:
  "complete (done_action w)" "complete (then_check w)" "complete (q_warp e m x y w)" "complete (karma_action f w)"
  "complete (Enter w s)" "complete (Restart w s)" "complete (Detach w)" "complete (Done w (Inl (Runtime t)))"
  "complete (Done w (Inl Undefined))" "complete (Done w (Inr b))"
  "complete p \<Longrightarrow> complete p' \<Longrightarrow> complete (Attached p p')"
  "(\<And>w. complete (k w)) \<Longrightarrow> complete (Recheck w k)" "(\<And>x. complete (g x)) \<Longrightarrow> complete (Gain w g)"
  by (simp_all add: complete_def done_action_def then_check_def q_warp_def karma_action_def Let_def)

lemma modify_stat_complete: "modify_stat e name f w = Some p \<Longrightarrow> complete p"
  by (auto simp: modify_stat_def complete_def done_action_def then_check_def q_warp_def Let_def
      split: option.splits stat_group.splits)

text \<open>The arity that the tables promise.\<close>

lemma validated_call:
  assumes "validate_call q name ty fn args info = None"
  shows "fst info \<le> int (length args)"
  using assms by (auto simp: validate_call_def split: if_splits)

lemma validated_action:
  assumes "validate_action q name a = None"
  shows "fst (the (action_argument_info (ex_function (ac_expr a)))) \<le> int (length (ex_args (ac_expr a)))"
  using assms by (auto simp: validate_action_def Let_def dest: validated_call split: option.splits)

lemma validated_rule:
  assumes "validate_rule q name ex = None"
  shows "fst (the (rule_argument_info (ex_function ex))) \<le> int (length (ex_args ex))"
  using assms by (auto simp: validate_rule_def dest: validated_call split: option.splits)

lemma character_rule_present:
  assumes "fst (the (rule_argument_info fn)) \<le> int (length args)"
  shows "present (character_rule e fn args w)"
  unfolding character_rule_def Let_def stat_rule_def at_coord_def
  by (intro args_present;
      use assms in \<open>simp add: rule_argument_info_def info_t_def del: length_greater_0_conv\<close>)

lemma check_rule_present:
  assumes "validate_rule q name ex = None"
  shows "present (snd (check_rule e ex w))"
  unfolding check_rule_def Let_def
  by (simp only: if_distrib [of snd] snd_conv)
    (intro args_present character_rule_present validated_rule [OF assms];
      use validated_rule [OF assms] in \<open>simp add: rule_argument_info_def info_t_def del: length_greater_0_conv\<close>)

definition action_arity :: "string \<Rightarrow> int" where
  "action_arity fn = fst (the (action_argument_info fn))"

lemma action_arities:
  "action_arity ''setstate'' = 1" "action_arity ''startquest'' = 1" "action_arity ''resetquest'' = 1"
  "action_arity ''setqueststate'' = 2" "action_arity ''addnpctext'' = 2" "action_arity ''addnpcinput'' = 3"
  "action_arity ''showhint'' = 1" "action_arity ''setmap'' = 3" "action_arity ''setcoord'' = 3"
  "action_arity ''playsound'' = 1" "action_arity ''giveexp'' = 1" "action_arity ''giveitem'' = 1"
  "action_arity ''removeitem'' = 1" "action_arity ''setclass'' = 1" "action_arity ''setrace'' = 1"
  "action_arity ''removekarma'' = 1" "action_arity ''givekarma'' = 1" "action_arity ''settitle'' = 1"
  "action_arity ''setfiance'' = 1" "action_arity ''setpartner'' = 1" "action_arity ''sethome'' = 1"
  "action_arity ''setstat'' = 2" "action_arity ''givestat'' = 2" "action_arity ''removestat'' = 2"
  "action_arity ''roll'' = 1"
  by (simp_all add: action_arity_def action_argument_info_def info_t_def)

lemmas arity_simps = action_arities Let_def

lemma quest_action_complete:
  assumes "fn \<in> {''setstate'', ''reset'', ''resetdaily'', ''end'', ''startquest'', ''resetquest'', ''setqueststate''}"
    "action_arity fn \<le> int (length args)"
  shows "complete (quest_action e fn args w)"
  using assms by (elim insertE; simp add: arity_simps quest_action_def split del: if_split; intro args_present; auto)

lemma world_action_complete:
  assumes "fn \<in> {''showhint'', ''quake'', ''quakeworld'', ''setmap'', ''setcoord'', ''playsound''}"
    "action_arity fn \<le> int (length args)"
  shows "complete (world_action e fn args w)"
  using assms by (elim insertE; simp add: arity_simps world_action_def quake_strength_def split del: if_split; intro args_present; auto)

lemma item_action_complete:
  assumes "fn \<in> {''giveitem'', ''removeitem''}" "action_arity fn \<le> int (length args)"
  shows "complete (item_action e fn args w)"
  using assms
  by (elim insertE; simp add: arity_simps item_action_def split_def split del: if_split; intro args_present; auto)

lemma trait_action_complete:
  assumes "fn \<in> {''setclass'', ''setrace'', ''removekarma'', ''givekarma'', ''settitle'', ''setfiance'',
      ''setpartner'', ''sethome''}" "action_arity fn \<le> int (length args)"
  shows "complete (trait_action e fn args w)"
  using assms by (elim insertE; simp add: arity_simps trait_action_def split del: if_split; intro args_present; auto)

lemma stat_action_complete:
  assumes "fn \<in> {''setstat'', ''givestat'', ''removestat''}" "action_arity fn \<le> int (length args)"
  shows "complete (stat_action e fn args w)"
proof -
  have "complete (case modify_stat e t f w of Some p \<Rightarrow> p | None \<Rightarrow> Done w (Inl (Runtime m)))" for t f m
    by (auto split: option.split intro: modify_stat_complete args_present)
  moreover have "2 \<le> length args" using assms by (elim insertE) (auto simp: arity_simps)
  ultimately show ?thesis unfolding stat_action_def Let_def by (intro args_present; auto)
qed

lemma do_action_complete:
  assumes "validate_action q name a = None"
  shows "complete (do_action e a w)"
proof -
  have arity: "action_arity (ex_function (ac_expr a)) \<le> int (length (ex_args (ac_expr a)))"
    unfolding action_arity_def using assms by (rule validated_action)
  have rest: "ex_function (ac_expr a) = ''roll'' \<Longrightarrow> complete (roll_action e (ex_args (ac_expr a)) w)"
    "ex_function (ac_expr a) = ''giveexp'' \<Longrightarrow> complete (exp_action e (ex_args (ac_expr a)) w)"
    unfolding roll_action_def exp_action_def Let_def split_def
    by (intro args_present; use arity in \<open>simp add: arity_simps\<close>; auto)+
  show ?thesis
    unfolding do_action_def Let_def
    by (intro if_complete rest quest_action_complete world_action_complete item_action_complete
          trait_action_complete stat_action_complete helpers_complete arity; assumption)
qed

lemma add_dialog_present:
  assumes "validate_action q name a = None"
  shows "present (add_dialog e a ds)"
proof -
  have arity: "action_arity (ex_function (ac_expr a)) \<le> int (length (ex_args (ac_expr a)))"
    unfolding action_arity_def using assms by (rule validated_action)
  show ?thesis
    unfolding add_dialog_def Let_def
    by (intro args_present; use arity in \<open>auto simp: arity_simps\<close>)
qed

lemma add_dialogs_present:
  "\<forall>a\<in>set as. validate_action q name a = None \<Longrightarrow> present (add_dialogs e as ds)"
  by (induction as arbitrary: ds) (auto intro!: args_present add_dialog_present)

lemma validated_state:
  assumes "validate_quest names q = None" "qu_states q name = Some s" "name \<in> set names"
  shows "validate_state q name s = None"
  using assms by (force simp: validate_quest_def first_error_None)

lemma validated_iface:
  assumes "validate_quest names q = None" "validate_conditions names q"
    and "\<And>name. qu_states q name \<noteq> None \<Longrightarrow> name \<in> set names"
    and s: "qu_states q name = Some s"
  shows "iface_avoids (quest_iface e) Missing_Arg s"
proof -
  have name: "name \<in> set names" using assms(3) [of name] s by simp
  note valid = validated_state [OF assms(1) s name]
  have conds: "\<forall>a\<in>set (qs_actions s). ac_cond a = Cond_None \<or> ac_cond a = Cond_Else \<or>
      validate_rule q name (ac_cond_expr a) = None"
    using bspec [OF assms(2) [unfolded validate_conditions_def list_all_iff ] name] s
    by (simp add: list_all_iff)
  have actions: "\<forall>a\<in>set (qs_actions s). validate_action q name a = None"
    and rules: "\<forall>r\<in>set (qs_rules s). validate_action q name (ru_action r) = None \<and> validate_rule q name (ru_expr r) = None"
    using valid by (auto simp: validate_state_def first_error_None)
  have "snd (begin_state e m s w) \<noteq> Some Missing_Arg" for m w
    using add_dialogs_present [OF actions, of e Map.empty]
    by (auto simp: begin_state_def present_def Let_def split: sum.splits)
  moreover have "action_avoids (quest_iface e) Missing_Arg a" if "a \<in> set (qs_actions s)" for a
    using do_action_complete [of q name a e] check_rule_present [of q name "ac_cond_expr a" e] actions conds that
    by (auto simp: action_avoids_def quest_iface_def complete_def present_def)
  ultimately show ?thesis
    using do_action_complete [of q name _ e] check_rule_present [of q name _ e] rules
    by (auto simp: iface_avoids_def quest_iface_def complete_def present_def)
qed

text \<open>A quest that never names a quest by its number.\<close>

definition all_actions :: "quest_state \<Rightarrow> action list" where
  "all_actions s = qs_actions s @ map ru_action (qs_rules s)"

definition names_no_quest :: "string list \<Rightarrow> quest \<Rightarrow> bool" where
  "names_no_quest names q \<longleftrightarrow>
     list_all (\<lambda>name. case qu_states q name of
       None \<Rightarrow> True
     | Some s \<Rightarrow> list_all (\<lambda>a. ex_function (ac_expr a) \<notin> {''startquest'', ''resetquest'', ''setqueststate''}) (all_actions s)) names"

text \<open>C6: when a quest has passed validation, and the conditions of its \<open>if\<close> actions would pass it too, nothing in
  it reads an argument that is not there: neither entering a state, nor checking a rule or condition of it,
  nor running an action of it, up to its end and whatever the rules that it has checked do to the world in
  between, whatever the arguments, the character and the settings are. So a whole run of the quest, however
  deep its calls nest, never does, when it is the only quest of its character and names no quest by number.\<close>

theorem validated_quest_reads_arguments:
  assumes "validate_quest names q = None" "validate_conditions names q"
    and "\<And>name. qu_states q name \<noteq> None \<Longrightarrow> name \<in> set names"
  shows "(\<forall>name s m w. qu_states q name = Some s \<longrightarrow>
        snd (begin_state e m s w) \<noteq> Some Missing_Arg
        \<and> (\<forall>r\<in>set (qs_rules s). snd (check_rule e (ru_expr r) w) \<noteq> Inl Missing_Arg)
        \<and> (\<forall>a\<in>set (qs_actions s). ac_cond a = Cond_If \<or> ac_cond a = Cond_ElseIf \<longrightarrow>
             snd (check_rule e (ac_cond_expr a) w) \<noteq> Inl Missing_Arg)
        \<and> (\<forall>a\<in>set (all_actions s). prog_avoids Missing_Arg (do_action e a w)))
    \<and> (names_no_quest names q \<and> cx_in q c \<and> exec (quest_iface e) q n cl c = Some (c', out) \<longrightarrow> out \<noteq> Exn Missing_Arg)"
proof (intro conjI allI impI)
  show "out \<noteq> Exn Missing_Arg" if "names_no_quest names q \<and> cx_in q c \<and> exec (quest_iface e) q n cl c = Some (c', out)"
  proof -
    have "avoids q Missing_Arg (exec (quest_iface e) q n cl c)"
      by (rule exec_avoids) (use that validated_iface [OF assms] in \<open>auto simp: own_exn_def\<close>)
    with that show ?thesis by simp
  qed
qed (use validated_iface [OF assms] in \<open>force simp: iface_avoids_def action_avoids_def quest_iface_def all_actions_def\<close>)+

definition call :: "string \<Rightarrow> variant list \<Rightarrow> expression" where
  "call fn args = \<lparr>ex_scopes = [], ex_function = fn, ex_args = args\<rparr>"

definition plain_action :: "string \<Rightarrow> variant list \<Rightarrow> action" where
  "plain_action fn args = \<lparr>ac_cond = Cond_None, ac_cond_expr = empty_expression, ac_expr = call fn args\<rparr>"

definition simple_state :: "action list \<Rightarrow> rule list \<Rightarrow> quest_state" where
  "simple_state as rs = state_init\<lparr>qs_actions := as, qs_rules := rs\<rparr>"

definition one_state :: "action list \<Rightarrow> rule list \<Rightarrow> quest" where
  "one_state as rs = quest_init\<lparr>qu_states := [''begin'' \<mapsto> simple_state as rs]\<rparr>"

lemmas example_simps = call_def plain_action_def simple_state_def one_state_def quest_init_def state_init_def
  empty_expression_def

text \<open>C7: the gaps of the validation. (1) The conditions of \<open>if\<close> are not validated: \<open>if isclass()\<close> is accepted
  and reads a missing argument. (2) \<open>useditem(i)\<close> with one argument is accepted, as its table entry says,
  but using the item then reads a second one. (3) \<open>gotitems(i)\<close> is accepted, but showing the progress of
  a quest whose goal it is reads a second one.\<close>

theorem validation_gaps:
  fixes e :: "'d qenv"
  assumes "\<not> qe_disabled e"
    and "cx_state c = Some (simple_state [] [\<lparr>ru_expr = call ''useditem'' [VInt i], ru_action = plain_action ''end'' []\<rparr>])"
    and "cx_state d = Some (simple_state [] [\<lparr>ru_expr = call ''gotitems'' [VInt i], ru_action = plain_action ''end'' []\<rparr>])"
  shows "validate_quest [''begin''] (one_state [(plain_action ''reset'' [])\<lparr>ac_cond := Cond_If, ac_cond_expr := call ''isclass'' []\<rparr>]
           [\<lparr>ru_expr = call ''useditem'' [VInt i], ru_action = plain_action ''end'' []\<rparr>,
            \<lparr>ru_expr = call ''gotitems'' [VInt i], ru_action = plain_action ''end'' []\<rparr>]) = None
    \<and> snd (check_rule e (call ''isclass'' []) w) = Inl Missing_Arg
    \<and> (\<exists>c'. used_item e q n i c = Some (c', Exn Missing_Arg))
    \<and> goal_progress e d = Inl Missing_Arg"
proof (intro conjI)
  show "snd (check_rule e (call ''isclass'' []) w) = Inl Missing_Arg"
    using assms(1) by (simp add: check_rule_def character_rule_def call_def let_val_def arg_int_def arg_def)
  show "\<exists>c'. used_item e q n i c = Some (c', Exn Missing_Arg)"
    using assms(1,2) by (simp add: used_item_def counted_rule_def query_rule_def trigger_rule_def count_up_def
        first_int_is_def id_reached_def let_val_def arg_int_def arg_def simple_state_def call_def Let_def and_then_def)
  show "goal_progress e d = Inl Missing_Arg"
    using assms(3) by (simp add: goal_progress_def get_goal_def simple_state_def call_def let_val_def arg_int_def arg_def
        state_init_def)
qed (simp add: validate_quest_def validate_state_def validate_action_def validate_rule_def validate_call_def
    action_argument_info_def rule_argument_info_def info_t_def or_error_def example_simps)

definition quiet_quest :: "string list \<Rightarrow> quest \<Rightarrow> bool" where
  "quiet_quest names q \<longleftrightarrow>
     names_no_quest names q
     \<and> list_all (\<lambda>name. case qu_states q name of
         None \<Rightarrow> True
       | Some s \<Rightarrow>
           list_all (\<lambda>a. ex_function (ac_expr a) \<notin> {''setstate'', ''reset'', ''resetdaily'', ''end''}) (qs_actions s)
           \<and> list_all (\<lambda>a. ex_function (ac_expr a) \<noteq> ''giveexp'') (all_actions s)) names"

lemma use_val_stays:
  "(\<And>v. stays (k v)) \<Longrightarrow> stays (use_val r w k)" "(\<And>v. steady (k v)) \<Longrightarrow> steady (use_val r w k)"
  by (auto simp: use_val_def split: sum.splits)

lemma if_stays:
  "(b \<Longrightarrow> stays x) \<Longrightarrow> (\<not> b \<Longrightarrow> stays y) \<Longrightarrow> stays (if b then x else y)"
  "(b \<Longrightarrow> steady x) \<Longrightarrow> (\<not> b \<Longrightarrow> steady y) \<Longrightarrow> steady (if b then x else y)"
  by simp_all

lemma helpers_stay:
  "stays (done_action w)" "stays (then_check w)" "stays (q_warp e m x y w)" "stays (karma_action f w)"
  "stays (Done w (Inl err))" "(\<And>w. stays (k w)) \<Longrightarrow> stays (Recheck w k)"
  by (simp_all add: done_action_def then_check_def q_warp_def karma_action_def Let_def)

lemma moves_steady:
  "steady (Enter w s)" "steady (Restart w s)" "steady (Detach w)" "steady (Done w r)" "steady (done_action w)"
  "steady p \<Longrightarrow> steady p' \<Longrightarrow> steady (Attached p p')"
  by (simp_all add: done_action_def)

lemmas stay_intros = use_val_stays if_stays helpers_stay moves_steady

lemma modify_stat_stays: "modify_stat e name f w = Some p \<Longrightarrow> stays p"
  by (auto simp: modify_stat_def done_action_def then_check_def q_warp_def Let_def
      split: option.splits stat_group.splits)

lemma quiet_action_stays:
  assumes "ex_function (ac_expr a) \<notin>
      {''setstate'', ''reset'', ''resetdaily'', ''end'', ''startquest'', ''resetquest'', ''setqueststate'', ''giveexp''}"
  shows "stays (do_action e a w)"
proof -
  have "stays (case modify_stat e t f w of Some p \<Rightarrow> p | None \<Rightarrow> Done w (Inl (Runtime m)))" for t f m
    by (auto split: option.split intro: modify_stat_stays stay_intros)
  then show ?thesis
    unfolding do_action_def world_action_def item_action_def trait_action_def stat_action_def roll_action_def
      Let_def split_def
    using assms by (intro stay_intros; simp)
qed

lemma steady_action:
  assumes "ex_function (ac_expr a) \<noteq> ''giveexp''"
  shows "steady (do_action e a w)"
proof (cases "ex_function (ac_expr a) \<in>
    {''setstate'', ''reset'', ''resetdaily'', ''end'', ''startquest'', ''resetquest'', ''setqueststate''}")
  case True
  have "steady (quest_action e fn args w)" for fn args
    unfolding quest_action_def Let_def by (intro stay_intros)
  then show ?thesis
    unfolding do_action_def Let_def using True by (simp add: moves_steady)
next
  case False
  with assms show ?thesis by (intro stays_steady quiet_action_stays) simp
qed

text \<open>C8: a quest in which no state's action enters a state or resets or ends the quest, and in which no action,
  of a state or a rule, names a quest by its number or gives experience: when it is the only quest of its
  character and the shared counter \<open>recursive_depth\<close> is not negative, every call returns within a nesting of
  a hundred and one, whatever else its rules do, with the counter as it was.\<close>

theorem quiet_quest_returns:
  assumes "quiet_quest names q" "\<And>name. qu_states q name \<noteq> None \<Longrightarrow> name \<in> set names"
    and "cl \<noteq> Gain_Levels" "cx_in q c" "0 \<le> cx_depth c" "101 \<le> n"
  shows "\<exists>c' out. exec (quest_iface e) q n cl c = Some (c', out) \<and> cx_depth c' = cx_depth c \<and> cx_in q c'"
proof -
  have "(\<forall>a\<in>set (qs_actions s). \<forall>w. stays (if_act (quest_iface e) a w))
      \<and> (\<forall>r\<in>set (qs_rules s). \<forall>w. steady (if_act (quest_iface e) (ru_action r) w))"
    if s: "qu_states q name = Some s" for name s
  proof -
    have name: "name \<in> set names" using assms(2) [of name] s by simp
    with assms(1) s have "\<forall>a\<in>set (qs_actions s). ex_function (ac_expr a) \<notin>
        {''setstate'', ''reset'', ''resetdaily'', ''end'', ''startquest'', ''resetquest'', ''setqueststate'', ''giveexp''}"
      and "\<forall>r\<in>set (qs_rules s). ex_function (ac_expr (ru_action r)) \<noteq> ''giveexp''"
      by (force simp: quiet_quest_def names_no_quest_def all_actions_def list_all_iff)+
    then show ?thesis by (simp add: quest_iface_def quiet_action_stays steady_action)
  qed
  then have "quiet_actions (quest_iface e) q" unfolding quiet_actions_def by blast
  then show ?thesis using assms(3-6) by (rule context_returns)
qed

lemma lowercase_idem [simp]: "lowercase (lowercase s) = lowercase s"
proof -
  have "to_lower (to_lower c) = to_lower c" for c
    by (cases c) (auto simp: to_lower_def is_upper_char_def ccode_def)
  then show ?thesis by (simp add: lowercase_def)
qed

lemma begin_without_dialogs:
  assumes "\<forall>a\<in>set (qs_actions s). ex_function (ac_expr a) \<noteq> ''addnpctext'' \<and> ex_function (ac_expr a) \<noteq> ''addnpcinput''"
  shows "snd (begin_state e m s w) = None"
proof -
  have "add_dialogs e as ds = Inr ds"
    if "\<forall>a\<in>set as. ex_function (ac_expr a) \<noteq> ''addnpctext'' \<and> ex_function (ac_expr a) \<noteq> ''addnpcinput''" for as ds
    using that by (induction as) (auto simp: add_dialog_def let_val_def Let_def)
  with assms show ?thesis by (simp add: begin_state_def Let_def)
qed

text \<open>C9: a state whose first action enters a state without actions and rules and whose second action enters it again
  is entered for ever. Each time an action has left the state, \<open>DoActions\<close> takes back the depth once too often
  and goes on with the rest of its actions, so that the guard against deep recursion never fires: no nesting
  however deep makes the call return.\<close>

theorem setstate_twice_never_returns:
  assumes "qu_states q (lowercase a) = Some (simple_state [plain_action ''setstate'' [VString b], plain_action ''setstate'' [VString a]] rs)"
    and "qu_states q (lowercase b) = Some (simple_state [] [])"
    and "\<not> qe_disabled e" "cx_depth c \<le> 98"
  shows "exec (quest_iface e) q n (Set_State a True) c = None"
proof -
  have act: "if_act (quest_iface e) (plain_action ''setstate'' [VString s]) w = Enter w (lowercase s)" for s w
    using assms(3) by (simp add: quest_iface_def do_action_def quest_action_def use_val_def arg_str_def arg_def let_val_def
        plain_action_def call_def)
  have begins: "snd (if_begin (quest_iface e) m (simple_state (map (\<lambda>s. plain_action ''setstate'' [VString s]) ss) rs') w) = None"
    for m ss rs' w
    by (simp add: quest_iface_def begin_without_dialogs example_simps)
  have "qu_states q (lowercase (lowercase b)) = Some (simple_state [] [])"
    by (simp add: assms(2))
  then show ?thesis
    by (rule guard_bypassed [OF assms(1) _ _ _ _ _ _ act act
          begins [of _ "[b, a]", simplified] begins [of _ "[]", simplified] assms(4) refl lowercase_idem])
      (simp_all add: example_simps)
qed

lemma progress_put_lookup [simp]: "map_of (progress_put k v m) = (map_of m)(k \<mapsto> v)"
  by (induction k v m rule: progress_put.induct) auto

lemma progress_put_twice [simp]: "progress_put k v (progress_put k u m) = progress_put k v m"
  by (induction k u m rule: progress_put.induct) auto

lemma map_of_filter_keys: "map_of (filter (\<lambda>p. P (fst p)) m) k = (if P k then map_of m k else None)"
  by (induction m) auto

lemma begin_keeps_incomplete:
  "\<not> progress_has ''c'' (qw_progress w) \<Longrightarrow> \<not> progress_has ''c'' (qw_progress (fst (begin_state e name s w)))"
  by (auto simp: begin_state_def progress_has_def map_of_filter_keys [where P = "\<lambda>k. k = ''d'' \<or> k = ''c''"] Let_def
      split: sum.split)

text \<open>C10: \<open>reset\<close> does not end the actions of a state. When it comes first in a quest that has not been completed
  before, the character loses the quest, but the rest of the actions run and then the rules are checked, on
  the context that the character no longer has: \<open>reset(); giveitem(i, k);\<close> still gives the item, and leaves
  the shared counter \<open>recursive_depth\<close> one too low. (The state is one that can be entered, and the counter
  lets its actions run.) As the action of a rule \<open>reset\<close> ends the check: no later rule is looked at.\<close>

theorem reset_goes_on:
  fixes e :: "'d qenv"
  assumes "\<not> qe_disabled e" "cx_depth c < max_recursion" "\<not> progress_has ''c'' (qw_progress (cx_world c))"
    and "qu_states q (lowercase a) = Some s" "qs_actions s = plain_action ''reset'' [] # as"
    and "snd (begin_state e a s (cx_world c)) = None"
  shows "(\<exists>d. \<not> cx_attached d \<and> cx_state d = Some s \<and> cx_depth d = cx_depth c
        \<and> cx_world d = fst (begin_state e a s (cx_world c))
        \<and> exec (quest_iface e) q (Suc n) (Set_State a True) c =
            and_then (map_option (map_prod leave_depth id) (action_loop (quest_iface e) (exec (quest_iface e) q n) as False d))
              (\<lambda>c _. check_rules (quest_iface e) (exec (quest_iface e) q n) c))
    \<and> (as = [plain_action ''giveitem'' [VInt i, VInt k]] \<and> qs_rules s = []
        \<and> snd (add_item (qe_game e) (s16 i) k (chr_of (cx_world c))) \<longrightarrow>
        (\<exists>c'. exec (quest_iface e) q (Suc n) (Set_State a True) c = Some (c', Ret False)
          \<and> \<not> cx_attached c' \<and> cx_depth c' = cx_depth c - 1
          \<and> chr_of (cx_world c') = fst (add_item (qe_game e) (s16 i) k (chr_of (cx_world c)))))
    \<and> rule_loop (quest_iface e) rec (\<lparr>ru_expr = call ''always'' [], ru_action = plain_action ''reset'' []\<rparr> # rs) c
        = Some (c\<lparr>cx_attached := False\<rparr>, Ret True)"
proof -
  let ?w = "fst (begin_state e a s (cx_world c))"
  let ?run = "exec (quest_iface e) q (Suc n) (Set_State a True) c"
  have act: "if_act (quest_iface e) (plain_action ''reset'' []) w = Detach w" if "\<not> progress_has ''c'' (qw_progress w)" for w
    using assms(1) that by (simp add: quest_iface_def do_action_def quest_action_def plain_action_def call_def)
  have reset: "if_act (quest_iface e) (plain_action ''reset'' []) (fst (if_begin (quest_iface e) a s (cx_world c))) = Detach ?w"
    using act [OF begin_keeps_incomplete [OF assms(3), of e a s]] by (simp add: quest_iface_def)
  have begins: "snd (if_begin (quest_iface e) a s (cx_world c)) = None"
    using assms(6) by (simp add: quest_iface_def)
  obtain d where d: "cx_state d = Some s" "cx_depth d = cx_depth c" "cx_world d = ?w" "\<not> cx_attached d"
    and run: "?run = and_then (map_option (map_prod leave_depth id)
          (action_loop (quest_iface e) (exec (quest_iface e) q n) as False d))
        (\<lambda>c _. check_rules (quest_iface e) (exec (quest_iface e) q n) c)"
    by (rule detach_goes_on [OF assms(4,5) _ reset assms(2) begins]) (simp_all add: plain_action_def)
  moreover have "\<exists>c'. ?run = Some (c', Ret False) \<and> \<not> cx_attached c' \<and> cx_depth c' = cx_depth c - 1
      \<and> chr_of (cx_world c') = fst (add_item (qe_game e) (s16 i) k (chr_of (cx_world c)))"
    if as: "as = [plain_action ''giveitem'' [VInt i, VInt k]]" and "qs_rules s = []"
      and "snd (add_item (qe_game e) (s16 i) k (chr_of (cx_world c)))"
  proof -
    have "chr_of ?w = chr_of (cx_world c)" by (simp add: begin_state_def chr_of_def Let_def split: sum.split)
    then have give: "do_action e (plain_action ''giveitem'' [VInt i, VInt k]) ?w
        = Recheck (set_chr (\<lambda>_. fst (add_item (qe_game e) (s16 i) k (chr_of (cx_world c)))) ?w)
            (\<lambda>w. done_action (tell_world (item_packet i k (chr_of w)) w))"
      using assms(1) that(3)
      by (simp add: do_action_def item_action_def plain_action_def call_def use_val_def arg_int_def arg_count_def
          arg_def let_val_def split_def)
    show ?thesis
      unfolding run as using give d that(2) assms(2)
      by (simp add: loop_action_def cx_do_action_def quest_iface_def recheck_def and_then_def done_action_def
          plain_action_def check_rules_def guarded_def leave_depth_def enter_depth_def tell_world_def set_chr_def
          set_qc_def chr_of_def)
  qed
  moreover have "rule_loop (quest_iface e) rec (\<lparr>ru_expr = call ''always'' [], ru_action = plain_action ''reset'' []\<rparr> # rs) c
      = Some (c\<lparr>cx_attached := False\<rparr>, Ret True)"
    using detach_in_rule [of "quest_iface e" "\<lparr>ru_expr = call ''always'' [], ru_action = plain_action ''reset'' []\<rparr>" c
        "cx_world c" "cx_world c" rec rs] act [OF assms(3)] assms(1)
    by (simp add: quest_iface_def check_rule_def character_rule_def call_def)
  ultimately show ?thesis by blast
qed

section \<open>Progress in the database\<close>

lemma progress_put_last:
  "\<forall>e\<in>set m. fst e < k \<Longrightarrow> progress_put k v m = m @ [(k, v)]"
  by (induction m) auto

lemma read_digits:
  "\<forall>c\<in>set cs. is_digit_char c \<Longrightarrow> 0 \<le> v \<Longrightarrow> dec_value v cs \<le> 32767 \<Longrightarrow>
    read_progress key v True m (cs @ rest) = read_progress key (dec_value v cs) True m rest"
proof (induction cs arbitrary: v)
  case (Cons c cs)
  have c: "is_digit_char c" "0 \<le> digit_value c" "digit_value c \<le> 9"
    using Cons.prems(1) digit_value_range [of c] by auto
  have le: "10 * v + digit_value c \<le> 32767"
    using dec_value_mono [of cs "10 * v + digit_value c"] Cons.prems c by simp
  have "s16 (s16 (v * 10) + (signed_code c - 48)) = 10 * v + digit_value c"
    using c le Cons.prems(2) by (simp add: signed_code_def digit_value_def s16_id)
  moreover have "c \<noteq> CHR ''}''" "c \<noteq> CHR '',''"
    using c(1) by (auto simp: is_digit_char_def ccode_def)
  ultimately show ?case
    using Cons c by (simp add: read_progress.simps [of key v])
qed simp


lemma read_key:
  "CHR ''='' \<notin> set k \<Longrightarrow> CHR ''}'' \<notin> set k \<Longrightarrow>
    read_progress key v False m (k @ CHR ''='' # rest) = read_progress (key @ k) v True m rest"
proof (induction k arbitrary: key)
  case Nil
  then show ?case by (subst read_progress.simps) simp
next
  case (Cons c k)
  then have "c \<noteq> CHR ''=''" "c \<noteq> CHR ''}''" by auto
  with Cons show ?case by (simp add: read_progress.simps [of key v False])
qed

definition storable :: "(string \<times> int) list \<Rightarrow> bool" where
  "storable m \<longleftrightarrow> sorted_wrt (<) (map fst m)
     \<and> list_all (\<lambda>e. CHR ''='' \<notin> set (fst e) \<and> CHR ''}'' \<notin> set (fst e) \<and> 0 \<le> snd e \<and> snd e \<le> 32767) m"

lemma read_value:
  assumes "0 \<le> v" "v \<le> 32767"
  shows "read_progress key 0 True m (dec_of_int v @ rest) = read_progress key v True m rest"
proof -
  have "dec_value 0 (dec_of_int v) = v" "\<forall>c\<in>set (dec_of_int v). is_digit_char c"
    using assms(1) dec_of_nat_digits by (simp_all add: dec_of_int_def)
  then show ?thesis using read_digits [of "dec_of_int v" 0] assms by simp
qed

lemma read_entries:
  "storable (m @ ms) \<Longrightarrow> ms \<noteq> [] \<Longrightarrow> read_progress [] 0 False m (entries ms @ CHR ''}'' # rest) = (m @ ms, rest)"
proof (induction ms arbitrary: m rule: entries.induct)
  case (2 k v)
  then have "progress_put k v m = m @ [(k, v)]"
    by (intro progress_put_last) (auto simp: storable_def sorted_wrt_append)
  with 2 show ?case
    by (simp add: storable_def read_key read_value read_progress.simps [of k v True])
next
  case (3 k v e ms)
  then have "progress_put k v m = m @ [(k, v)]"
    by (intro progress_put_last) (auto simp: storable_def sorted_wrt_append)
  with 3 show ?case
    by (simp add: storable_def read_key read_value read_progress.simps [of k v True])
qed simp

text \<open>What \<open>SerializeProgress\<close> writes is read back by \<open>UnserializeProgress\<close> into an empty map, which then stands
  behind the closing brace; counters must not be negative (the code reads a sign as a digit), and keys
  must not contain \<open>=\<close> or a closing brace.\<close>

lemma progress_round_trip:
  assumes "storable m"
  shows "unserialize_progress [] (serialize_progress m @ rest) = (m, rest)"
proof (cases "m = []")
  case True
  then show ?thesis
    by (simp add: unserialize_progress_def serialize_progress_def read_progress.simps [of "[]"])
next
  case False
  with assms show ?thesis
    using read_entries [of "[]" m rest] by (simp add: unserialize_progress_def serialize_progress_def)
qed

section \<open>Counting\<close>

primrec used_times :: "'d qenv \<Rightarrow> quest \<Rightarrow> nat \<Rightarrow> int \<Rightarrow> nat \<Rightarrow> qworld cx \<Rightarrow> qworld step" where
  "used_times e q n i 0 c = Some (c, Ret False)"
| "used_times e q n i (Suc k) c = and_then (used_times e q n i k c) (\<lambda>c _. used_item e q n i c)"

definition use_key :: "int \<Rightarrow> string" where
  "use_key i = ''useditem/'' @ dec_of_int i"

definition counted :: "int \<Rightarrow> int \<Rightarrow> qworld cx \<Rightarrow> qworld cx" where
  "counted i v c = c\<lparr>cx_world := set_progress (use_key i) v (cx_world c)\<rparr>"

lemma counted_twice [simp]: "counted i v (counted i u c) = counted i v c"
  by (simp add: counted_def set_progress_def)

lemma counted_fields [simp]: "cx_state (counted i v c) = cx_state c"
  "progress_get (use_key i) (qw_progress (cx_world (counted i v c))) = s16 v"
  by (simp_all add: counted_def set_progress_def progress_get_def)

text \<open>No rule of the list is about the item.\<close>

definition other_rules :: "'d qenv \<Rightarrow> int \<Rightarrow> rule list \<Rightarrow> bool" where
  "other_rules e i =
     list_all (\<lambda>r. ex_function (ru_expr r) = ''useditem'' \<longrightarrow> first_int_is e i (ex_args (ru_expr r)) = Inr False)"

lemma find_other_rules:
  "other_rules e i rs \<Longrightarrow> find_rule ''useditem'' (first_int_is e i) (rs @ rs') = find_rule ''useditem'' (first_int_is e i) rs'"
  "other_rules e i rs \<Longrightarrow> find_rule ''useditem'' (id_reached e i n) (rs @ rs') = find_rule ''useditem'' (id_reached e i n) rs'"
proof -
  have "id_reached e i n args = Inr False" if "first_int_is e i args = Inr False" for args
    using that by (auto simp: id_reached_def first_int_is_def let_val_def split: sum.splits if_splits)
  then show "other_rules e i rs \<Longrightarrow> find_rule ''useditem'' (first_int_is e i) (rs @ rs') = find_rule ''useditem'' (first_int_is e i) rs'"
    "other_rules e i rs \<Longrightarrow> find_rule ''useditem'' (id_reached e i n) (rs @ rs') = find_rule ''useditem'' (id_reached e i n) rs'"
    by (induction rs) (auto simp: other_rules_def)
qed

lemma used_item_counts:
  assumes "\<not> qe_disabled e" "cx_state c = Some s"
    and rules: "qs_rules s = rs @ \<lparr>ru_expr = call ''useditem'' [VInt i, VInt m], ru_action = a\<rparr> # rs'"
    and others: "other_rules e i rs" "other_rules e i rs'"
    and "progress_get (use_key i) (qw_progress (cx_world c)) = p" "0 \<le> p" "p < 32767"
  shows "used_item e q n i c =
    (if p + 1 < m then Some (counted i (p + 1) c, Ret False)
     else and_then (cx_do_action (quest_iface e) (exec (quest_iface e) q n) a (counted i (p + 1) c))
            (\<lambda>c _. Some (erase_count (use_key i) c, Ret True)))"
proof -
  have s: "s16 (p + 1) = p + 1" using assms(7,8) by (simp add: s16_id)
  have none: "find_rule ''useditem'' (id_reached e i (p + 1)) rs' = Inr None"
    using find_other_rules(2) [OF others(2), of "p + 1" "[]"] by simp
  have "query_rule ''useditem'' (first_int_is e i) c = Inr True"
    using assms(2) rules find_other_rules(1) [OF others(1)]
    by (simp add: query_rule_def first_int_is_def let_val_def arg_int_def arg_def call_def)
  moreover have "trigger_rule (quest_iface e) q n ''useditem'' (id_reached e i (p + 1)) (counted i (p + 1) c)
      = (if p + 1 < m then Some (counted i (p + 1) c, Ret False)
         else and_then (cx_do_action (quest_iface e) (exec (quest_iface e) q n) a (counted i (p + 1) c))
                (\<lambda>c _. Some (c, Ret True)))"
    using assms(2) rules none find_other_rules(2) [OF others(1)]
    by (simp add: trigger_rule_def id_reached_def let_val_def arg_int_def arg_def call_def)
  moreover have "count_up (use_key i) c = (counted i (p + 1) c, p + 1)"
    using assms(6) s by (simp add: count_up_def counted_def Let_def)
  ultimately show ?thesis
    using assms(1) unfolding used_item_def counted_rule_def use_key_def [symmetric]
    by (auto simp: and_then_def split: option.split outcome.split)
qed

text \<open>C11: a rule \<open>useditem(i, m)\<close> of a state that has no other rule about the item runs its action on the \<open>m\<close>-th use of
  the item and not before, counted from zero, for \<open>m\<close> from 1 to 32767: the uses until then only count, and nothing else of the character or of the quest
  changes. When the action returns, whatever it was, the counter is erased.\<close>

theorem useditem_counts:
  assumes "\<not> qe_disabled e" "cx_state c = Some s"
    and "qs_rules s = rs @ \<lparr>ru_expr = call ''useditem'' [VInt i, VInt m], ru_action = a\<rparr> # rs'"
    and "other_rules e i rs" "other_rules e i rs'"
    and "progress_get (use_key i) (qw_progress (cx_world c)) = 0" "1 \<le> m" "m \<le> 32767"
  shows "(\<forall>k. 0 < k \<and> int k < m \<longrightarrow> used_times e q n i k c = Some (counted i (int k) c, Ret False))
    \<and> used_times e q n i (nat m) c =
        and_then (cx_do_action (quest_iface e) (exec (quest_iface e) q n) a (counted i m c))
          (\<lambda>c _. Some (erase_count (use_key i) c, Ret True))"
proof -
  note rules = assms(3-5)
  have first: "used_times e q n i (Suc j) c = Some (counted i (int (Suc j)) c, Ret False)" if "int (Suc j) < m" for j
    using that
  proof (induction j)
    case 0
    then show ?case
      using used_item_counts [OF assms(1-6)] by (simp add: and_then_def)
  next
    case (Suc j)
    have "progress_get (use_key i) (qw_progress (cx_world (counted i (int (Suc j)) c))) = int (Suc j)"
      using Suc.prems assms(8) by (simp add: s16_id)
    from used_item_counts [OF assms(1) _ rules this] Suc assms(2,8) show ?case
      by (simp add: and_then_def algebra_simps)
  qed
  then have before: "used_times e q n i k c = Some (counted i (int k) c, Ret False)" if "0 < k" "int k < m" for k
    using that by (cases k) simp_all
  show ?thesis
  proof (cases "m = 1")
    case True
    then show ?thesis
      using before used_item_counts [OF assms(1-6), of q n] by (simp add: and_then_def)
  next
    case False
    have "used_times e q n i (nat (m - 1)) c = Some (counted i (m - 1) c, Ret False)"
      using before [of "nat (m - 1)"] assms(7) False by simp
    moreover have "progress_get (use_key i) (qw_progress (cx_world (counted i (m - 1) c))) = m - 1"
      using assms(7,8) by (simp add: s16_id)
    ultimately have "used_times e q n i (Suc (nat (m - 1))) c =
        and_then (cx_do_action (quest_iface e) (exec (quest_iface e) q n) a (counted i m c))
          (\<lambda>c _. Some (erase_count (use_key i) c, Ret True))"
      using used_item_counts [OF assms(1) _ rules, of "counted i (m - 1) c" "m - 1"] assms(2,7,8)
      by (simp add: and_then_def)
    moreover have "Suc (nat (m - 1)) = nat m" using assms(7) by simp
    ultimately show ?thesis using before by simp
  qed
qed

text \<open>The setting is called \<open>MaxExp\<close>, but \<open>modify_stat\<close> looks up \<open>MaxEXP\<close>, which is 0 when it is not set: every
  change of the experience makes it 0.\<close>

lemma exp_is_lost:
  assumes "qe_config e ''MaxEXP'' = 0" "modify_field e ''exp'' f c = Some (c', g)"
  shows "qc_exp c' = 0"
  using assms by (auto simp: modify_field_def clamp_def Let_def)

section \<open>Examples\<close>

definition sample_env :: "int qenv" where
  "sample_env = \<lparr>qe_id = 1, qe_disabled = False, qe_day = 100, qe_config = (\<lambda>_. 0), qe_exp_table = (\<lambda>l. 100 * l), qe_classes = 2,
     qe_map_exists = (\<lambda>_. True), qe_game = sample_game, qe_fp = int_fp, qe_vars = (\<lambda>_. Map.empty), qe_roll = (\<lambda>_ _. 1)\<rparr>"

definition sample_world :: qworld where
  "sample_world = \<lparr>qw_progress = [], qw_dialogs = Map.empty, qw_desc = [],
     qw_chr = \<lparr>qc_chr = sample_chr [(1, 500)], qc_exp = 0, qc_karma = 1000, qc_race = 0, qc_hairstyle = 0,
       qc_haircolor = 0, qc_guild_rank = 0, qc_str = 0, qc_intl = 0, qc_wis = 0, qc_agi = 0, qc_con = 0, qc_cha = 0,
       qc_statpoints = 0, qc_skillpoints = 0, qc_home = [], qc_title = [], qc_fiance = [], qc_partner = []\<rparr>, qw_calls = []\<rparr>"

text \<open>A quest that gives gold, waits for a visit to a map and pays for it.\<close>

definition errand :: quest where
  "errand = quest_init\<lparr>qu_states :=
     [''begin'' \<mapsto> simple_state [plain_action ''addnpctext'' [VInt 1, VString ''hello''],
                               (plain_action ''giveitem'' [VInt 1, VInt 5])\<lparr>ac_cond := Cond_If, ac_cond_expr := call ''gotitems'' [VInt 1]\<rparr>]
                 [\<lparr>ru_expr = call ''entermap'' [VInt 1], ru_action = plain_action ''setstate'' [VString ''Home'']\<rparr>],
      ''home'' \<mapsto> simple_state [plain_action ''givekarma'' [VInt 7]]
                 [\<lparr>ru_expr = call ''always'' [], ru_action = plain_action ''end'' []\<rparr>]]\<rparr>"

lemma errand_states: "qu_states errand name \<noteq> None \<Longrightarrow> name \<in> set [''begin'', ''home'']"
  by (simp add: errand_def split: if_splits)

lemma errand_runs:
  "case exec (quest_iface sample_env) errand 5 (Set_State ''Begin'' True) (context_new sample_world) of
     None \<Rightarrow> False | Some (c, out) \<Rightarrow> cx_name c = ''end'' \<and> qc_karma (qw_chr (cx_world c)) = 1007 \<and> out = Ret False"
  by code_simp

lemma errand_valid: "validate_quest [''begin'', ''home''] errand = None" "validate_conditions [''begin'', ''home''] errand"
  by code_simp+

lemma validated_quest_reads_arguments_witness:
  "(\<exists>c out. exec (quest_iface sample_env) errand 5 (Set_State ''Begin'' True) (context_new sample_world) = Some (c, out)
     \<and> out \<noteq> Exn Missing_Arg)
   \<and> (\<exists>s. qu_states errand ''begin'' = Some s \<and> (\<forall>a\<in>set (all_actions s). prog_avoids Missing_Arg (do_action sample_env a sample_world)))"
proof -
  have new: "cx_in errand (context_new sample_world)" by (simp add: cx_in_def context_new_def)
  have alone: "names_no_quest [''begin'', ''home''] errand" by code_simp
  obtain c out where run: "exec (quest_iface sample_env) errand 5 (Set_State ''Begin'' True) (context_new sample_world) = Some (c, out)"
    using errand_runs by (auto split: option.splits)
  obtain s where s: "qu_states errand ''begin'' = Some s" by (simp add: errand_def)
  note all = validated_quest_reads_arguments [OF errand_valid errand_states, of sample_env "context_new sample_world" 5
      "Set_State ''Begin'' True" c out]
  have "out \<noteq> Exn Missing_Arg" using all new alone run by blast
  moreover have "\<forall>a\<in>set (all_actions s). prog_avoids Missing_Arg (do_action sample_env a sample_world)" using all s by blast
  ultimately show ?thesis using run s by blast
qed

lemma sample_world_simps [simp]:
  "\<not> qe_disabled sample_env" "cx_attached (context_new w)" "cx_depth (context_new w) = 0" "cx_world (context_new w) = w"
  "qw_progress sample_world = []"
  by (simp_all add: sample_env_def context_new_def sample_world_def)

lemma validation_gaps_witness:
  "(\<exists>c'. used_item sample_env (one_state [] []) 0 4 ((context_new sample_world)\<lparr>cx_state := Some
      (simple_state [] [\<lparr>ru_expr = call ''useditem'' [VInt 4], ru_action = plain_action ''end'' []\<rparr>])\<rparr>) = Some (c', Exn Missing_Arg))
   \<and> goal_progress sample_env ((context_new sample_world)\<lparr>cx_state := Some
      (simple_state [] [\<lparr>ru_expr = call ''gotitems'' [VInt 4], ru_action = plain_action ''end'' []\<rparr>])\<rparr>) = Inl Missing_Arg"
  using validation_gaps [of sample_env
      "(context_new sample_world)\<lparr>cx_state := Some
         (simple_state [] [\<lparr>ru_expr = call ''useditem'' [VInt 4], ru_action = plain_action ''end'' []\<rparr>])\<rparr>" 4
      "(context_new sample_world)\<lparr>cx_state := Some
         (simple_state [] [\<lparr>ru_expr = call ''gotitems'' [VInt 4], ru_action = plain_action ''end'' []\<rparr>])\<rparr>" sample_world "one_state [] []" 0]
  by simp

lemma quiet_quest_returns_witness:
  "\<exists>c' out. exec (quest_iface sample_env) errand 101 (Set_State ''Begin'' True) (context_new sample_world) = Some (c', out)
     \<and> cx_depth c' = cx_depth (context_new sample_world) \<and> cx_in errand c'"
proof (rule quiet_quest_returns)
  show "quiet_quest [''begin'', ''home''] errand" by code_simp
qed (use errand_states in \<open>simp_all add: cx_in_def context_new_def\<close>)

lemma setstate_twice_never_returns_witness:
  "exec (quest_iface sample_env) (quest_init\<lparr>qu_states :=
      [''a'' \<mapsto> simple_state [plain_action ''setstate'' [VString ''b''], plain_action ''setstate'' [VString ''A'']] [],
       ''b'' \<mapsto> simple_state [] []]\<rparr>) 1000 (Set_State ''A'' True) (context_new sample_world) = None"
proof -
  have "lowercase ''A'' = ''a''" "lowercase ''b'' = ''b''" by code_simp+
  then show ?thesis by (intro setstate_twice_never_returns [where b = "''b''"]) simp_all
qed

text \<open>Five gold for giving up the quest.\<close>

definition farm_state :: quest_state where
  "farm_state = simple_state [plain_action ''reset'' [], plain_action ''giveitem'' [VInt 1, VInt 5]] []"

lemma reset_goes_on_witness:
  "\<exists>c'. exec (quest_iface sample_env) (quest_init\<lparr>qu_states := [''begin'' \<mapsto> farm_state]\<rparr>) 3 (Set_State ''Begin'' True)
      (context_new sample_world) = Some (c', Ret False)
    \<and> \<not> cx_attached c' \<and> cx_depth c' = - 1 \<and> owned (chr_of (cx_world c')) 1 = 505"
proof -
  have low: "lowercase ''Begin'' = ''begin''" by code_simp
  have give: "snd (add_item (qe_game sample_env) (s16 1) 5 (chr_of (cx_world (context_new sample_world))))"
    "owned (fst (add_item (qe_game sample_env) (s16 1) 5 (chr_of (cx_world (context_new sample_world))))) 1 = 505"
    by code_simp+
  have found: "qu_states (quest_init\<lparr>qu_states := [''begin'' \<mapsto> farm_state]\<rparr>) (lowercase ''Begin'') = Some farm_state"
    by (simp add: low)
  have acts: "qs_actions farm_state = plain_action ''reset'' [] # [plain_action ''giveitem'' [VInt 1, VInt 5]]"
    "qs_rules farm_state = []"
    by (simp_all add: farm_state_def simple_state_def)
  have "cx_depth (context_new sample_world) < max_recursion"
    "\<not> progress_has ''c'' (qw_progress (cx_world (context_new sample_world)))"
    by (simp_all add: max_recursion_def progress_has_def)
  note all = reset_goes_on [OF _ this found acts(1), of sample_env 2 1 5 "\<lambda>_ _. None" "[]"]
  have "snd (begin_state sample_env ''Begin'' farm_state (cx_world (context_new sample_world))) = None"
    by (rule begin_without_dialogs) (simp add: farm_state_def example_simps)
  with all [THEN conjunct2, THEN conjunct1, THEN mp] give acts(2)
  have "\<exists>c'. exec (quest_iface sample_env) (quest_init\<lparr>qu_states := [''begin'' \<mapsto> farm_state]\<rparr>) (Suc 2) (Set_State ''Begin'' True)
      (context_new sample_world) = Some (c', Ret False)
    \<and> \<not> cx_attached c' \<and> cx_depth c' = cx_depth (context_new sample_world) - 1
    \<and> chr_of (cx_world c') = fst (add_item (qe_game sample_env) (s16 1) 5 (chr_of (cx_world (context_new sample_world))))"
    by (simp del: exec.simps)
  moreover have "Suc 2 = (3 :: nat)" by simp
  ultimately show ?thesis using give(2) by (metis sample_world_simps(3) diff_0)
qed

lemma progress_round_trip_witness:
  "unserialize_progress [] (serialize_progress [(''c'', 3), (''d'', 19876), (''useditem/4'', 0)] @ '';2,begin,{}'')
     = ([(''c'', 3), (''d'', 19876), (''useditem/4'', 0)], '';2,begin,{}'')"
  by (rule progress_round_trip) code_simp

text \<open>The item's third use is waited for, beside another item's first.\<close>

definition waiting :: "qworld cx" where
  "waiting = (context_new sample_world)\<lparr>cx_state := Some (simple_state []
      ([\<lparr>ru_expr = call ''useditem'' [VInt 9, VInt 1], ru_action = plain_action ''reset'' []\<rparr>]
       @ \<lparr>ru_expr = call ''useditem'' [VInt 4, VInt 3], ru_action = plain_action ''end'' []\<rparr> # []))\<rparr>"

lemma useditem_counts_witness:
  "used_times sample_env (one_state [] []) 3 4 2 waiting = Some (counted 4 2 waiting, Ret False)"
proof -
  have "other_rules sample_env 4 [\<lparr>ru_expr = call ''useditem'' [VInt 9, VInt 1], ru_action = plain_action ''reset'' []\<rparr>]"
    "other_rules sample_env 4 []"
    by (simp_all add: other_rules_def first_int_is_def let_val_def arg_int_def arg_def call_def)
  then show ?thesis
    using useditem_counts [of sample_env waiting _ "[\<lparr>ru_expr = call ''useditem'' [VInt 9, VInt 1], ru_action = plain_action ''reset'' []\<rparr>]"
        4 3 "plain_action ''end'' []" "[]" "one_state [] []" 3]
    by (simp add: waiting_def simple_state_def progress_get_def del: used_times.simps)
qed

end
