(* ===== verification/Serialize.thy ===== *)
theory Serialize
  imports Game Util Floating
begin

text \<open>
  How characters are stored: the text forms of inventories, paperdolls and spell lists
  (\<^verbatim>\<open>src/character.cpp\<close>). Reading a number can be undefined, when it is out of the range of \<open>int\<close>,
  and a paperdoll with too many entries is written past its end; both are \<open>None\<close>.
\<close>

section \<open>Items\<close>

definition item_serialize :: "item_stack list \<Rightarrow> string" where
  "item_serialize sts =
     concat (map (\<lambda>st. dec_of_int (st_id st) @ '','' @ dec_of_int (st_amount st) @ '';'') sts)"

text \<open>The two numbers around the first comma of a part; \<open>None\<close> where there is no comma.\<close>

definition comma_parts :: "string \<Rightarrow> (string \<times> string) option" where
  "comma_parts part =
     (case dropWhile (\<lambda>c. c \<noteq> CHR '','') part of
        [] \<Rightarrow> None
      | _ # rest \<Rightarrow> Some (takeWhile (\<lambda>c. c \<noteq> CHR '','') part, rest))"

fun item_parts :: "'d fp \<Rightarrow> string list \<Rightarrow> item_stack list option" where
  "item_parts f [] = Some []"
| "item_parts f (part # parts) =
     (case comma_parts part of
        None \<Rightarrow> item_parts f parts
      | Some (s, t) \<Rightarrow>
          (case (to_int f s, to_int f t) of
             (Some i, Some amount) \<Rightarrow>
               if i < 1 \<or> 65535 < i \<or> amount < 1 then item_parts f parts
               else map_option (\<lambda>sts. \<lparr>st_id = s16 i, st_amount = amount\<rparr> # sts) (item_parts f parts)
           | _ \<Rightarrow> None))"

definition item_unserialize :: "'d fp \<Rightarrow> string \<Rightarrow> item_stack list option" where
  "item_unserialize f serialized = item_parts f (explode CHR '';'' serialized)"

section \<open>Paperdolls\<close>

definition doll_serialize :: "int list \<Rightarrow> string" where
  "doll_serialize doll = concat (map (\<lambda>item. dec_of_int item @ '','') doll)"

text \<open>The loop at index \<open>i\<close>; an entry that is skipped does not leave the loop at the end.\<close>

fun doll_parts :: "'d fp \<Rightarrow> nat \<Rightarrow> int list \<Rightarrow> string list \<Rightarrow> int list option" where
  "doll_parts f i doll [] = Some doll"
| "doll_parts f i doll (part # parts) =
     (case to_int f part of
        None \<Rightarrow> None
      | Some item \<Rightarrow>
          if item < 0 \<or> 65535 < item then doll_parts f (i + 1) doll parts
          else if length doll \<le> i then None
          else if i + 1 = length doll then Some (doll[i := item])
          else doll_parts f (i + 1) (doll[i := item]) parts)"

definition doll_unserialize :: "'d fp \<Rightarrow> string \<Rightarrow> int list option" where
  "doll_unserialize f serialized = doll_parts f 0 (replicate 15 0) (explode CHR '','' serialized)"

section \<open>Spells\<close>

definition spell_serialize :: "spell_slot list \<Rightarrow> string" where
  "spell_serialize sps =
     concat (map (\<lambda>sp. dec_of_int (sp_id sp) @ '','' @ dec_of_int (sp_level sp) @ '';'') sps)"

fun spell_parts :: "'d fp \<Rightarrow> string list \<Rightarrow> spell_slot list option" where
  "spell_parts f [] = Some []"
| "spell_parts f (part # parts) =
     (case comma_parts part of
        None \<Rightarrow> spell_parts f parts
      | Some (s, t) \<Rightarrow>
          (case (to_int f s, to_int f t) of
             (Some i, Some level) \<Rightarrow>
               if i < 1 \<or> 65535 < i \<or> level < 0 then spell_parts f parts
               else map_option (\<lambda>sps. \<lparr>sp_id = s16 i, sp_level = u8 level\<rparr> # sps) (spell_parts f parts)
           | _ \<Rightarrow> None))"

definition spell_unserialize :: "'d fp \<Rightarrow> string \<Rightarrow> spell_slot list option" where
  "spell_unserialize f serialized = spell_parts f (explode CHR '';'' serialized)"

section \<open>Round trips\<close>

text \<open>What can be written and read back: ids that fit a \<open>short\<close>, amounts that fit an \<open>int\<close>.\<close>

definition stored_item :: "item_stack \<Rightarrow> bool" where
  "stored_item st \<longleftrightarrow> 1 \<le> st_id st \<and> st_id st \<le> 32767 \<and> 1 \<le> st_amount st \<and> st_amount st \<le> int_max"

definition stored_spell :: "spell_slot \<Rightarrow> bool" where
  "stored_spell sp \<longleftrightarrow> 1 \<le> sp_id sp \<and> sp_id sp \<le> 32767 \<and> 0 \<le> sp_level sp \<and> sp_level sp \<le> 255"

lemma dec_no_delimiter [simp]: "CHR '','' \<notin> set (dec_of_int n)" "CHR '';'' \<notin> set (dec_of_int n)"
proof -
  have "c \<notin> set (dec_of_nat k)" if "\<not> is_digit_char c" for c k using that dec_of_nat_digits by blast
  moreover have "\<not> is_digit_char CHR '',''" "\<not> is_digit_char CHR '';''" by (simp_all add: is_digit_char_def ccode_def)
  ultimately show "CHR '','' \<notin> set (dec_of_int n)" "CHR '';'' \<notin> set (dec_of_int n)"
    by (simp_all add: dec_of_int_def)
qed

lemma comma_parts_pair [simp]: "CHR '','' \<notin> set s \<Longrightarrow> comma_parts (s @ CHR '','' # t) = Some (s, t)"
proof -
  assume "CHR '','' \<notin> set s"
  then have "\<forall>c\<in>set s. c \<noteq> CHR '',''" by auto
  then have "dropWhile (\<lambda>c. c \<noteq> CHR '','') (s @ CHR '','' # t) = CHR '','' # t"
    "takeWhile (\<lambda>c. c \<noteq> CHR '','') (s @ CHR '','' # t) = s"
    by (simp_all add: takeWhile_append2)
  then show ?thesis by (simp add: comma_parts_def)
qed

lemma explode_terminated:
  "list_all (\<lambda>p. d \<notin> set p) ps \<Longrightarrow> explode d (concat (map (\<lambda>p. p @ [d]) ps)) = ps @ ['''']"
  by (induction ps) (simp_all add: explode_step explode_last)

text \<open>C26: What is stored of an inventory and of a spell list is read back unchanged, for every arithmetic in
  which integers are exact.\<close>

theorem stored_lists_round_trip:
  assumes "exact_ints f" "list_all stored_item sts" "list_all stored_spell sps"
  shows "item_unserialize f (item_serialize sts) = Some sts \<and> spell_unserialize f (spell_serialize sps) = Some sps"
proof
  let ?item = "\<lambda>st. dec_of_int (st_id st) @ CHR '','' # dec_of_int (st_amount st)"
  have "explode CHR '';'' (item_serialize sts) = map ?item sts @ ['''']"
    using explode_terminated [of "CHR '';''" "map ?item sts"] by (simp add: item_serialize_def comp_def list_all_iff)
  moreover have "item_parts f (map ?item sts @ ['''']) = Some sts"
    using assms(2) by (induction sts)
      (auto simp: comma_parts_def [of "[]"] to_int_dec [OF assms(1)] stored_item_def int_max_def s16_id)
  ultimately show "item_unserialize f (item_serialize sts) = Some sts" by (simp add: item_unserialize_def)
  let ?spell = "\<lambda>sp. dec_of_int (sp_id sp) @ CHR '','' # dec_of_int (sp_level sp)"
  have "explode CHR '';'' (spell_serialize sps) = map ?spell sps @ ['''']"
    using explode_terminated [of "CHR '';''" "map ?spell sps"] by (simp add: spell_serialize_def comp_def list_all_iff)
  moreover have "spell_parts f (map ?spell sps @ ['''']) = Some sps"
    using assms(3) by (induction sps)
      (auto simp: comma_parts_def [of "[]"] to_int_dec [OF assms(1)] stored_spell_def int_max_def s16_id u8_def)
  ultimately show "spell_unserialize f (spell_serialize sps) = Some sps" by (simp add: spell_unserialize_def)
qed

theorem stored_lists_round_trip_witness:
  "item_unserialize int_fp (item_serialize [\<lparr>st_id = 1, st_amount = 500\<rparr>, \<lparr>st_id = 7, st_amount = 2\<rparr>])
     = Some [\<lparr>st_id = 1, st_amount = 500\<rparr>, \<lparr>st_id = 7, st_amount = 2\<rparr>]"
  using stored_lists_round_trip [OF int_fp_exact, of "[\<lparr>st_id = 1, st_amount = 500\<rparr>, \<lparr>st_id = 7, st_amount = 2\<rparr>]" "[]"]
  by (simp add: stored_item_def int_max_def)

lemma doll_parts_fill:
  assumes "exact_ints f"
  shows "list_all (\<lambda>item. 0 \<le> item \<and> item \<le> 65535) xs \<Longrightarrow> i + length xs < length doll \<Longrightarrow>
    doll_parts f i doll (map dec_of_int xs @ rest)
      = doll_parts f (i + length xs) (take i doll @ xs @ drop (i + length xs) doll) rest"
proof (induction xs arbitrary: i doll)
  case (Cons x xs)
  have "doll_parts f i doll (map dec_of_int (x # xs) @ rest) = doll_parts f (i + 1) (doll[i := x]) (map dec_of_int xs @ rest)"
    using Cons.prems to_int_dec [OF assms, of x] by (auto simp: int_max_def)
  also have "\<dots> = doll_parts f (i + 1 + length xs) (take (i + 1) (doll[i := x]) @ xs @ drop (i + 1 + length xs) (doll[i := x])) rest"
    using Cons.prems by (intro Cons.IH) auto
  finally show ?case using Cons.prems by (simp add: take_Suc_conv_app_nth)
qed simp

text \<open>C27: A paperdoll of fifteen valid entries is read back unchanged. But when the fifteenth entry of a
  stored paperdoll is invalid and another, valid one follows, it is written behind the end of the array:
  the test for the end is passed over.\<close>

theorem doll_round_trip_and_overrun:
  assumes "exact_ints f" "length doll = 15" "list_all (\<lambda>item. 0 \<le> item \<and> item \<le> 65535) doll"
    and "65535 < bad" "bad \<le> int_max"
  shows "doll_unserialize f (doll_serialize doll) = Some doll
    \<and> doll_unserialize f (doll_serialize (butlast doll @ [bad, last doll])) = None"
proof -
  obtain xs x where doll: "doll = xs @ [x]" and xs: "length xs = 14"
    using assms(2) by (cases doll rule: rev_cases) auto
  have ok: "list_all (\<lambda>item. 0 \<le> item \<and> item \<le> 65535) xs" "0 \<le> x" "x \<le> 65535" using assms(3) doll by auto
  have parts: "explode CHR '','' (doll_serialize ds) = map dec_of_int ds @ ['''']" for ds
    using explode_terminated [of "CHR '',''" "map dec_of_int ds"] by (simp add: doll_serialize_def comp_def list_all_iff)
  have run: "doll_unserialize f (doll_serialize (xs @ ds)) = doll_parts f 14 (xs @ [0]) (map dec_of_int ds @ [''''])" for ds
    using doll_parts_fill [OF assms(1) ok(1), of 0 "replicate 15 0" "map dec_of_int ds @ ['''']"] xs
    by (simp add: doll_unserialize_def parts)
  have x: "to_int f (dec_of_int x) = Some x" "to_int f (dec_of_int bad) = Some bad"
    using ok assms(4,5) by (simp_all add: to_int_dec [OF assms(1)] int_max_def)
  have "(xs @ [0])[14 := x] = xs @ [x]" using xs by (simp add: list_update_append)
  then have "doll_unserialize f (doll_serialize doll) = Some doll"
    using run [of "[x]"] x ok xs by (simp add: doll)
  moreover have "doll_unserialize f (doll_serialize (xs @ [bad, x])) = None"
    using run [of "[bad, x]"] x ok xs assms(4) by simp
  ultimately show ?thesis by (simp add: doll)
qed

theorem doll_round_trip_and_overrun_witness:
  "doll_unserialize int_fp (doll_serialize (replicate 15 3)) = Some (replicate 15 3)
   \<and> doll_unserialize int_fp (doll_serialize (butlast (replicate 15 3) @ [70000, last (replicate 15 3)])) = None"
  by (rule doll_round_trip_and_overrun [OF int_fp_exact]) (simp_all add: int_max_def list_all_iff)

end
