(* ===== verification/Quest_Store.thy ===== *)
theory Quest_Store
  imports Quest Serialize
begin

text \<open>
  Quests in the database (\<open>QuestSerialize\<close> and \<open>QuestUnserialize\<close> in \<^verbatim>\<open>src/character.cpp\<close>): the states and the
  progress of a character's quests as one string, and the contexts made from it. Quests that cannot be
  resumed are kept as they were stored.
\<close>

section \<open>Writing\<close>

record stored_quest =
  sq_id :: int
  sq_state :: string
  sq_progress :: string

definition stored_text :: "stored_quest \<Rightarrow> string" where
  "stored_text sq = dec_of_int (sq_id sq) @ '','' @ sq_state sq @ '','' @ sq_progress sq @ '';''"

definition stored_context :: "int \<times> qworld cx \<Rightarrow> stored_quest" where
  "stored_context p =
     \<lparr>sq_id = fst p, sq_state = cx_name (snd p), sq_progress = serialize_progress (qw_progress (cx_world (snd p)))\<rparr>"

text \<open>The map of quests, in which an entry may be empty, and the set of inactive ones.\<close>

definition quest_serialize :: "(int \<times> qworld cx option) list \<Rightarrow> stored_quest list \<Rightarrow> string" where
  "quest_serialize quests inactive =
     concat (map (\<lambda>(i, c). case c of None \<Rightarrow> [] | Some c \<Rightarrow> stored_text (stored_context (i, c))) quests)
     @ concat (map (\<lambda>sq. if map_of quests (sq_id sq) = None then stored_text sq else []) inactive)"

section \<open>Reading\<close>

text \<open>The three fields of a part. An old format has no progress, or a number in its place.\<close>

definition read_stored :: "'d fp \<Rightarrow> string \<Rightarrow> stored_quest option option" where
  "read_stored f part =
     (case comma_parts part of
        None \<Rightarrow> Some None
      | Some (idt, rest) \<Rightarrow>
          (case to_int f idt of
             None \<Rightarrow> None
           | Some i \<Rightarrow>
               Some (Some
                 (case comma_parts rest of
                    None \<Rightarrow> \<lparr>sq_id = s16 i, sq_state = takeWhile (\<lambda>c. c \<noteq> CHR '';'') rest, sq_progress = ''{}''\<rparr>
                  | Some (st, pr) \<Rightarrow>
                      \<lparr>sq_id = s16 i, sq_state = st,
                       sq_progress = (if pr \<noteq> [] \<and> hd pr \<noteq> CHR ''{'' then ''{}'' else pr)\<rparr>))))"

text \<open>Insertion into the map of quests and into the set of inactive ones: what is there stays.\<close>

fun insert_new :: "('a \<Rightarrow> int) \<Rightarrow> 'a \<Rightarrow> 'a list \<Rightarrow> 'a list" where
  "insert_new k x [] = [x]"
| "insert_new k x (y # ys) =
     (if k x < k y then x # y # ys else if k x = k y then y # ys else y # insert_new k x ys)"

definition quest_world :: "qchr \<Rightarrow> qworld" where
  "quest_world c = \<lparr>qw_progress = [], qw_dialogs = Map.empty, qw_desc = [], qw_chr = c, qw_calls = []\<rparr>"

text \<open>The context of a stored quest. \<open>Inl\<close> is what \<open>SetState\<close> throws.\<close>

definition resume :: "'d qenv \<Rightarrow> quest \<Rightarrow> qchr \<Rightarrow> stored_quest \<Rightarrow> quest_exn + qworld cx" where
  "resume e q chr sq =
     (case set_state (quest_iface e) q (\<lambda>_ _. None) (sq_state sq) False (context_new (quest_world chr)) of
        Some (c, Ret _) \<Rightarrow>
          Inr (c\<lparr>cx_world := (cx_world c)\<lparr>qw_progress :=
                  fst (unserialize_progress (qw_progress (cx_world c)) (sq_progress sq))\<rparr>\<rparr>)
      | Some (_, Exn x) \<Rightarrow> Inl x
      | None \<Rightarrow> Inl Undefined)"

type_synonym 'd quests = "int \<rightharpoonup> 'd qenv \<times> quest"

definition load_stored ::
  "'d quests \<Rightarrow> qchr \<Rightarrow> stored_quest \<Rightarrow> (int \<times> qworld cx) list \<times> stored_quest list \<Rightarrow>
   quest_exn + (int \<times> qworld cx) list \<times> stored_quest list" where
  "load_stored world chr sq loaded =
     (case loaded of
        (quests, inactive) \<Rightarrow>
          (case world (sq_id sq) of
             None \<Rightarrow> Inr (quests, insert_new sq_id sq inactive)
           | Some (e, q) \<Rightarrow>
               (case resume e q chr sq of
                  Inr c \<Rightarrow> Inr (insert_new fst (sq_id sq, c) quests, inactive)
                | Inl (Unknown_State _) \<Rightarrow> Inr (quests, insert_new sq_id sq inactive)
                | Inl x \<Rightarrow> Inl x)))"

fun load_parts ::
  "'d fp \<Rightarrow> 'd quests \<Rightarrow> qchr \<Rightarrow> string list \<Rightarrow> (int \<times> qworld cx) list \<times> stored_quest list \<Rightarrow>
   quest_exn + (int \<times> qworld cx) list \<times> stored_quest list" where
  "load_parts f world chr [] loaded = Inr loaded"
| "load_parts f world chr (part # parts) loaded =
     (case read_stored f part of
        None \<Rightarrow> Inl Undefined
      | Some None \<Rightarrow> load_parts f world chr parts loaded
      | Some (Some sq) \<Rightarrow> let_val (load_stored world chr sq loaded) (load_parts f world chr parts))"

definition quest_unserialize ::
  "'d fp \<Rightarrow> 'd quests \<Rightarrow> qchr \<Rightarrow> string \<Rightarrow> quest_exn + (int \<times> qworld cx) list \<times> stored_quest list" where
  "quest_unserialize f world chr serialized = load_parts f world chr (explode CHR '';'' serialized) ([], [])"

section \<open>Round trip\<close>

definition stored_body :: "stored_quest \<Rightarrow> string" where
  "stored_body sq = dec_of_int (sq_id sq) @ CHR '','' # sq_state sq @ CHR '','' # sq_progress sq"

text \<open>What the format can hold.\<close>

definition plain_field :: "string \<Rightarrow> bool" where
  "plain_field s \<longleftrightarrow> CHR '','' \<notin> set s \<and> CHR '';'' \<notin> set s"

definition holdable :: "stored_quest \<Rightarrow> bool" where
  "holdable sq \<longleftrightarrow> - 32768 \<le> sq_id sq \<and> sq_id sq \<le> 32767 \<and> plain_field (sq_state sq)
     \<and> sq_progress sq \<noteq> [] \<and> hd (sq_progress sq) = CHR ''{'' \<and> CHR '';'' \<notin> set (sq_progress sq)"

lemma read_stored_body:
  assumes "exact_ints f" "holdable sq"
  shows "read_stored f (stored_body sq) = Some (Some sq)"
proof -
  have id: "to_int f (dec_of_int (sq_id sq)) = Some (sq_id sq)" "s16 (sq_id sq) = sq_id sq"
    using assms by (simp_all add: to_int_dec holdable_def int_max_def s16_id)
  then show ?thesis
    using assms(2) by (simp add: read_stored_def stored_body_def holdable_def plain_field_def)
qed

text \<open>A context that can be resumed in the world's quests: it is in a state of its quest, or over.\<close>

definition resumable :: "'d quests \<Rightarrow> int \<times> qworld cx \<Rightarrow> bool" where
  "resumable world p \<longleftrightarrow>
     (case p of
        (i, c) \<Rightarrow>
          holdable (stored_context p) \<and> storable (qw_progress (cx_world c)) \<and> lowercase (cx_name c) = cx_name c
          \<and> (case world i of
               None \<Rightarrow> False
             | Some (e, q) \<Rightarrow>
                 (case qu_states q (cx_name c) of
                    None \<Rightarrow> cx_name c = ''end'' \<or> cx_name c = ''done''
                  | Some s \<Rightarrow> \<forall>w. snd (begin_state e (cx_name c) s w) = None)))"

definition resumed :: "'d quests \<Rightarrow> int \<times> qworld cx \<Rightarrow> int \<times> qworld cx \<Rightarrow> bool" where
  "resumed world p p' \<longleftrightarrow>
     fst p' = fst p \<and> cx_name (snd p') = cx_name (snd p)
     \<and> qw_progress (cx_world (snd p')) = qw_progress (cx_world (snd p))
     \<and> (case world (fst p) of None \<Rightarrow> False | Some (e, q) \<Rightarrow> cx_state (snd p') = qu_states q (cx_name (snd p)))"

lemma begin_clears: "qw_progress w = [] \<Longrightarrow> qw_progress (fst (begin_state e n s w)) = []"
  by (simp add: begin_state_def Let_def split: sum.split)

lemma resume_stored:
  assumes "resumable world (i, c)" "world i = Some (e, q)"
  shows "\<exists>c'. resume e q chr (stored_context (i, c)) = Inr c' \<and> resumed world (i, c) (i, c')"
proof -
  let ?new = "context_new (quest_world chr)"
  have new: "qw_progress (cx_world ?new) = []" by (simp_all add: context_new_def quest_world_def)
  have low: "lowercase (cx_name c) = cx_name c" and store: "storable (qw_progress (cx_world c))"
    using assms(1) by (simp_all add: resumable_def)
  have read: "fst (unserialize_progress [] (serialize_progress (qw_progress (cx_world c)))) = qw_progress (cx_world c)"
    using progress_round_trip [OF store, of "[]"] by simp
  show ?thesis
  proof (cases "qu_states q (cx_name c)")
    case None
    then have "cx_name c = ''end'' \<or> cx_name c = ''done''" using assms by (simp add: resumable_def)
    with None show ?thesis
      using assms(2) new low read
      by (auto simp: resume_def set_state_def stored_context_def resumed_def Let_def)
  next
    case (Some s)
    then have "snd (begin_state e (cx_name c) s w) = None" for w using assms by (simp add: resumable_def)
    then obtain w where begun: "begin_state e (cx_name c) s (quest_world chr) = (w, None)"
      by (metis prod.collapse)
    moreover have "qw_progress w = []"
      using begin_clears [of "quest_world chr" e "cx_name c" s] begun by (simp add: quest_world_def)
    ultimately show ?thesis
      using Some assms(2) low read
      by (auto simp: resume_def set_state_def stored_context_def resumed_def quest_iface_def context_new_def Let_def)
  qed
qed

lemma insert_new_last: "\<forall>y\<in>set ys. k y < k x \<Longrightarrow> insert_new k x ys = ys @ [x]"
  by (induction ys) auto

lemma load_contexts:
  assumes f: "exact_ints f"
  shows "sorted_wrt (<) (map fst (acc @ quests)) \<Longrightarrow> list_all (resumable world) quests \<Longrightarrow>
    \<exists>quests'. list_all2 (resumed world) quests quests' \<and>
      load_parts f world chr (map (\<lambda>p. stored_body (stored_context p)) quests @ parts) (acc, inactive)
        = load_parts f world chr parts (acc @ quests', inactive)"
proof (induction quests arbitrary: acc)
  case (Cons p quests)
  obtain i c where p: "p = (i, c)" by fastforce
  have res: "resumable world (i, c)" using Cons.prems(2) p by simp
  then obtain e q where world: "world i = Some (e, q)" by (auto simp: resumable_def split: option.splits)
  obtain c' where c': "resume e q chr (stored_context (i, c)) = Inr c'" "resumed world (i, c) (i, c')"
    using resume_stored [OF res world] by blast
  have "insert_new fst (i, c') acc = acc @ [(i, c')]"
    using Cons.prems(1) p by (intro insert_new_last) (auto simp: sorted_wrt_append)
  moreover have "read_stored f (stored_body (stored_context p)) = Some (Some (stored_context p))"
    using res p by (intro read_stored_body f) (simp add: resumable_def)
  moreover have "sq_id (stored_context p) = i" by (simp add: p stored_context_def)
  ultimately have step: "load_parts f world chr (map (\<lambda>p. stored_body (stored_context p)) (p # quests) @ parts) (acc, inactive)
      = load_parts f world chr (map (\<lambda>p. stored_body (stored_context p)) quests @ parts) (acc @ [(i, c')], inactive)"
    using world c' p by (simp add: load_stored_def let_val_def)
  have "sorted_wrt (<) (map fst ((acc @ [(i, c')]) @ quests))" using Cons.prems(1) p by simp
  then obtain quests' where "list_all2 (resumed world) quests quests'"
    "load_parts f world chr (map (\<lambda>p. stored_body (stored_context p)) quests @ parts) (acc @ [(i, c')], inactive)
      = load_parts f world chr parts ((acc @ [(i, c')]) @ quests', inactive)"
    using Cons.IH [of "acc @ [(i, c')]"] Cons.prems(2) by auto
  with step c'(2) p show ?case by (intro exI [of _ "(i, c') # quests'"]) simp
qed simp

lemma load_inactive:
  assumes f: "exact_ints f"
  shows "sorted_wrt (<) (map sq_id (acc @ sqs)) \<Longrightarrow> list_all (\<lambda>sq. holdable sq \<and> world (sq_id sq) = None) sqs \<Longrightarrow>
    load_parts f world chr (map stored_body sqs @ ['''']) (quests, acc) = Inr (quests, acc @ sqs)"
proof (induction sqs arbitrary: acc)
  case Nil
  then show ?case by (simp add: read_stored_def comma_parts_def)
next
  case (Cons sq sqs)
  have "insert_new sq_id sq acc = acc @ [sq]"
    using Cons.prems(1) by (intro insert_new_last) (auto simp: sorted_wrt_append)
  moreover have "load_parts f world chr (map stored_body sqs @ ['''']) (quests, acc @ [sq]) = Inr (quests, (acc @ [sq]) @ sqs)"
    by (rule Cons.IH) (use Cons.prems in simp_all)
  ultimately show ?case
    using Cons.prems(2) f by (simp add: read_stored_body load_stored_def let_val_def)
qed

text \<open>C12: A character's quests survive a round through the database: from what \<open>QuestSerialize\<close> writes,
  \<open>QuestUnserialize\<close> makes a context for each of them that has the same number, the same state and the same
  progress, and the quests that the server does not know are kept as they were stored.\<close>

theorem quests_round_trip:
  assumes "exact_ints f"
    and "sorted_wrt (<) (map fst quests)" "list_all (resumable world) quests"
    and "sorted_wrt (<) (map sq_id inactive)" "list_all (\<lambda>sq. holdable sq \<and> world (sq_id sq) = None) inactive"
  shows "\<exists>quests'. quest_unserialize f world chr (quest_serialize (map (\<lambda>(i, c). (i, Some c)) quests) inactive)
      = Inr (quests', inactive) \<and> list_all2 (resumed world) quests quests'"
proof -
  let ?bodies = "map (\<lambda>p. stored_body (stored_context p)) quests @ map stored_body inactive"
  have "map_of (map (\<lambda>(i, c). (i, Some c)) quests) i = None" if "world i = None" for i
    using assms(3) that by (induction quests) (auto simp: resumable_def)
  then have "quest_serialize (map (\<lambda>(i, c). (i, Some c)) quests) inactive = concat (map (\<lambda>b. b @ '';'') ?bodies)"
    using assms(5) by (simp add: quest_serialize_def comp_def split_def list_all_iff stored_text_def stored_body_def cong: map_cong)
  moreover have "list_all (\<lambda>b. CHR '';'' \<notin> set b) ?bodies"
    using assms(3,5) by (auto simp: list_all_iff stored_body_def holdable_def plain_field_def resumable_def)
  ultimately have "explode CHR '';'' (quest_serialize (map (\<lambda>(i, c). (i, Some c)) quests) inactive) = ?bodies @ ['''']"
    using explode_terminated [of "CHR '';''" ?bodies] by metis
  then show ?thesis
    using load_contexts [OF assms(1), of "[]" quests world chr "map stored_body inactive @ ['''']" "[]"]
      load_inactive [OF assms(1), of "[]" inactive world chr] assms(2-5)
    by (auto simp: quest_unserialize_def)
qed

definition sample_quests :: "int quests" where
  "sample_quests = [1 \<mapsto> (sample_env, errand)]"

definition sample_context :: "qworld cx" where
  "sample_context = (context_new (sample_world\<lparr>qw_progress := [(''c'', 2), (''d'', 19)]\<rparr>))\<lparr>cx_name := ''home''\<rparr>"

lemma sample_resumable: "resumable sample_quests (1, sample_context)"
proof -
  have "snd (begin_state sample_env ''home'' s w) = None" if "qu_states errand ''home'' = Some s" for s w
    using that by (intro begin_without_dialogs) (auto simp: errand_def example_simps)
  moreover have "qu_states errand ''home'' \<noteq> None" by (simp add: errand_def)
  moreover have "holdable (stored_context (1, sample_context)) \<and> storable (qw_progress (cx_world sample_context))
      \<and> lowercase (cx_name sample_context) = cx_name sample_context"
    by code_simp
  moreover have "cx_name sample_context = ''home''" by (simp add: sample_context_def)
  ultimately show ?thesis by (auto simp: resumable_def sample_quests_def)
qed

lemma quests_round_trip_witness:
  "\<exists>quests'. quest_unserialize int_fp sample_quests (qw_chr sample_world)
      (quest_serialize [(1, Some sample_context)] [\<lparr>sq_id = 7, sq_state = ''begin'', sq_progress = ''{c=1}''\<rparr>])
    = Inr (quests', [\<lparr>sq_id = 7, sq_state = ''begin'', sq_progress = ''{c=1}''\<rparr>])
    \<and> list_all2 (resumed sample_quests) [(1, sample_context)] quests'"
proof -
  have "holdable \<lparr>sq_id = 7, sq_state = ''begin'', sq_progress = ''{c=1}''\<rparr>" by code_simp
  then show ?thesis
    using quests_round_trip [OF int_fp_exact, of "[(1, sample_context)]" sample_quests
        "[\<lparr>sq_id = 7, sq_state = ''begin'', sq_progress = ''{c=1}''\<rparr>]" "qw_chr sample_world"] sample_resumable
    by (simp add: sample_quests_def)
qed

end
