(* ===== verification/Trade.thy ===== *)
theory Trade
  imports Inventory
begin

text \<open>
  Trading between two players (\<^verbatim>\<open>src/handlers/Trade.cpp\<close>, and the trades cancelled by walking,
  warping and logging out in \<^verbatim>\<open>src/handlers/Walk.cpp\<close> and \<^verbatim>\<open>src/character.cpp\<close>). A handler is given the
  values that it reads from its packet and returns the players and the packets sent; \<open>None\<close> is a
  null or dangling \<open>trade_partner\<close> being followed. The emotes shown after a trade are left out.
\<close>

section \<open>Handlers\<close>

type_synonym trade_result = "(players \<times> message list) option"

text \<open>\<open>Map::GetCharacterPID\<close> on the map of a character.\<close>

definition get_character_pid :: "players \<Rightarrow> chr \<Rightarrow> nat \<Rightarrow> chr option" where
  "get_character_pid w c victimid =
     (case w victimid of
        Some v \<Rightarrow> if ch_mapid v = ch_mapid c then Some v else None
      | None \<Rightarrow> None)"

definition trade_request :: "game \<Rightarrow> nat \<Rightarrow> int \<Rightarrow> nat \<Rightarrow> players \<Rightarrow> trade_result" where
  "trade_request g me something victimid w =
     (case w me of
        None \<Rightarrow> Some (w, [])
      | Some c \<Rightarrow>
          if ch_trading c then Some (w, [])
          else if \<not> ch_can_interact_items c then Some (w, [])
          else if ch_mapid c = gm_JailMap g then Some (w, [])
          else case get_character_pid w c victimid of
                 None \<Rightarrow> Some (w, [])
               | Some victim \<Rightarrow>
                   if victimid = me then Some (w, [])
                   else if \<not> ch_trading victim \<and> ch_can_interact_items victim
                   then Some (w(me \<mapsto> c\<lparr>ch_trade_partner := Some victimid\<rparr>),
                     [mk_message victimid PACKET_TRADE PACKET_REQUEST
                        ([fchar something, fshort (int me)]
                         @ map (\<lambda>ch. FByte (ccode ch)) (ch_name c))])
                   else Some (w, []))"

definition trade_open_fields :: "nat \<Rightarrow> chr \<Rightarrow> nat \<Rightarrow> chr \<Rightarrow> field list" where
  "trade_open_fields id1 c1 id2 c2 =
     [fshort (int id1), fbreak (ch_name c1), fshort (int id2), fbreak (ch_name c2)]"

definition trade_accept :: "game \<Rightarrow> nat \<Rightarrow> nat \<Rightarrow> players \<Rightarrow> trade_result" where
  "trade_accept g me victimid w =
     (case w me of
        None \<Rightarrow> Some (w, [])
      | Some c \<Rightarrow>
          if ch_trading c then Some (w, [])
          else if \<not> ch_can_interact_items c then Some (w, [])
          else if ch_mapid c = gm_JailMap g then Some (w, [])
          else case get_character_pid w c victimid of
                 None \<Rightarrow> Some (w, [])
               | Some victim \<Rightarrow>
                   if ch_mapid victim = ch_mapid c \<and> ch_trade_partner victim = Some me
                      \<and> \<not> ch_trading victim \<and> ch_can_interact_items victim
                   then Some (w(me \<mapsto> c\<lparr>ch_trade_partner := Some victimid, ch_trading := True,
                                        ch_trade_agree := False\<rparr>,
                                victimid \<mapsto> victim\<lparr>ch_trading := True, ch_trade_agree := False\<rparr>),
                     [mk_message me PACKET_TRADE PACKET_OPEN (trade_open_fields victimid victim me c),
                      mk_message victimid PACKET_TRADE PACKET_OPEN (trade_open_fields me c victimid victim)])
                   else Some (w, []))"

definition trade_list :: "chr \<Rightarrow> field list" where
  "trade_list c =
     concat (map (\<lambda>st. [fshort (st_id st), fint (st_amount st)]) (ch_trade_inventory c)) @ [FByte 255]"

definition agree_action :: "chr \<Rightarrow> packet_action" where
  "agree_action c = (if ch_trade_agree c then PACKET_ADMIN else PACKET_REPLY)"

text \<open>What \<open>Trade_Remove\<close> and \<open>Trade_Add\<close> do after changing the offer: both sides are told, and neither
  agrees any longer. \<open>c\<close> is the character with its new offer.\<close>

definition offer_changed :: "nat \<Rightarrow> chr \<Rightarrow> players \<Rightarrow> trade_result" where
  "offer_changed me c w =
     (case ch_trade_partner c of
        None \<Rightarrow> None
      | Some q \<Rightarrow>
          (case w q of
             None \<Rightarrow> None
           | Some p \<Rightarrow>
               (let fields = [fshort (int me)] @ trade_list c @ [fshort (int q)] @ trade_list p
                in Some (w(me \<mapsto> c\<lparr>ch_trade_agree := False\<rparr>, q \<mapsto> p\<lparr>ch_trade_agree := False\<rparr>),
                     [mk_message me PACKET_TRADE (agree_action c) fields,
                      mk_message q PACKET_TRADE (agree_action p) fields]))))"

definition trade_remove :: "nat \<Rightarrow> int \<Rightarrow> players \<Rightarrow> trade_result" where
  "trade_remove me itemid w =
     (case w me of
        None \<Rightarrow> Some (w, [])
      | Some c \<Rightarrow>
          if \<not> ch_trading c then Some (w, [])
          else if length (ch_trade_inventory c) > 5 then Some (w, [])
          else case del_trade_item (s16 itemid) c of
                 (c1, deleted) \<Rightarrow> if deleted then offer_changed me c1 w else Some (w, []))"

definition trade_add :: "game \<Rightarrow> nat \<Rightarrow> int \<Rightarrow> int \<Rightarrow> players \<Rightarrow> trade_result" where
  "trade_add g me itemid amount w =
     (case w me of
        None \<Rightarrow> Some (w, [])
      | Some c \<Rightarrow>
          if \<not> ch_trading c then Some (w, [])
          else if eif_special (eif_get (gm_eif g) itemid) = EIF_Lore then Some (w, [])
          else
            let offered = list_ex (\<lambda>st. st_id st = itemid) (ch_trade_inventory c)
            in if \<not> offered \<and> length (ch_trade_inventory c) \<ge> 10 then Some (w, [])
               else case add_trade_item g (s16 itemid) amount c of
                      (c1, added) \<Rightarrow> if added then offer_changed me c1 w else Some (w, []))"

text \<open>The two loops of \<open>Trade_Agree\<close>, on the pair of the character and its partner.\<close>

definition put_left :: "game \<Rightarrow> int \<Rightarrow> int \<Rightarrow> chr \<times> chr \<Rightarrow> chr \<times> chr" where
  "put_left g i n s = (fst (add_item g i n (fst s)), snd s)"

definition put_right :: "game \<Rightarrow> int \<Rightarrow> int \<Rightarrow> chr \<times> chr \<Rightarrow> chr \<times> chr" where
  "put_right g i n s = (fst s, fst (add_item g i n (snd s)))"

definition take_left :: "game \<Rightarrow> int \<Rightarrow> int \<Rightarrow> chr \<times> chr \<Rightarrow> chr \<times> chr" where
  "take_left g i n s = (fst (del_item g i n (fst s)), snd s)"

definition take_right :: "game \<Rightarrow> int \<Rightarrow> int \<Rightarrow> chr \<times> chr \<Rightarrow> chr \<times> chr" where
  "take_right g i n s = (fst s, fst (del_item g i n (snd s)))"

definition exchange :: "game \<Rightarrow> chr \<times> chr \<Rightarrow> chr \<times> chr" where
  "exchange g s =
     move_all (put_right g) (take_left g) (ch_trade_inventory (fst s))
       (move_all (put_left g) (take_right g) (ch_trade_inventory (snd s)) s)"

text \<open>The end of a trade that \<open>Trade_Agree\<close>, \<open>Trade_Close\<close> and the cancellations share. The flag of the
  partner is not reset: the source resets the flag of the character twice.\<close>

definition end_trade :: "nat \<Rightarrow> chr \<Rightarrow> nat \<Rightarrow> chr \<Rightarrow> players \<Rightarrow> players" where
  "end_trade me c q p w =
     w(me \<mapsto> c\<lparr>ch_trading := False, ch_trade_inventory := [], ch_trade_agree := False,
                ch_trade_partner := None\<rparr>,
       q \<mapsto> p\<lparr>ch_trading := False, ch_trade_inventory := [], ch_trade_partner := None\<rparr>)"

definition trade_agree :: "game \<Rightarrow> nat \<Rightarrow> int \<Rightarrow> players \<Rightarrow> trade_result" where
  "trade_agree g me agree w =
     (case w me of
        None \<Rightarrow> Some (w, [])
      | Some c0 \<Rightarrow>
          if \<not> ch_trading c0 then Some (w, [])
          else
            let c = c0\<lparr>ch_trade_agree := (agree \<noteq> 0)\<rparr>; w1 = w(me \<mapsto> c)
            in if agree \<noteq> 0 \<and> ch_trade_inventory c = [] then Some (w1, [])
               else case ch_trade_partner c of
                      None \<Rightarrow> None
                    | Some q \<Rightarrow>
                        (case w1 q of
                           None \<Rightarrow> None
                         | Some p \<Rightarrow>
                             if agree \<noteq> 0 \<and> ch_trade_agree p
                             then
                               let s = exchange g (c, p);
                                   fields = [fshort (int q)] @ trade_list p @ [fshort (int me)] @ trade_list c
                               in Some (end_trade me (fst s) q (snd s) w1,
                                    [mk_message me PACKET_TRADE PACKET_USE fields,
                                     mk_message q PACKET_TRADE PACKET_USE fields])
                             else
                               Some (w1,
                                 [mk_message me PACKET_TRADE PACKET_SPEC [fchar agree],
                                  mk_message q PACKET_TRADE PACKET_AGREE [fshort (int q), fchar agree]])))"

definition trade_close :: "nat \<Rightarrow> players \<Rightarrow> trade_result" where
  "trade_close me w =
     (case w me of
        None \<Rightarrow> Some (w, [])
      | Some c \<Rightarrow>
          if \<not> ch_trading c then Some (w, [])
          else case ch_trade_partner c of
                 None \<Rightarrow> None
               | Some q \<Rightarrow>
                   (case w q of
                      None \<Rightarrow> None
                    | Some p \<Rightarrow>
                        Some (end_trade me c q p w,
                          [mk_message q PACKET_TRADE PACKET_CLOSE [fshort (int me)]])))"

text \<open>A step of the player cancels its trade.\<close>

definition trade_walk :: "nat \<Rightarrow> players \<Rightarrow> trade_result" where
  "trade_walk me w = trade_close me w"

text \<open>\<open>Character::Logout\<close>: the trade is cancelled the same way, then the object is gone.
  \<open>Character::Warp\<close>: the character changes its map and cancels the trade.\<close>

definition trade_logout :: "nat \<Rightarrow> players \<Rightarrow> trade_result" where
  "trade_logout me w = map_option (\<lambda>(w1, ms). (w1(me := None), ms)) (trade_close me w)"

definition trade_warp :: "nat \<Rightarrow> int \<Rightarrow> players \<Rightarrow> trade_result" where
  "trade_warp me mapid w =
     (case w me of
        None \<Rightarrow> Some (w, [])
      | Some c \<Rightarrow> trade_close me (w(me \<mapsto> c\<lparr>ch_mapid := mapid\<rparr>)))"

section \<open>The invariant\<close>

text \<open>What a character owns and offers is well formed.\<close>

definition holdings_ok :: "chr \<Rightarrow> bool" where
  "holdings_ok c \<longleftrightarrow> inventory_ok c \<and> offer_ok c"

lemma holdings_agree [simp]:
  "inventory_ok (c\<lparr>ch_trade_agree := b\<rparr>) = inventory_ok c"
  "offer_ok (c\<lparr>ch_trade_agree := b\<rparr>) = offer_ok c"
  by (simp_all add: inventory_ok_def offer_ok_def owned_def)

text \<open>The two sides of a trade point at each other. The invariant: a trading character has a partner
  that trades with it, and no character is its own partner.\<close>

definition partners :: "nat \<Rightarrow> chr \<Rightarrow> nat \<Rightarrow> chr \<Rightarrow> bool" where
  "partners me c q p \<longleftrightarrow> ch_trading c \<and> ch_trading p \<and> ch_trade_partner c = Some q
     \<and> ch_trade_partner p = Some me"

definition trade_ok :: "players \<Rightarrow> bool" where
  "trade_ok w \<longleftrightarrow> (\<forall>me c. w me = Some c \<longrightarrow>
     ch_trade_partner c \<noteq> Some me \<and> (ch_trading c \<longrightarrow> (\<exists>q p. w q = Some p \<and> partners me c q p)))"

lemma partners_sym: "partners me c q p \<Longrightarrow> partners q p me c"
  by (simp add: partners_def)

lemma trade_okD: "trade_ok w \<Longrightarrow> w me = Some c \<Longrightarrow> ch_trade_partner c \<noteq> Some me"
  by (simp add: trade_ok_def)

lemma trade_ok_partner:
  assumes "trade_ok w" "w me = Some c" "ch_trading c"
  obtains q p where "ch_trade_partner c = Some q" "w q = Some p" "partners me c q p" "q \<noteq> me"
  using assms unfolding trade_ok_def partners_def by (metis option.inject)

text \<open>Changing both sides of a trade, or both sides of none, at once.\<close>

lemma trade_ok_pair:
  assumes ok: "trade_ok w" and w: "w me = Some c" "w q = Some p" "me \<noteq> q"
    and was: "partners me c q p \<or> \<not> ch_trading c \<and> \<not> ch_trading p"
    and new: "ch_trade_partner c' \<noteq> Some me" "ch_trade_partner p' \<noteq> Some q"
      "partners me c' q p' \<or> \<not> ch_trading c' \<and> \<not> ch_trading p'"
  shows "trade_ok (w(me \<mapsto> c', q \<mapsto> p'))"
  unfolding trade_ok_def
proof (intro allI impI)
  let ?w = "w(me \<mapsto> c', q \<mapsto> p')"
  fix r d
  assume d: "?w r = Some d"
  consider "r = me" | "r = q" | "r \<noteq> me" "r \<noteq> q" by blast
  then show "ch_trade_partner d \<noteq> Some r \<and> (ch_trading d \<longrightarrow> (\<exists>s e. ?w s = Some e \<and> partners r d s e))"
  proof cases
    case 1
    then show ?thesis using d w new by (auto simp: partners_def)
  next
    case 2
    then show ?thesis using d w new by (auto simp: partners_def)
  next
    case 3
    then have r: "w r = Some d" using d by simp
    show ?thesis
    proof (cases "ch_trading d")
      case True
      then obtain s e where s: "ch_trade_partner d = Some s" "w s = Some e" "partners r d s e"
        by (rule trade_ok_partner [OF ok r])
      have "s \<noteq> me" "s \<noteq> q" using s was w 3 by (auto simp: partners_def)
      then show ?thesis using s True trade_okD [OF ok r] by auto
    qed (use trade_okD [OF ok r] in simp)
  qed
qed

text \<open>Changing a character outside of any trade, or without touching its trade.\<close>

lemma trade_ok_single:
  assumes ok: "trade_ok w" and w: "w me = Some c" and new: "ch_trade_partner c' \<noteq> Some me"
    and same: "\<not> ch_trading c \<and> \<not> ch_trading c' \<or>
      ch_trading c' = ch_trading c \<and> ch_trade_partner c' = ch_trade_partner c"
  shows "trade_ok (w(me \<mapsto> c'))"
proof (cases "ch_trading c")
  case True
  then obtain q p where q: "w q = Some p" "partners me c q p" "q \<noteq> me"
    by (metis trade_ok_partner [OF ok w])
  have "trade_ok (w(me \<mapsto> c', q \<mapsto> p))"
    using q same True by (intro trade_ok_pair [OF ok w _ _ _ new]) (auto simp: partners_def)
  moreover have "w(me \<mapsto> c', q \<mapsto> p) = w(me \<mapsto> c')" using q by (auto simp: fun_eq_iff)
  ultimately show ?thesis by simp
next
  case False
  have "ch_trade_partner d \<noteq> Some r \<and> (ch_trading d \<longrightarrow> (\<exists>s e. (w(me \<mapsto> c')) s = Some e \<and> partners r d s e))"
    if d: "(w(me \<mapsto> c')) r = Some d" for r d
  proof (cases "r = me")
    case True
    then show ?thesis using d new same False by auto
  next
    case r: False
    then have wr: "w r = Some d" using d by simp
    show ?thesis
    proof (cases "ch_trading d")
      case True
      then obtain s e where s: "w s = Some e" "partners r d s e" by (metis trade_ok_partner [OF ok wr])
      then have "s \<noteq> me" using w False by (auto simp: partners_def)
      then show ?thesis using s trade_okD [OF ok wr] by auto
    qed (use trade_okD [OF ok wr] in simp)
  qed
  then show ?thesis unfolding trade_ok_def by blast
qed

lemma trade_ok_remove:
  assumes ok: "trade_ok w" and "\<And>c. w me = Some c \<Longrightarrow> \<not> ch_trading c"
  shows "trade_ok (w(me := None))"
  unfolding trade_ok_def
proof (intro allI impI)
  fix r d
  assume d: "(w(me := None)) r = Some d"
  then have r: "w r = Some d" "r \<noteq> me" by (auto split: if_splits)
  show "ch_trade_partner d \<noteq> Some r \<and> (ch_trading d \<longrightarrow> (\<exists>s e. (w(me := None)) s = Some e \<and> partners r d s e))"
  proof (cases "ch_trading d")
    case True
    then obtain s e where "w s = Some e" "partners r d s e" by (metis trade_ok_partner [OF ok r(1)])
    then show ?thesis using assms(2) trade_okD [OF ok r(1)] by (auto simp: partners_def)
  qed (use trade_okD [OF ok r(1)] in simp)
qed

section \<open>Every step keeps the invariant\<close>

definition keeps :: "trade_result \<Rightarrow> bool" where
  "keeps r \<longleftrightarrow> (case r of None \<Rightarrow> False | Some (w, ms) \<Rightarrow> trade_ok w)"

lemma keeps_simps [simp]: "\<not> keeps None" "keeps (Some (w, ms)) = trade_ok w"
  by (simp_all add: keeps_def)

lemma end_trade_ok:
  assumes "trade_ok w" "w me = Some c" "w q = Some p" "me \<noteq> q" "partners me c q p"
  shows "trade_ok (end_trade me c' q p' w)"
  unfolding end_trade_def by (rule trade_ok_pair [OF assms(1-4)]) (use assms in simp_all)

lemma trade_request_keeps:
  assumes ok: "trade_ok w"
  shows "keeps (trade_request g me smth victimid w)"
proof -
  have "trade_ok (w(me \<mapsto> c\<lparr>ch_trade_partner := Some v\<rparr>))"
    if "w me = Some c" "\<not> ch_trading c" "v \<noteq> me" for c v
    using that by (intro trade_ok_single [OF ok that(1)]) auto
  then show ?thesis using ok
    by (auto simp: trade_request_def get_character_pid_def split: option.split)
qed

lemma trade_accept_keeps:
  assumes ok: "trade_ok w"
  shows "keeps (trade_accept g me victimid w)"
proof -
  have "trade_ok (w(me \<mapsto> c\<lparr>ch_trade_partner := Some v, ch_trading := True, ch_trade_agree := False\<rparr>,
      v \<mapsto> p\<lparr>ch_trading := True, ch_trade_agree := False\<rparr>))"
    if "w me = Some c" "w v = Some p" "\<not> ch_trading c" "\<not> ch_trading p"
      "ch_trade_partner p = Some me" for c v p
  proof -
    have "me \<noteq> v" using that trade_okD [OF ok] by auto
    then show ?thesis
      using that by (intro trade_ok_pair [OF ok that(1,2)]) (auto simp: partners_def)
  qed
  then show ?thesis using ok
    by (auto simp: trade_accept_def get_character_pid_def split: option.split)
qed

lemma offer_changed_keeps:
  assumes ok: "trade_ok w" and w: "w me = Some c" "ch_trading c"
    and c': "c' = c\<lparr>ch_trade_inventory := sts\<rparr>"
  shows "keeps (offer_changed me c' w)"
proof -
  obtain q p where q: "ch_trade_partner c = Some q" "w q = Some p" "partners me c q p" "q \<noteq> me"
    by (rule trade_ok_partner [OF ok w])
  have "trade_ok (w(me \<mapsto> c'\<lparr>ch_trade_agree := False\<rparr>, q \<mapsto> p\<lparr>ch_trade_agree := False\<rparr>))"
    using q c' trade_okD [OF ok q(2)]
    by (intro trade_ok_pair [OF ok w(1) q(2)]) (auto simp: partners_def)
  then show ?thesis using q c' by (simp add: offer_changed_def Let_def)
qed

lemma del_trade_item_only_offer: "\<exists>sts. fst (del_trade_item i c) = c\<lparr>ch_trade_inventory := sts\<rparr>"
proof (cases "find_stack i (ch_trade_inventory c)")
  case None
  then show ?thesis by (intro exI [of _ "ch_trade_inventory c"]) (simp add: del_trade_item_def)
qed (auto simp: del_trade_item_def)

lemma trade_remove_keeps:
  assumes ok: "trade_ok w"
  shows "keeps (trade_remove me itemid w)"
proof (cases "w me")
  case (Some c)
  then show ?thesis
    using ok del_trade_item_only_offer [of "s16 itemid" c] offer_changed_keeps [OF ok Some]
    by (auto simp: trade_remove_def case_prod_beta)
qed (simp add: trade_remove_def ok)

lemma trade_add_keeps:
  assumes ok: "trade_ok w"
  shows "keeps (trade_add g me itemid amount w)"
proof (cases "w me")
  case (Some c)
  then show ?thesis
    using ok add_trade_item_only_offer [of g "s16 itemid" amount c] offer_changed_keeps [OF ok Some]
    by (auto simp: trade_add_def Let_def case_prod_beta)
qed (simp add: trade_add_def ok)

lemma trade_agree_keeps:
  assumes ok: "trade_ok w"
  shows "keeps (trade_agree g me agree w)"
proof (cases "w me")
  case (Some c0)
  show ?thesis
  proof (cases "ch_trading c0")
    case True
    let ?c = "c0\<lparr>ch_trade_agree := (agree \<noteq> 0)\<rparr>" and ?w = "w(me \<mapsto> c0\<lparr>ch_trade_agree := (agree \<noteq> 0)\<rparr>)"
    obtain q p where q: "ch_trade_partner c0 = Some q" "w q = Some p" "partners me c0 q p" "q \<noteq> me"
      by (rule trade_ok_partner [OF ok Some True])
    have w: "trade_ok ?w" by (rule trade_ok_single [OF ok Some]) (use q in simp_all)
    have "trade_ok (end_trade me c' q p' ?w)" for c' p'
      using q by (intro end_trade_ok [OF w, where c = ?c and p = p]) (auto simp: partners_def)
    then show ?thesis using Some True q w
      by (cases "agree = 0") (simp_all add: trade_agree_def Let_def)
  qed (simp add: trade_agree_def Some ok)
qed (simp add: trade_agree_def ok)

lemma trade_close_keeps:
  assumes ok: "trade_ok w"
  shows "keeps (trade_close me w)"
proof (cases "w me")
  case (Some c)
  show ?thesis
  proof (cases "ch_trading c")
    case True
    obtain q p where q: "ch_trade_partner c = Some q" "w q = Some p" "partners me c q p" "q \<noteq> me"
      by (rule trade_ok_partner [OF ok Some True])
    have "trade_ok (end_trade me c q p w)"
      using q by (intro end_trade_ok [OF ok Some q(2)]) auto
    then show ?thesis using Some True q by (simp add: trade_close_def)
  qed (simp add: trade_close_def Some ok)
qed (simp add: trade_close_def ok)

text \<open>After closing, the character trades no longer.\<close>

lemma trade_close_ends:
  assumes "trade_close me w = Some (w', ms)" "w' me = Some c"
  shows "\<not> ch_trading c"
  using assms
  by (auto simp: trade_close_def end_trade_def split: option.splits if_splits)

lemma trade_logout_keeps:
  assumes ok: "trade_ok w"
  shows "keeps (trade_logout me w)"
proof -
  obtain w' ms where c: "trade_close me w = Some (w', ms)" "trade_ok w'"
    using trade_close_keeps [OF ok, of me] by (auto simp: keeps_def split: option.splits)
  have "trade_ok (w'(me := None))" using c(2) trade_close_ends [OF c(1)] by (rule trade_ok_remove)
  then show ?thesis using c by (simp add: trade_logout_def)
qed

lemma trade_warp_keeps:
  assumes ok: "trade_ok w"
  shows "keeps (trade_warp me mapid w)"
proof (cases "w me")
  case (Some c)
  have "trade_ok (w(me \<mapsto> c\<lparr>ch_mapid := mapid\<rparr>))"
    by (rule trade_ok_single [OF ok Some]) (use trade_okD [OF ok Some] in simp_all)
  then show ?thesis using Some trade_close_keeps by (simp add: trade_warp_def)
qed (simp add: trade_warp_def ok)

section \<open>Runs\<close>

text \<open>The packets of the trade family and the other ends of a trade.\<close>

datatype trade_event =
    T_Request nat int nat | T_Accept nat nat | T_Remove nat int | T_Add nat int int | T_Agree nat int
  | T_Close nat | T_Walk nat | T_Warp nat int | T_Logout nat

fun trade_step :: "game \<Rightarrow> trade_event \<Rightarrow> players \<Rightarrow> trade_result" where
  "trade_step g (T_Request me smth v) w = trade_request g me smth v w"
| "trade_step g (T_Accept me v) w = trade_accept g me v w"
| "trade_step g (T_Remove me item) w = trade_remove me item w"
| "trade_step g (T_Add me item n) w = trade_add g me item n w"
| "trade_step g (T_Agree me a) w = trade_agree g me a w"
| "trade_step g (T_Close me) w = trade_close me w"
| "trade_step g (T_Walk me) w = trade_walk me w"
| "trade_step g (T_Warp me m) w = trade_warp me m w"
| "trade_step g (T_Logout me) w = trade_logout me w"

lemma trade_step_keeps: "trade_ok w \<Longrightarrow> keeps (trade_step g e w)"
  by (cases e) (simp_all add: trade_request_keeps trade_accept_keeps trade_remove_keeps trade_add_keeps
      trade_agree_keeps trade_close_keeps trade_walk_def trade_warp_keeps trade_logout_keeps)

text \<open>What another handler may do to a character: anything but write \<open>trading\<close> and \<open>trade_partner\<close>, which
  no file but those modelled here does. \<open>Character::DeathRespawn\<close> moves a trading character to another
  map, \<open>Marriage_Request\<close> takes gold that it may be offering; both are such steps.\<close>

definition leaves_trade_alone :: "chr \<Rightarrow> chr \<Rightarrow> bool" where
  "leaves_trade_alone c c' \<longleftrightarrow> ch_trading c' = ch_trading c \<and> ch_trade_partner c' = ch_trade_partner c"

inductive trade_run :: "game \<Rightarrow> players \<Rightarrow> players \<Rightarrow> bool" for g where
  stop: "trade_run g w w"
| packet: "trade_run g w w1 \<Longrightarrow> trade_step g e w1 = Some (w2, ms) \<Longrightarrow> trade_run g w w2"
| other: "trade_run g w w1 \<Longrightarrow> w1 me = Some c \<Longrightarrow> leaves_trade_alone c c' \<Longrightarrow>
    trade_run g w (w1(me \<mapsto> c'))"
| login: "trade_run g w w1 \<Longrightarrow> w1 me = None \<Longrightarrow> \<not> ch_trading c \<Longrightarrow> ch_trade_partner c = None \<Longrightarrow>
    trade_run g w (w1(me \<mapsto> c))"

inductive_cases trade_runE: "trade_run g w w'"

lemma other_step_keeps:
  assumes ok: "trade_ok w" and w: "w me = Some c" "leaves_trade_alone c c'"
  shows "trade_ok (w(me \<mapsto> c'))"
  using w(2) trade_okD [OF ok w(1)]
  by (intro trade_ok_single [OF ok w(1)]) (auto simp: leaves_trade_alone_def)

lemma login_keeps:
  assumes ok: "trade_ok w" and new: "w me = None" "ch_trade_partner c = None" "\<not> ch_trading c"
  shows "trade_ok (w(me \<mapsto> c))"
  unfolding trade_ok_def
proof (intro allI impI)
  fix r d
  assume "(w(me \<mapsto> c)) r = Some d"
  then consider "r = me" "d = c" | "r \<noteq> me" "w r = Some d" by (auto split: if_splits)
  then show "ch_trade_partner d \<noteq> Some r
      \<and> (ch_trading d \<longrightarrow> (\<exists>s e. (w(me \<mapsto> c)) s = Some e \<and> partners r d s e))"
  proof cases
    case 2
    show ?thesis
    proof (cases "ch_trading d")
      case True
      then obtain s e where "w s = Some e" "partners r d s e" by (metis trade_ok_partner [OF ok 2(2)])
      then show ?thesis using new trade_okD [OF ok 2(2)] by (intro conjI impI exI [of _ s] exI [of _ e]) auto
    qed (use trade_okD [OF ok 2(2)] in simp)
  qed (use new in simp)
qed

lemma trade_run_keeps: "trade_run g w w' \<Longrightarrow> trade_ok w \<Longrightarrow> trade_ok w'"
proof (induction rule: trade_run.induct)
  case (packet w w1 e w2 ms)
  then show ?case using trade_step_keeps [of w1 g e] by simp
next
  case (other w w1 me c c')
  then show ?case by (blast intro: other_step_keeps)
next
  case (login w w1 me c)
  then show ?case by (intro login_keeps) simp_all
qed

text \<open>C28: Trades are symmetric in every run that starts with nobody trading: whatever packets arrive in
  whatever order, with players logging in and out, warping and walking, and with steps of all other
  handlers in between, which may change anything but the two fields of the trade, no step follows a
  null or dangling \<open>trade_partner\<close>, and every trading player has a partner that trades with it. What is
  left out of the steps, and so of the claim, are the quest rules that the code checks again in the
  middle of a step: a rule that warps the player ends the trade that the step goes on with.\<close>

theorem trade_never_dangles:
  assumes "\<forall>me c. w me = Some c \<longrightarrow> \<not> ch_trading c \<and> ch_trade_partner c = None"
    and "trade_run g w w'"
  shows "trade_step g e w' \<noteq> None
    \<and> (\<forall>me c. w' me = Some c \<and> ch_trading c \<longrightarrow> (\<exists>q p. ch_trade_partner c = Some q \<and> q \<noteq> me
        \<and> w' q = Some p \<and> ch_trading p \<and> ch_trade_partner p = Some me))"
proof -
  have "trade_ok w" using assms(1) by (fastforce simp: trade_ok_def)
  then have ok: "trade_ok w'" by (rule trade_run_keeps [OF assms(2)])
  have "\<exists>q p. ch_trade_partner c = Some q \<and> q \<noteq> me \<and> w' q = Some p \<and> ch_trading p
      \<and> ch_trade_partner p = Some me" if "w' me = Some c" "ch_trading c" for me c
    using trade_ok_partner [OF ok that] by (metis partners_def)
  moreover have "trade_step g e w' \<noteq> None" using trade_step_keeps [OF ok, of g e] keeps_simps(1) by metis
  ultimately show ?thesis by blast
qed

definition sample_players :: players where
  "sample_players =
     [1 \<mapsto> (sample_chr [(1, 500), (2, 3)])\<lparr>ch_name := ''alice''\<rparr>,
      2 \<mapsto> (sample_chr [(1, 20), (3, 1)])\<lparr>ch_name := ''bob''\<rparr>]"

text \<open>Alice asks Bob for a trade, Bob accepts.\<close>

definition sample_trading :: players where
  "sample_trading =
     sample_players(2 \<mapsto> (the (sample_players 2))\<lparr>ch_trade_partner := Some 1, ch_trading := True,
                          ch_trade_agree := False\<rparr>,
                    1 \<mapsto> (the (sample_players 1))\<lparr>ch_trade_partner := Some 2, ch_trading := True,
                          ch_trade_agree := False\<rparr>)"

lemma sample_trading_run: "trade_run sample_game sample_players sample_trading"
proof -
  let ?w = "sample_players(1 \<mapsto> (the (sample_players 1))\<lparr>ch_trade_partner := Some 2\<rparr>)"
  have "\<exists>ms. trade_step sample_game (T_Request 1 0 2) sample_players = Some (?w, ms)"
    by (simp add: trade_request_def get_character_pid_def sample_players_def sample_chr_def sample_game_def)
  then have "trade_run sample_game sample_players ?w"
    using trade_run.packet [OF trade_run.stop] by blast
  moreover have "\<exists>ms. trade_step sample_game (T_Accept 2 1) ?w = Some (sample_trading, ms)"
    by (simp add: trade_accept_def get_character_pid_def sample_players_def sample_chr_def sample_game_def
        sample_trading_def)
  ultimately show ?thesis using trade_run.packet by blast
qed

theorem trade_never_dangles_witness:
  "trade_step sample_game (T_Logout 1) sample_trading \<noteq> None
   \<and> (\<exists>c q. sample_trading 1 = Some c \<and> ch_trading c \<and> ch_trade_partner c = Some q \<and> q \<noteq> 1)"
proof -
  have "\<forall>me c. sample_players me = Some c \<longrightarrow> \<not> ch_trading c \<and> ch_trade_partner c = None"
    by (auto simp: sample_players_def sample_chr_def)
  from trade_never_dangles [OF this sample_trading_run, of "T_Logout 1"]
  show ?thesis by (simp add: sample_trading_def)
qed

section \<open>The exchange\<close>

text \<open>Both sides of the pair are stocks; giving to the left and giving to the right are transfers.\<close>

lemmas side_defs = put_left_def put_right_def take_left_def take_right_def

interpretation to_left: counted_transfer
  "\<lambda>s. owned (snd s)" "\<lambda>s. inventory_ok (snd s)" "\<lambda>s. inventory_room g (snd s)" "put_right g" "take_right g"
  "\<lambda>s. owned (fst s)" "\<lambda>s. inventory_ok (fst s)" "\<lambda>s. inventory_room g (fst s)" "put_left g" "take_left g"
  for g
  by unfold_locales (simp_all add: side_defs bag.put_ok bag.put_count bag.take_ok bag.take_count
      inventory_room_def)

interpretation to_right: counted_transfer
  "\<lambda>s. owned (fst s)" "\<lambda>s. inventory_ok (fst s)" "\<lambda>s. inventory_room g (fst s)" "put_left g" "take_left g"
  "\<lambda>s. owned (snd s)" "\<lambda>s. inventory_ok (snd s)" "\<lambda>s. inventory_room g (snd s)" "put_right g" "take_right g"
  for g
  by unfold_locales (simp_all add: side_defs bag.put_ok bag.put_count bag.take_ok bag.take_count
      inventory_room_def)

text \<open>Both players together can hold what both own of every item that is offered.\<close>

definition tradable :: "game \<Rightarrow> chr \<Rightarrow> chr \<Rightarrow> bool" where
  "tradable g c p \<longleftrightarrow> list_all (\<lambda>st. item_exists g (st_id st)
       \<and> owned c (st_id st) + owned p (st_id st) \<le> min int_max (gm_MaxItem g))
     (ch_trade_inventory c @ ch_trade_inventory p)"

lemma owned_nonneg: "inventory_ok c \<Longrightarrow> 0 \<le> owned c i"
  by (simp add: owned_def inventory_ok_def amount_of_nonneg)

lemma amount_of_mem: "stacks_ok sts \<Longrightarrow> st \<in> set sts \<Longrightarrow> amount_of sts (st_id st) = st_amount st"
proof (induction sts)
  case (Cons a sts)
  then show ?case by (cases "st = a") (auto simp: image_iff)
qed simp

lemma exchange_exact:
  assumes "inventory_ok c" "inventory_ok p" "offer_ok c" "offer_ok p" "tradable g c p"
  shows "owned (fst (exchange g (c, p))) j
      = owned c j - amount_of (ch_trade_inventory c) j + amount_of (ch_trade_inventory p) j
    \<and> owned (snd (exchange g (c, p))) j
      = owned p j - amount_of (ch_trade_inventory p) j + amount_of (ch_trade_inventory c) j"
proof -
  let ?oc = "ch_trade_inventory c" and ?op = "ch_trade_inventory p"
  have st: "stacks_ok ?oc" "stacks_ok ?op" using assms by (simp_all add: offer_ok_def)
  have cov: "amount_of ?oc i \<le> owned c i" "amount_of ?op i \<le> owned p i" for i
    using assms by (simp_all add: offer_ok_def)
  have fits: "item_exists g (st_id t)" "owned c (st_id t) + owned p (st_id t) \<le> int_max"
    "owned c (st_id t) + owned p (st_id t) \<le> gm_MaxItem g" if "t \<in> set ?oc \<or> t \<in> set ?op" for t
    using assms(5) that by (auto simp: tradable_def list_all_iff)
  let ?s = "move_all (put_left g) (take_right g) ?op (c, p)"
  have 1: "inventory_ok (snd ?s) \<and> inventory_ok (fst ?s) \<and> (\<forall>j. owned (snd ?s) j = owned p j - amount_of ?op j
      \<and> owned (fst ?s) j = owned c j + amount_of ?op j)"
  proof -
    have "st_amount t \<le> owned p (st_id t) \<and> inventory_room g c (st_id t) (st_amount t)" if "t \<in> set ?op" for t
      using fits [of t] cov(2) [of "st_id t"] amount_of_mem [OF st(2) that] that
      by (auto simp: inventory_room_def)
    then show ?thesis using to_left.move_all [of "(c, p)" ?op g] assms st by simp
  qed
  have "st_amount t \<le> owned (fst ?s) (st_id t) \<and> inventory_room g (snd ?s) (st_id t) (st_amount t)"
    if "t \<in> set ?oc" for t
    using fits [of t] cov [of "st_id t"] amount_of_mem [OF st(1) that] that 1
      amount_of_nonneg [OF st(2), of "st_id t"]
    by (auto simp: inventory_room_def)
  then have 2: "\<forall>j. owned (fst (move_all (put_right g) (take_left g) ?oc ?s)) j = owned (fst ?s) j - amount_of ?oc j
      \<and> owned (snd (move_all (put_right g) (take_left g) ?oc ?s)) j = owned (snd ?s) j + amount_of ?oc j"
    using to_right.move_all [of ?s ?oc g] 1 st by simp
  then show ?thesis using 1 by (simp add: exchange_def)
qed

lemma trade_agree_completes:
  assumes "w me = Some c" "w q = Some p" "q \<noteq> me" "partners me c q p"
    and "ch_trade_agree p" "agree \<noteq> 0" "ch_trade_inventory c \<noteq> []"
  shows "\<exists>ms. trade_agree g me agree w =
    Some (end_trade me (fst (exchange g (c\<lparr>ch_trade_agree := True\<rparr>, p))) q
      (snd (exchange g (c\<lparr>ch_trade_agree := True\<rparr>, p))) (w(me \<mapsto> c\<lparr>ch_trade_agree := True\<rparr>)), ms)"
  using assms by (simp add: trade_agree_def partners_def Let_def)

lemma tradable_agree [simp]: "tradable g (c\<lparr>ch_trade_agree := b\<rparr>) p = tradable g c p"
  by (simp add: tradable_def owned_def)

text \<open>C29: When a player that offers something agrees and its partner has agreed, the trade is carried out
  exactly: each gets what the other offered and gives what it offered, nothing is lost or created,
  and both trades are over. Each must still own what it offers, and every offered item must exist
  and be one of which the two together own no more than \<open>MaxItem\<close>, as \<open>AddItem\<close> cuts what a player is
  given at that number and the rest would be lost. (A player that offers nothing and agrees carries
  out no trade, whatever its partner has agreed to; quest rules, which the code checks again with every
  item that changes hands, are left out.)\<close>

theorem trade_agree_exchanges:
  assumes "w me = Some c" "w q = Some p" "q \<noteq> me" "partners me c q p"
    and "holdings_ok c" "holdings_ok p" "tradable g c p"
    and "ch_trade_agree p" "agree \<noteq> 0" "ch_trade_inventory c \<noteq> []"
  shows "\<exists>w' ms c' p'. trade_agree g me agree w = Some (w', ms) \<and> w' me = Some c' \<and> w' q = Some p'
    \<and> \<not> ch_trading c' \<and> \<not> ch_trading p' \<and> ch_trade_inventory c' = [] \<and> ch_trade_inventory p' = []
    \<and> (\<forall>j. owned c' j = owned c j - amount_of (ch_trade_inventory c) j + amount_of (ch_trade_inventory p) j
         \<and> owned p' j = owned p j - amount_of (ch_trade_inventory p) j + amount_of (ch_trade_inventory c) j)"
proof -
  let ?c = "c\<lparr>ch_trade_agree := True\<rparr>"
  let ?s = "exchange g (?c, p)"
  have ok: "inventory_ok c" "inventory_ok p" "offer_ok c" "offer_ok p"
    using assms(5,6) by (simp_all add: holdings_ok_def)
  have "owned ?c j = owned c j" for j by (simp add: owned_def)
  then have ex: "\<forall>j. owned (fst ?s) j =
        owned c j - amount_of (ch_trade_inventory c) j + amount_of (ch_trade_inventory p) j
      \<and> owned (snd ?s) j = owned p j - amount_of (ch_trade_inventory p) j + amount_of (ch_trade_inventory c) j"
    using exchange_exact [of ?c p g] ok assms(7) by simp
  from trade_agree_completes [OF assms(1-4,8-10), of g] obtain ms where
    "trade_agree g me agree w = Some (end_trade me (fst ?s) q (snd ?s) (w(me \<mapsto> ?c)), ms)" ..
  then show ?thesis using ex assms(3) by (simp add: end_trade_def owned_def)
qed

text \<open>Alice offers 300 gold and has agreed; Bob offers his ring.\<close>

definition sample_offers :: players where
  "sample_offers =
     sample_trading(1 \<mapsto> (the (sample_trading 1))\<lparr>ch_trade_inventory := [\<lparr>st_id = 1, st_amount = 300\<rparr>],
                            ch_trade_agree := True\<rparr>,
                    2 \<mapsto> (the (sample_trading 2))\<lparr>ch_trade_inventory := [\<lparr>st_id = 3, st_amount = 1\<rparr>]\<rparr>)"

lemma sample_offers_ok: "trade_ok sample_offers"
  by (auto simp: trade_ok_def sample_offers_def sample_trading_def sample_players_def
      sample_chr_def partners_def)

lemma sample_holdings:
  "holdings_ok (the (sample_offers 1))" "holdings_ok (the (sample_offers 2))"
  by (auto simp: holdings_ok_def sample_offers_def sample_trading_def sample_players_def
      sample_chr_def inventory_ok_def offer_ok_def owned_def int_max_def)

theorem trade_agree_exchanges_witness:
  "\<exists>w' ms c' p'. trade_agree sample_game 2 1 sample_offers = Some (w', ms) \<and> w' 2 = Some c' \<and> w' 1 = Some p'
    \<and> owned c' 1 = 320 \<and> owned p' 1 = 200 \<and> owned c' 3 = 0 \<and> owned p' 3 = 1"
proof -
  let ?c = "the (sample_offers 2)" and ?p = "the (sample_offers 1)"
  have w: "sample_offers 2 = Some ?c" "sample_offers 1 = Some ?p"
    by (simp_all add: sample_offers_def)
  have "partners 2 ?c 1 ?p" "ch_trade_agree ?p" "ch_trade_inventory ?c \<noteq> []"
    by (simp_all add: partners_def sample_offers_def sample_trading_def sample_players_def sample_chr_def)
  moreover have "tradable sample_game ?c ?p"
    by (simp add: tradable_def item_exists_def owned_def int_max_def sample_offers_def sample_trading_def
        sample_players_def sample_chr_def sample_game_def sample_items_def)
  ultimately obtain w' ms c' p' where r: "trade_agree sample_game 2 1 sample_offers = Some (w', ms)"
      "w' 2 = Some c'" "w' 1 = Some p'"
    and o: "\<forall>j. owned c' j = owned ?c j - amount_of (ch_trade_inventory ?c) j + amount_of (ch_trade_inventory ?p) j
      \<and> owned p' j = owned ?p j - amount_of (ch_trade_inventory ?p) j + amount_of (ch_trade_inventory ?c) j"
    using trade_agree_exchanges [OF w, of sample_game 1] sample_holdings by auto
  have "owned c' 1 = 320" "owned p' 1 = 200" "owned c' 3 = 0" "owned p' 3 = 1"
    unfolding o [rule_format, THEN conjunct1] o [rule_format, THEN conjunct2]
    by (simp_all add: owned_def sample_offers_def sample_trading_def sample_players_def sample_chr_def)
  with r show ?thesis by blast
qed

section \<open>Agreement\<close>

text \<open>C30: An agreement does not survive a change of an offer: when \<open>Trade_Add\<close> or \<open>Trade_Remove\<close> changes
  an offer, neither side agrees any longer.\<close>

theorem offer_change_resets:
  assumes "trade_ok w" "w me = Some c" "ch_trading c"
    and "r = trade_add g me item n w \<or> r = trade_remove me item w"
    and "r = Some (w', ms)" "w' \<noteq> w"
  shows "\<exists>c' q p'. w' me = Some c' \<and> ch_trade_partner c' = Some q \<and> w' q = Some p'
    \<and> \<not> ch_trade_agree c' \<and> \<not> ch_trade_agree p'"
proof -
  obtain q p where q: "ch_trade_partner c = Some q" "w q = Some p" "q \<noteq> me"
    by (rule trade_ok_partner [OF assms(1-3)])
  have changed: "\<exists>c' q p'. w' me = Some c' \<and> ch_trade_partner c' = Some q \<and> w' q = Some p'
      \<and> \<not> ch_trade_agree c' \<and> \<not> ch_trade_agree p'"
    if "offer_changed me (c\<lparr>ch_trade_inventory := sts\<rparr>) w = Some (w', ms)" for sts
    using that q by (auto simp: offer_changed_def Let_def)
  have del: "fst (del_trade_item i c) = c\<lparr>ch_trade_inventory := ch_trade_inventory (fst (del_trade_item i c))\<rparr>"
    for i by (simp add: del_trade_item_def split: option.split)
  from assms(4) show ?thesis
  proof
    assume r: "r = trade_add g me item n w"
    obtain sts where "fst (add_trade_item g (s16 item) n c) = c\<lparr>ch_trade_inventory := sts\<rparr>"
      using add_trade_item_only_offer by blast
    then show ?thesis using changed [of sts] r assms
      by (auto simp: trade_add_def Let_def case_prod_beta split: if_splits)
  next
    assume r: "r = trade_remove me item w"
    show ?thesis using changed [of "ch_trade_inventory (fst (del_trade_item (s16 item) c))"]
        del [of "s16 item", symmetric] r assms
      by (auto simp: trade_remove_def case_prod_beta split: if_splits)
  qed
qed

theorem offer_change_resets_witness:
  "\<exists>w' ms c' p'. trade_add sample_game 2 1 5 sample_offers = Some (w', ms) \<and> w' 2 = Some c'
    \<and> w' 1 = Some p' \<and> \<not> ch_trade_agree p' \<and> ch_trade_inventory c' =
      [\<lparr>st_id = 3, st_amount = 1\<rparr>, \<lparr>st_id = 1, st_amount = 5\<rparr>]"
proof -
  let ?c = "the (sample_offers 2)"
  have w: "sample_offers 2 = Some ?c" and t: "ch_trading ?c"
    by (simp_all add: sample_offers_def sample_trading_def)
  obtain w' ms c1 where r: "trade_add sample_game 2 1 5 sample_offers = Some (w', ms)"
    and c1: "w' 2 = Some c1" "ch_trade_partner c1 = Some 1"
      "ch_trade_inventory c1 = [\<lparr>st_id = 3, st_amount = 1\<rparr>, \<lparr>st_id = 1, st_amount = 5\<rparr>]"
    by (auto simp: trade_add_def Let_def add_trade_item_def offer_changed_def has_item_def item_exists_def
        put_offer_def offered_amount_def sample_offers_def sample_trading_def sample_players_def
        sample_chr_def sample_game_def sample_items_def eif_get_def eif_default_def s16_def)
  then have "w' \<noteq> sample_offers"
    by (auto simp: sample_offers_def)
  from offer_change_resets [OF sample_offers_ok w t disjI1 [OF r [symmetric]] refl this] c1 r
  show ?thesis by auto
qed

text \<open>The test for an empty offer comes after the agreement is recorded: a player who offers nothing
  and agrees is taken to agree, without a word to the other side, and as soon as the other side
  agrees it hands over its offer for nothing.\<close>

theorem empty_offer_agrees:
  assumes "w me = Some c" "w q = Some p" "q \<noteq> me" "partners me c q p"
    and "holdings_ok c" "holdings_ok p"
    and "ch_trade_inventory p = []" "ch_trade_inventory c \<noteq> []" "tradable g c p"
  shows "\<exists>w1 w2 ms c2 p2. trade_agree g q 1 w = Some (w1, []) \<and> trade_agree g me 1 w1 = Some (w2, ms)
    \<and> w2 me = Some c2 \<and> w2 q = Some p2
    \<and> (\<forall>j. owned c2 j = owned c j - amount_of (ch_trade_inventory c) j
         \<and> owned p2 j = owned p j + amount_of (ch_trade_inventory c) j)"
proof -
  let ?p = "p\<lparr>ch_trade_agree := True\<rparr>" and ?w = "w(q \<mapsto> p\<lparr>ch_trade_agree := True\<rparr>)"
  have 1: "trade_agree g q 1 w = Some (?w, [])"
    using assms by (simp add: trade_agree_def partners_def Let_def)
  have w: "?w me = Some c" "?w q = Some ?p" "partners me c q ?p" using assms by (auto simp: partners_def)
  have ok: "inventory_ok c" "inventory_ok ?p" "offer_ok c" "offer_ok ?p"
    using assms(5,6) by (simp_all add: holdings_ok_def)
  have tr: "tradable g (c\<lparr>ch_trade_agree := True\<rparr>) ?p"
    using assms(9) by (simp add: tradable_def owned_def)
  obtain ms where "trade_agree g me 1 ?w =
      Some (end_trade me (fst (exchange g (c\<lparr>ch_trade_agree := True\<rparr>, ?p))) q
        (snd (exchange g (c\<lparr>ch_trade_agree := True\<rparr>, ?p))) (?w(me \<mapsto> c\<lparr>ch_trade_agree := True\<rparr>)), ms)"
    using trade_agree_completes [OF w(1,2) assms(3) w(3)] assms(8) by fastforce
  then show ?thesis
    using 1 exchange_exact [of "c\<lparr>ch_trade_agree := True\<rparr>" ?p g] ok tr assms(3,7)
    by (simp add: end_trade_def owned_def)
qed

text \<open>Alice agrees before Bob has offered anything.\<close>

theorem empty_offer_agrees_witness:
  "\<exists>w1 w2 ms c2 p2. trade_agree sample_game 1 1 (sample_offers(1 := map_option
        (\<lambda>c. c\<lparr>ch_trade_inventory := [], ch_trade_agree := False\<rparr>) (sample_offers 1))) = Some (w1, [])
    \<and> trade_agree sample_game 2 1 w1 = Some (w2, ms) \<and> w2 2 = Some c2 \<and> w2 1 = Some p2
    \<and> owned c2 3 = 0 \<and> owned p2 3 = 1"
proof -
  let ?w = "sample_offers(1 := map_option
        (\<lambda>c. c\<lparr>ch_trade_inventory := [], ch_trade_agree := False\<rparr>) (sample_offers 1))"
  let ?c = "the (?w 2)" and ?p = "the (?w 1)"
  note defs = sample_offers_def sample_trading_def sample_players_def sample_chr_def
  have ok: "holdings_ok ?c" "holdings_ok ?p"
    by (auto simp: holdings_ok_def defs inventory_ok_def offer_ok_def owned_def int_max_def)
  have w: "?w 2 = Some ?c" "?w 1 = Some ?p" "(1 :: nat) \<noteq> 2" "partners 2 ?c 1 ?p"
    "ch_trade_inventory ?p = []" "ch_trade_inventory ?c \<noteq> []"
    by (simp_all add: defs partners_def)
  have tr: "tradable sample_game ?c ?p"
    by (simp add: tradable_def item_exists_def owned_def int_max_def defs sample_game_def sample_items_def)
  from empty_offer_agrees [OF w(1-4) ok w(5,6) tr] obtain w1 w2 ms c2 p2 where r: "trade_agree sample_game 1 1 ?w = Some (w1, [])"
    "trade_agree sample_game 2 1 w1 = Some (w2, ms)" "w2 2 = Some c2" "w2 1 = Some p2"
    and o: "\<forall>j. owned c2 j = owned ?c j - amount_of (ch_trade_inventory ?c) j
      \<and> owned p2 j = owned ?p j + amount_of (ch_trade_inventory ?c) j"
    by blast
  have "owned c2 3 = 0" "owned p2 3 = 1"
    unfolding o [rule_format, THEN conjunct1] o [rule_format, THEN conjunct2]
    by (simp_all add: defs owned_def)
  with r show ?thesis by blast
qed

text \<open>An offer of more than five items, which \<open>Trade_Add\<close> allows up to ten, cannot be taken back.\<close>

lemma trade_remove_refused:
  "w me = Some c \<Longrightarrow> 5 < length (ch_trade_inventory c) \<Longrightarrow> trade_remove me item w = Some (w, [])"
  by (simp add: trade_remove_def)

end
