(* ===== verification/World_Map.thy ===== *)
theory World_Map
  imports Inventory
begin

text \<open>
  A map as the item handlers see it (\<^verbatim>\<open>src/map.hpp\<close>, \<^verbatim>\<open>src/map.cpp\<close>, \<^verbatim>\<open>src/npc_data.hpp\<close>): its tiles, the
  NPCs on it with what they sell, and its chests.
\<close>

section \<open>Tiles\<close>

datatype tile_spec =
    Tile_None | Wall | ChairDown | ChairLeft | ChairRight | ChairUp | ChairDownRight | ChairUpLeft
  | ChairAll | Door | Chest | Unknown1 | Unknown2 | Unknown3 | Unknown4 | Unknown5 | Unknown6
  | BankVault | NPCBoundary | MapEdge | FakeWall | Board1 | Board2 | Board3 | Board4 | Board5
  | Board6 | Board7 | Board8 | Jukebox | Jump | Water | Unknown7 | Arena | AmbientSource | Spikes1
  | Spikes2 | Spikes3

record tile =
  tl_spec :: tile_spec
  tl_warp :: bool

definition tile_walkable :: "bool \<Rightarrow> tile \<Rightarrow> bool" where
  "tile_walkable npc t =
     (if tl_warp t \<and> npc then False
      else case tl_spec t of
             Wall \<Rightarrow> False | ChairDown \<Rightarrow> False | ChairLeft \<Rightarrow> False | ChairRight \<Rightarrow> False
           | ChairUp \<Rightarrow> False | ChairDownRight \<Rightarrow> False | ChairUpLeft \<Rightarrow> False | ChairAll \<Rightarrow> False
           | Chest \<Rightarrow> False | BankVault \<Rightarrow> False | MapEdge \<Rightarrow> False | Board1 \<Rightarrow> False | Board2 \<Rightarrow> False
           | Board3 \<Rightarrow> False | Board4 \<Rightarrow> False | Board5 \<Rightarrow> False | Board6 \<Rightarrow> False | Board7 \<Rightarrow> False
           | Board8 \<Rightarrow> False | Jukebox \<Rightarrow> False
           | NPCBoundary \<Rightarrow> \<not> npc
           | _ \<Rightarrow> True)"

section \<open>NPCs\<close>

record shop_trade_item =
  tr_id :: int
  tr_buy :: int
  tr_sell :: int

record shop_craft_item =
  cr_id :: int
  cr_ingredients :: "item_stack list"

record npc =
  np_index :: int
  np_id :: int
  np_type :: npc_type
  np_shop_name :: string
  np_shop_trade :: "shop_trade_item list"
  np_shop_craft :: "shop_craft_item list"

section \<open>Chests\<close>

text \<open>A \<open>Map_Chest_Item\<close>: a stack with the slot it was spawned for, 0 for one that a player put in.
  Of a \<open>Map_Chest_Spawn\<close> only the slot and the time of the last removal are kept, which the handlers
  touch; a time is a reading of the clock, which they only copy.\<close>

record chest_item =
  ct_id :: int
  ct_amount :: int
  ct_slot :: int

record chest_spawn =
  cs_slot :: int
  cs_last_taken :: int

record chest =
  ce_x :: int
  ce_y :: int
  ce_items :: "chest_item list"
  ce_spawns :: "chest_spawn list"
  ce_slots :: int
  ce_maxchest :: int
  ce_chestslots :: int
  ce_key :: int

section \<open>Maps\<close>

record gmap =
  mp_width :: int
  mp_height :: int
  mp_tiles :: "tile list"
  mp_npcs :: "npc list"
  mp_chests :: "chest list"

definition in_bounds :: "int \<Rightarrow> int \<Rightarrow> gmap \<Rightarrow> bool" where
  "in_bounds x y m \<longleftrightarrow> \<not> (u8 x \<ge> mp_width m \<or> u8 y \<ge> mp_height m)"

text \<open>\<open>GetTile\<close>; \<open>None\<close> is the exception \<open>Map tile out of range\<close>.\<close>

definition get_tile :: "int \<Rightarrow> int \<Rightarrow> gmap \<Rightarrow> tile option" where
  "get_tile x y m =
     (if \<not> in_bounds x y m then None else Some (mp_tiles m ! nat (u8 y * mp_width m + u8 x)))"

definition get_spec :: "int \<Rightarrow> int \<Rightarrow> gmap \<Rightarrow> tile_spec" where
  "get_spec x y m = (case get_tile x y m of None \<Rightarrow> Tile_None | Some t \<Rightarrow> tl_spec t)"

definition path_length :: "int \<Rightarrow> int \<Rightarrow> int \<Rightarrow> int \<Rightarrow> int" where
  "path_length x1 y1 x2 y2 = \<bar>x1 - x2\<bar> + \<bar>y1 - y2\<bar>"

text \<open>A map has a tile for every position inside it.\<close>

definition map_ok :: "gmap \<Rightarrow> bool" where
  "map_ok m \<longleftrightarrow> 0 \<le> mp_width m \<and> 0 \<le> mp_height m
     \<and> int (length (mp_tiles m)) = mp_width m * mp_height m"

lemma get_tile_inside:
  assumes "map_ok m" "in_bounds x y m"
  shows "nat (u8 y * mp_width m + u8 x) < length (mp_tiles m)"
proof -
  have "u8 x < mp_width m" "u8 y < mp_height m" "0 \<le> u8 x" "0 \<le> u8 y"
    using assms(2) u8_range by (auto simp: in_bounds_def)
  then have "u8 y * mp_width m + u8 x < (u8 y + 1) * mp_width m" by (simp add: algebra_simps)
  also have "\<dots> \<le> mp_height m * mp_width m"
    using \<open>u8 y < mp_height m\<close> assms(1) by (intro mult_right_mono) (auto simp: map_ok_def)
  finally have "u8 y * mp_width m + u8 x < int (length (mp_tiles m))"
    using assms(1) by (simp add: map_ok_def mult.commute)
  moreover have "0 \<le> u8 y * mp_width m + u8 x"
    using \<open>0 \<le> u8 x\<close> \<open>0 \<le> u8 y\<close> assms(1) by (simp add: map_ok_def)
  ultimately show ?thesis by (simp add: nat_less_iff)
qed

section \<open>Handlers of one character\<close>

type_synonym handler_result = "chr \<times> message list"

text \<open>The first NPC of the map that has the index asked for and passes a test, with its position.\<close>

fun find_npc :: "(npc \<Rightarrow> bool) \<Rightarrow> nat \<Rightarrow> npc list \<Rightarrow> (nat \<times> npc) option" where
  "find_npc P i [] = None"
| "find_npc P i (n # ns) = (if P n then Some (i, n) else find_npc P (i + 1) ns)"

end
