(* ===== verification/Bank.thy ===== *)
theory Bank
  imports World_Map
begin

text \<open>
  The bank (\<^verbatim>\<open>src/handlers/Bank.cpp\<close>) and the lockers (\<^verbatim>\<open>src/handlers/Locker.cpp\<close>). The handlers are
  given the player id \<open>me\<close>, the map, the character and the values that they read from the packet.
\<close>

section \<open>The bank account\<close>

definition bank_open :: "nat \<Rightarrow> gmap \<Rightarrow> int \<Rightarrow> chr \<Rightarrow> handler_result" where
  "bank_open me m idx c =
     (case find_npc (\<lambda>n. np_index n = s16 idx \<and> np_type n = ENF_Bank) 0 (mp_npcs m) of
        None \<Rightarrow> (c, [])
      | Some (i, n) \<Rightarrow>
          (c\<lparr>ch_npc := i, ch_npc_type := ENF_Bank\<rparr>,
           [mk_message me PACKET_BANK PACKET_OPEN
              [fint (ch_goldbank c), fthree 0, fchar (ch_bankmax c)]]))"

definition bank_reply :: "nat \<Rightarrow> chr \<Rightarrow> message" where
  "bank_reply me c =
     mk_message me PACKET_BANK PACKET_REPLY [fint (has_item 1 False c), fint (ch_goldbank c)]"

definition bank_add :: "game \<Rightarrow> nat \<Rightarrow> int \<Rightarrow> chr \<Rightarrow> handler_result" where
  "bank_add g me amount0 c =
     (if ch_trading c then (c, [])
      else if amount0 \<le> 0 then (c, [])
      else
        let amount = min amount0 (has_item 1 False c)
        in if ch_npc_type c = ENF_Bank
           then
             let newgold = s32 (ch_goldbank c + amount)
             in if newgold < ch_goldbank c \<or> gm_MaxBankGold g < newgold then (c, [])
                else
                  let c1 = (fst (del_item g 1 amount c))\<lparr>ch_goldbank := newgold\<rparr>
                  in (c1, [bank_reply me c1])
           else (c, []))"

definition bank_take :: "game \<Rightarrow> nat \<Rightarrow> int \<Rightarrow> chr \<Rightarrow> handler_result" where
  "bank_take g me amount c =
     (if amount \<le> 0 then (c, [])
      else if ch_npc_type c = ENF_Bank
           then
             let newgold = ch_goldbank c - amount
             in if ch_goldbank c < newgold \<or> newgold < 0 then (c, [])
                else
                  let c1 = fst (add_item g 1 amount (c\<lparr>ch_goldbank := newgold\<rparr>))
                  in (c1, [bank_reply me c1])
           else (c, []))"

section \<open>The locker\<close>

definition locker_list :: "chr \<Rightarrow> field list" where
  "locker_list c = concat (map (\<lambda>st. [fshort (st_id st), fthree (st_amount st)]) (ch_bank c))"

definition add_common :: "game \<Rightarrow> nat \<Rightarrow> int \<Rightarrow> int \<Rightarrow> chr \<Rightarrow> handler_result" where
  "add_common g me item amount c =
     (let c1 = calculate_stats g (fst (del_item g item amount c))
      in (c1, [mk_message me PACKET_LOCKER PACKET_REPLY
                 ([fshort item, fint (has_item item False c1), fchar (ch_weight c1), fchar (ch_maxweight c1)]
                  @ locker_list c1)]))"

definition lockermax :: "game \<Rightarrow> chr \<Rightarrow> nat" where
  "lockermax g c = nat ((gm_BaseBankSize g + ch_bankmax c * gm_BankSizeStep g) mod 2 ^ 64)"

definition beside_vault :: "gmap \<Rightarrow> int \<Rightarrow> int \<Rightarrow> chr \<Rightarrow> bool" where
  "beside_vault m x y c \<longleftrightarrow> path_length (ch_x c) (ch_y c) (u8 x) (u8 y) \<le> 1 \<and> get_spec x y m = BankVault"

definition locker_add :: "game \<Rightarrow> nat \<Rightarrow> gmap \<Rightarrow> int \<Rightarrow> int \<Rightarrow> int \<Rightarrow> int \<Rightarrow> chr \<Rightarrow> handler_result" where
  "locker_add g me m x y item amount0 c =
     (if ch_trading c then (c, [])
      else if item = 1 then (c, [])
      else if amount0 \<le> 0 then (c, [])
      else if has_item item False c < amount0 then (c, [])
      else if \<not> beside_vault m x y c then (c, [])
      else case find_stack item (ch_bank c) of
             Some it \<Rightarrow>
               if s32 (st_amount it + amount0) < 0 then (c, [])
               else
                 let amount = min amount0 (gm_MaxBank g - st_amount it)
                 in add_common g me item amount
                      (c\<lparr>ch_bank := update_stack item (\<lambda>a. a + amount) (ch_bank c)\<rparr>)
           | None \<Rightarrow>
               if lockermax g c \<le> length (ch_bank c)
               then (c, [mk_message me PACKET_LOCKER PACKET_SPEC [fchar (int (lockermax g c))]])
               else
                 let amount = min amount0 (gm_MaxBank g)
                 in add_common g me item amount
                      (c\<lparr>ch_bank := ch_bank c @ [\<lparr>st_id = item, st_amount = amount\<rparr>]\<rparr>))"

definition locker_take :: "game \<Rightarrow> nat \<Rightarrow> gmap \<Rightarrow> int \<Rightarrow> int \<Rightarrow> int \<Rightarrow> chr \<Rightarrow> handler_result" where
  "locker_take g me m x y item c =
     (if ch_trading c then (c, [])
      else if \<not> beside_vault m x y c then (c, [])
      else case find_stack item (ch_bank c) of
             None \<Rightarrow> (c, [])
           | Some it \<Rightarrow>
               let taken = can_hold_item g item (st_amount it) c;
                   c1 = calculate_stats g (fst (add_item g item taken c));
                   c2 = c1\<lparr>ch_bank :=
                          (if st_amount it - taken \<le> 0 then erase_stack item (ch_bank c1)
                           else update_stack item (\<lambda>a. a - taken) (ch_bank c1))\<rparr>
               in (c2, [mk_message me PACKET_LOCKER PACKET_GET
                          ([fshort item, fthree taken, fchar (ch_weight c1), fchar (ch_maxweight c1)]
                           @ locker_list c2)]))"

definition locker_open :: "nat \<Rightarrow> gmap \<Rightarrow> int \<Rightarrow> int \<Rightarrow> chr \<Rightarrow> handler_result" where
  "locker_open me m x y c =
     (if beside_vault m x y c
      then (c, [mk_message me PACKET_LOCKER PACKET_OPEN ([fchar x, fchar y] @ locker_list c)])
      else (c, []))"

definition locker_buy :: "game \<Rightarrow> nat \<Rightarrow> chr \<Rightarrow> handler_result" where
  "locker_buy g me c =
     (if ch_trading c then (c, [])
      else if ch_npc_type c = ENF_Bank
      then
        let cost = gm_BankUpgradeBase g + ch_bankmax c * gm_BankUpgradeStep g
        in if gm_MaxBankUpgrades g \<le> ch_bankmax c then (c, [])
           else if has_item 1 False c < cost then (c, [])
           else
             let c1 = fst (del_item g 1 cost (c\<lparr>ch_bankmax := ch_bankmax c + 1\<rparr>))
             in (c1, [mk_message me PACKET_LOCKER PACKET_BUY
                        [fint (has_item 1 False c1), fchar (ch_bankmax c1)]])
      else (c, []))"

section \<open>The account as a stock of gold\<close>

definition account :: "chr \<Rightarrow> int \<Rightarrow> int" where
  "account c item = (if item = 1 then ch_goldbank c else 0)"

text \<open>The account is between 0 and its maximum, which is a value of an \<open>int\<close>.\<close>

definition account_ok :: "game \<Rightarrow> chr \<Rightarrow> bool" where
  "account_ok g c \<longleftrightarrow> 0 \<le> ch_goldbank c \<and> ch_goldbank c \<le> gm_MaxBankGold g \<and> gm_MaxBankGold g \<le> int_max"

definition account_room :: "game \<Rightarrow> chr \<Rightarrow> int \<Rightarrow> int \<Rightarrow> bool" where
  "account_room g c item n \<longleftrightarrow> item = 1 \<and> ch_goldbank c + n \<le> gm_MaxBankGold g"

definition account_put :: "int \<Rightarrow> int \<Rightarrow> chr \<Rightarrow> chr" where
  "account_put item n c = c\<lparr>ch_goldbank := ch_goldbank c + n\<rparr>"

definition account_take :: "int \<Rightarrow> int \<Rightarrow> chr \<Rightarrow> chr" where
  "account_take item n c = c\<lparr>ch_goldbank := ch_goldbank c - n\<rparr>"

lemmas account_defs = account_def account_ok_def account_room_def account_put_def account_take_def

lemma other_fields [simp]:
  "owned (c\<lparr>ch_goldbank := n\<rparr>) = owned c" "inventory_ok (c\<lparr>ch_goldbank := n\<rparr>) = inventory_ok c"
  "inventory_room g (c\<lparr>ch_goldbank := n\<rparr>) = inventory_room g c"
  "owned (c\<lparr>ch_bank := b\<rparr>) = owned c" "inventory_ok (c\<lparr>ch_bank := b\<rparr>) = inventory_ok c"
  "inventory_room g (c\<lparr>ch_bank := b\<rparr>) = inventory_room g c"
  by (simp_all add: owned_def inventory_ok_def inventory_room_def fun_eq_iff)

interpretation deposit: transfer owned inventory_ok "inventory_room g" "inv_put g" "inv_take g"
  account "account_ok g" "account_room g" account_put account_take for g
  by unfold_locales (auto simp: account_defs fun_eq_iff split: if_splits)

interpretation withdrawal: transfer account "account_ok g" "account_room g" account_put account_take
  owned inventory_ok "inventory_room g" "inv_put g" "inv_take g" for g
  by unfold_locales (simp_all add: account_defs fun_eq_iff)

definition gold :: "chr \<Rightarrow> int" where
  "gold c = owned c 1 + ch_goldbank c"

lemma gold_account: "gold c = owned c 1 + account c 1"
  by (simp add: gold_def account_def)

text \<open>C31: At a banker, a deposit by a player who is not trading adds to the account as much as was asked for and is on
  hand, or nothing if that is more than the account may hold, and takes the same from the inventory; a
  withdrawal of no more than the account holds takes it from the account and, if it fits the inventory, adds
  it there. So both conserve a player's gold, on hand and in the bank together; and
  no request brings the account below 0 or above its maximum.\<close>

theorem bank_conserves_gold:
  fixes me :: nat and n :: int
  assumes "inventory_ok c" "stacks_ok (ch_trade_inventory c)" "account_ok g c"
  defines "d \<equiv> min n (has_item 1 False c)"
  defines "c1 \<equiv> fst (bank_add g me n c)" and "c2 \<equiv> fst (bank_take g me n c)"
  shows "gold c1 = gold c \<and> inventory_ok c1 \<and> account_ok g c1 \<and> account_ok g c2
    \<and> ch_goldbank c1 = (if ch_trading c \<or> ch_npc_type c \<noteq> ENF_Bank \<or> n \<le> 0 \<or> gm_MaxBankGold g < ch_goldbank c + d
        then ch_goldbank c else ch_goldbank c + d)
    \<and> ch_goldbank c2 = (if ch_npc_type c \<noteq> ENF_Bank \<or> n \<le> 0 \<or> ch_goldbank c < n then ch_goldbank c else ch_goldbank c - n)
    \<and> ((0 < n \<and> n \<le> ch_goldbank c \<longrightarrow> inventory_room g c 1 n) \<longrightarrow> gold c2 = gold c \<and> inventory_ok c2)"
proof -
  have h: "0 \<le> has_item 1 False c" "has_item 1 False c \<le> owned c 1"
    using has_item_le_owned [OF assms(1,2)] by auto
  moreover have "owned c 1 \<le> int_max"
    using assms(1) ints_ok_find [of "ch_inventory c" 1]
    by (auto simp: owned_find inventory_ok_def int_max_def split: option.split)
  ultimately have dle: "d \<le> int_max" "d \<le> owned c 1" using d_def by auto
  have wrap: "s32 (ch_goldbank c + d) < ch_goldbank c \<or> gm_MaxBankGold g < s32 (ch_goldbank c + d)
      \<longleftrightarrow> gm_MaxBankGold g < ch_goldbank c + d" if "0 \<le> d"
    using assms(3) dle that s32_add_nonneg [of "ch_goldbank c" d]
    by (cases "ch_goldbank c + d \<le> int_max") (auto simp: account_ok_def s32_id)
  have add: "c1 = (if ch_trading c \<or> ch_npc_type c \<noteq> ENF_Bank \<or> n \<le> 0 \<or> gm_MaxBankGold g < ch_goldbank c + d
      then c else account_put 1 d (inv_take g 1 d c))"
  proof (cases "0 < n")
    case True
    then have "0 \<le> d" using h by (simp add: d_def)
    moreover from this have "\<not> gm_MaxBankGold g < ch_goldbank c + d \<Longrightarrow> s32 (ch_goldbank c + d) = ch_goldbank c + d"
      using assms(3) by (simp add: account_ok_def s32_id)
    ultimately show ?thesis
      using True wrap by (auto simp: c1_def bank_add_def d_def [symmetric] account_put_def Let_def)
  qed (simp add: c1_def bank_add_def)
  have took: "c2 = (if ch_npc_type c \<noteq> ENF_Bank \<or> n \<le> 0 \<or> ch_goldbank c < n then c else inv_put g 1 n (account_take 1 n c))"
    by (auto simp: c2_def bank_take_def account_take_def Let_def)
  have "gold c1 = gold c \<and> inventory_ok c1 \<and> account_ok g c1"
  proof (cases "0 < d \<and> \<not> gm_MaxBankGold g < ch_goldbank c + d")
    case True
    then have "account_room g c 1 d" by (simp add: account_room_def)
    then show ?thesis
      using True add assms(1,3) deposit.move [OF assms(1,3) _ dle(2)] deposit.move_conserves [OF assms(1,3) _ dle(2), of 1]
      by (auto simp: gold_account)
  next
    case False
    moreover have "d = 0 \<or> n \<le> 0 \<or> 0 < d" using h by (auto simp: d_def)
    ultimately show ?thesis using add assms(1,3) by (auto simp: del_item_def account_put_def gold_def)
  qed
  moreover have "gold c2 = gold c \<and> inventory_ok c2" if "0 < n \<and> n \<le> ch_goldbank c \<longrightarrow> inventory_room g c 1 n"
  proof (cases "0 < n \<and> n \<le> ch_goldbank c")
    case True
    then have "n \<le> account c 1" by (simp add: account_def)
    then show ?thesis
      using True that took assms(1) withdrawal.move [where ?n = n and ?i = 1, OF assms(3,1)]
        withdrawal.move_conserves [where ?n = n and ?i = 1 and ?j = 1, OF assms(3,1)]
      by (auto simp: gold_account)
  qed (use took assms(1) in auto)
  moreover have "account_ok g c2" using took assms(3) by (auto simp: account_ok_def account_take_def)
  ultimately show ?thesis using add took by (simp add: account_put_def account_take_def)
qed

theorem bank_conserves_gold_witness:
  "gold (fst (bank_add sample_game 7 300 ((sample_chr [(1, 500)])\<lparr>ch_goldbank := 50, ch_npc_type := ENF_Bank\<rparr>))) = 550
   \<and> ch_goldbank (fst (bank_add sample_game 7 300 ((sample_chr [(1, 500)])\<lparr>ch_goldbank := 50, ch_npc_type := ENF_Bank\<rparr>))) = 350"
proof -
  let ?c = "(sample_chr [(1, 500)])\<lparr>ch_goldbank := 50, ch_npc_type := ENF_Bank\<rparr>"
  have "inventory_ok ?c" "stacks_ok (ch_trade_inventory ?c)" "account_ok sample_game ?c"
    by (simp_all add: inventory_ok_def account_ok_def sample_chr_def sample_game_def int_max_def)
  from bank_conserves_gold [OF this, of 7 300] show ?thesis
    by (simp add: gold_def owned_def has_item_def sample_chr_def sample_game_def)
qed

text \<open>A withdrawal that does not fit is not refused: the account pays all of it, the inventory is
  cut at \<open>MaxItem\<close>, and the difference is gone.\<close>

theorem bank_take_loses_gold:
  assumes "inventory_ok c" "item_exists g 1" "ch_npc_type c = ENF_Bank"
    and "0 < n" "n \<le> ch_goldbank c" "0 < owned c 1" "owned c 1 + n \<le> int_max"
    and "gm_MaxItem g < owned c 1 + n"
  shows "gold (fst (bank_take g me n c)) = gold c - (owned c 1 + n - gm_MaxItem g)"
proof -
  obtain st where st: "find_stack 1 (ch_inventory c) = Some st" "owned c 1 = st_amount st"
    using assms(6) owned_find [OF assms(1), of 1] by (cases "find_stack 1 (ch_inventory c)") auto
  then have "s32 (st_amount st + n) = st_amount st + n" using assms by (simp add: s32_id)
  with st assms have "owned (fst (add_item g 1 n (c\<lparr>ch_goldbank := ch_goldbank c - n\<rparr>))) 1 = gm_MaxItem g"
    by (simp add: add_item_def owned_def amount_of_update)
  then show ?thesis using assms by (simp add: bank_take_def Let_def gold_def)
qed

theorem bank_take_loses_gold_witness:
  "gold ((sample_chr [(1, 1999999999)])\<lparr>ch_goldbank := 1000, ch_npc_type := ENF_Bank\<rparr>) = 2000000999
   \<and> gold (fst (bank_take sample_game 7 1000
        ((sample_chr [(1, 1999999999)])\<lparr>ch_goldbank := 1000, ch_npc_type := ENF_Bank\<rparr>))) = 2000000000"
proof -
  let ?c = "(sample_chr [(1, 1999999999)])\<lparr>ch_goldbank := 1000, ch_npc_type := ENF_Bank\<rparr>"
  have "owned ?c 1 = 1999999999" "ch_goldbank ?c = 1000" by (simp_all add: owned_def sample_chr_def)
  moreover have "inventory_ok ?c" "item_exists sample_game 1" "ch_npc_type ?c = ENF_Bank"
    "gm_MaxItem sample_game = 2000000000"
    by (simp_all add: inventory_ok_def item_exists_def sample_chr_def sample_game_def sample_items_def int_max_def)
  ultimately show ?thesis
    using bank_take_loses_gold [of ?c sample_game 1000 7] by (simp add: gold_def int_max_def)
qed

section \<open>The locker as a stock\<close>

definition stored :: "chr \<Rightarrow> int \<Rightarrow> int" where
  "stored c = amount_of (ch_bank c)"

text \<open>One stack per item, none above \<open>MaxBank\<close>, and no more stacks than the locker has room for.\<close>

definition locker_ok :: "game \<Rightarrow> chr \<Rightarrow> bool" where
  "locker_ok g c \<longleftrightarrow> stacks_ok (ch_bank c) \<and> (\<forall>st\<in>set (ch_bank c). st_amount st \<le> gm_MaxBank g)"

definition locker_room :: "game \<Rightarrow> chr \<Rightarrow> int \<Rightarrow> int \<Rightarrow> bool" where
  "locker_room g c item n \<longleftrightarrow> stored c item + n \<le> gm_MaxBank g"

definition locker_put :: "int \<Rightarrow> int \<Rightarrow> chr \<Rightarrow> chr" where
  "locker_put item n c = c\<lparr>ch_bank :=
     (if find_stack item (ch_bank c) = None then ch_bank c @ [\<lparr>st_id = item, st_amount = n\<rparr>]
      else update_stack item (\<lambda>a. a + n) (ch_bank c))\<rparr>"

definition locker_out :: "int \<Rightarrow> int \<Rightarrow> chr \<Rightarrow> chr" where
  "locker_out item n c = c\<lparr>ch_bank :=
     (if stored c item - n \<le> 0 then erase_stack item (ch_bank c)
      else update_stack item (\<lambda>a. a - n) (ch_bank c))\<rparr>"

lemma stored_find:
  "locker_ok g c \<Longrightarrow> stored c item = (case find_stack item (ch_bank c) of None \<Rightarrow> 0 | Some st \<Rightarrow> st_amount st)"
  by (simp add: stored_def locker_ok_def amount_of_find)

lemma all_update:
  "\<forall>st\<in>set sts. P (st_amount st) \<Longrightarrow> (\<And>st. find_stack item sts = Some st \<Longrightarrow> P (f (st_amount st))) \<Longrightarrow>
   \<forall>st\<in>set (update_stack item f sts). P (st_amount st)"
  by (induction sts) auto

lemma set_erase: "set (erase_stack item sts) \<subseteq> set sts"
  by (induction sts) auto

lemma locker_put_spec:
  assumes "locker_ok g c" "0 < n" "locker_room g c item n"
  shows "locker_ok g (locker_put item n c) \<and> stored (locker_put item n c) = (stored c)(item := stored c item + n)"
proof (cases "find_stack item (ch_bank c)")
  case None
  moreover from None have "item \<notin> st_id ` set (ch_bank c)" by (simp add: find_stack_None)
  ultimately show ?thesis using assms
    by (auto simp: locker_put_def locker_ok_def locker_room_def stored_def fun_eq_iff)
next
  case (Some st)
  then have st: "stored c item = st_amount st" "0 < st_amount st"
    using assms find_stack_pos by (auto simp: stored_find [OF assms(1)] locker_ok_def)
  have "stacks_ok (update_stack item (\<lambda>a. a + n) (ch_bank c))"
    using assms Some st by (intro stacks_ok_update) (auto simp: locker_ok_def)
  moreover have "\<forall>st\<in>set (update_stack item (\<lambda>a. a + n) (ch_bank c)). st_amount st \<le> gm_MaxBank g"
    using assms Some st by (intro all_update) (auto simp: locker_ok_def locker_room_def)
  ultimately show ?thesis using Some
    by (auto simp: locker_put_def locker_ok_def stored_def amount_of_update fun_eq_iff)
qed

lemma locker_out_spec:
  assumes "locker_ok g c" "0 < n" "n \<le> stored c item"
  shows "locker_ok g (locker_out item n c) \<and> stored (locker_out item n c) = (stored c)(item := stored c item - n)"
proof (cases "find_stack item (ch_bank c)")
  case None
  then show ?thesis using assms by (simp add: stored_find [OF assms(1)])
next
  case (Some st)
  then have st: "stored c item = st_amount st"  by (simp add: stored_find [OF assms(1)])
  have "stacks_ok (update_stack item (\<lambda>a. a - n) (ch_bank c))" if "\<not> st_amount st - n \<le> 0"
    using assms Some that by (intro stacks_ok_update) (auto simp: locker_ok_def)
  moreover have "\<forall>st\<in>set (update_stack item (\<lambda>a. a - n) (ch_bank c)). st_amount st \<le> gm_MaxBank g"
    using assms Some find_stack_SomeD [OF Some] by (intro all_update) (auto simp: locker_ok_def)
  ultimately show ?thesis using Some assms st set_erase [of item "ch_bank c"]
    by (auto simp: locker_out_def locker_ok_def stored_def amount_of_update amount_of_erase
        stacks_ok_erase fun_eq_iff)
qed

lemma locker_frame [simp]:
  "stored (fst (add_item g i n c)) = stored c" "stored (fst (del_item g i n c)) = stored c"
  "locker_ok g' (fst (add_item g i n c)) = locker_ok g' c" "locker_ok g' (fst (del_item g i n c)) = locker_ok g' c"
  "locker_room g' (fst (del_item g i n c)) = locker_room g' c"
  "stored (calculate_stats g c) = stored c" "locker_ok g' (calculate_stats g c) = locker_ok g' c"
  by (simp_all add: stored_def locker_ok_def locker_room_def fun_eq_iff)

lemma calculate_stats_owned [simp]:
  "owned (calculate_stats g c) = owned c" "inventory_ok (calculate_stats g c) = inventory_ok c"
  by (simp_all add: owned_def inventory_ok_def)

interpretation store: transfer owned inventory_ok "inventory_room g" "inv_put g" "inv_take g"
  stored "locker_ok g" "locker_room g" locker_put locker_out for g
  by unfold_locales (simp_all add: locker_put_spec locker_out_spec, simp_all add: locker_put_def)

interpretation fetch: transfer stored "locker_ok g" "locker_room g" locker_put locker_out
  owned inventory_ok "inventory_room g" "inv_put g" "inv_take g" for g
  by unfold_locales (simp_all add: locker_put_spec locker_out_spec, simp_all add: locker_out_def)

lemma update_stack_same: "(\<And>a. f a = a) \<Longrightarrow> update_stack item f sts = sts"
  by (induction sts) auto

lemma can_hold_item_le: "0 \<le> m \<Longrightarrow> can_hold_item g item m c \<le> m"
  by (auto simp: can_hold_item_def Let_def)

lemma locker_out_calculated [simp]:
  "stored (locker_out i n (calculate_stats g c)) = stored (locker_out i n c)"
  "locker_ok g' (locker_out i n (calculate_stats g c)) = locker_ok g' (locker_out i n c)"
  "owned (locker_out i n (calculate_stats g c)) = owned (locker_out i n c)"
  "inventory_ok (locker_out i n (calculate_stats g c)) = inventory_ok (locker_out i n c)"
  by (simp_all add: locker_out_def stored_def locker_ok_def owned_def inventory_ok_def fun_eq_iff)

text \<open>What the two requests do when they do something: a move of \<open>n\<close> items, then the weight.\<close>

lemma locker_add_moves:
  fixes me m x y item amount
  assumes "inventory_ok c" "stacks_ok (ch_trade_inventory c)" "locker_ok g c" "0 < gm_MaxBank g"
  defines "c' \<equiv> fst (locker_add g me m x y item amount c)"
  shows "c' = c \<or> c' = calculate_stats g c \<or> (\<exists>n. 0 < n \<and> n \<le> owned c item \<and> locker_room g c item n
    \<and> c' = calculate_stats g (inv_take g item n (locker_put item n c)))"
proof (cases "c' = c")
  case False
  then have a: "0 < amount" "amount \<le> has_item item False c"
    and c': "c' = (case find_stack item (ch_bank c) of
      Some it \<Rightarrow> fst (add_common g me item (min amount (gm_MaxBank g - st_amount it))
        (c\<lparr>ch_bank := update_stack item (\<lambda>a. a + min amount (gm_MaxBank g - st_amount it)) (ch_bank c)\<rparr>))
    | None \<Rightarrow> fst (add_common g me item (min amount (gm_MaxBank g))
        (c\<lparr>ch_bank := ch_bank c @ [\<lparr>st_id = item, st_amount = min amount (gm_MaxBank g)\<rparr>]\<rparr>)))"
    unfolding c'_def locker_add_def Let_def by (auto split: if_splits option.split)
  have own: "amount \<le> owned c item" using a has_item_le_owned [OF assms(1,2), of item False] by linarith
  show ?thesis
  proof (cases "find_stack item (ch_bank c)")
    case None
    let ?n = "min amount (gm_MaxBank g)"
    have "0 < ?n \<and> ?n \<le> owned c item \<and> locker_room g c item ?n
      \<and> c' = calculate_stats g (inv_take g item ?n (locker_put item ?n c))"
      using None a own assms(4) unfolding c'
      by (simp add: add_common_def Let_def locker_put_def locker_room_def stored_find [OF assms(3)])
    then show ?thesis by blast
  next
    case (Some it)
    let ?n = "min amount (gm_MaxBank g - st_amount it)"
    have it: "st_amount it \<le> gm_MaxBank g" "stored c item = st_amount it"
      using assms(3) find_stack_SomeD [OF Some] Some by (auto simp: locker_ok_def stored_find [OF assms(3)])
    show ?thesis
    proof (cases "0 < ?n")
      case True
      then have "0 < ?n \<and> ?n \<le> owned c item \<and> locker_room g c item ?n
        \<and> c' = calculate_stats g (inv_take g item ?n (locker_put item ?n c))"
        using Some own it unfolding c' by (auto simp: add_common_def Let_def locker_put_def locker_room_def)
      then show ?thesis by blast
    next
      case zero: False
      then have "?n = 0" using it a by linarith
      then show ?thesis using Some unfolding c'
        by (simp add: add_common_def Let_def update_stack_same del_item_def)
    qed
  qed
qed simp

lemma locker_take_moves:
  fixes me m x y item
  assumes "locker_ok g c"
  defines "n \<equiv> can_hold_item g item (stored c item) c" and "c' \<equiv> fst (locker_take g me m x y item c)"
  assumes "0 \<le> n"
  shows "c' = c \<or> c' = calculate_stats g c
    \<or> 0 < n \<and> n \<le> stored c item \<and> c' = locker_out item n (calculate_stats g (inv_put g item n c))"
proof (cases "c' = c")
  case False
  then obtain it where it: "find_stack item (ch_bank c) = Some it"
    by (auto simp: c'_def locker_take_def split: if_splits option.splits)
  then have s: "stored c item = st_amount it" "0 < st_amount it"
    using assms(1) find_stack_pos by (auto simp: stored_find [OF assms(1)] locker_ok_def)
  have c': "c' = locker_out item n (calculate_stats g (inv_put g item n c))"
    using False it s by (simp add: c'_def n_def locker_take_def Let_def locker_out_def split: if_splits)
  have "n \<le> stored c item" using can_hold_item_le [of "stored c item" g item c] s by (simp add: n_def)
  moreover have "c' = calculate_stats g c" if "n = 0"
    using that c' s by (simp add: locker_out_def add_item_def update_stack_same)
  ultimately show ?thesis using c' assms(4) by fastforce
qed simp

text \<open>C32: Storing in a locker and fetching from it lose and duplicate nothing: for every item, what the
  character owns and what its locker holds add up to the same before and after, the locker stays well
  formed (one stack per item, none empty, none above \<open>MaxBank\<close>) and so does the inventory. This needs
  a fetched amount to fit the inventory.\<close>

theorem locker_conserves:
  assumes "inventory_ok c" "stacks_ok (ch_trade_inventory c)" "locker_ok g c" "0 < gm_MaxBank g"
    and "0 \<le> can_hold_item g item (stored c item) c"
    and "0 < stored c item \<Longrightarrow> inventory_room g c item (can_hold_item g item (stored c item) c)"
    and "c' = fst (locker_add g me m x y item amount c) \<or> c' = fst (locker_take g me m x y item c)"
  shows "inventory_ok c' \<and> locker_ok g c' \<and> owned c' i + stored c' i = owned c i + stored c i"
proof -
  have keep: ?thesis if "c' = c \<or> c' = calculate_stats g c" using that assms(1,3) by auto
  from assms(7) show ?thesis
  proof
    assume "c' = fst (locker_add g me m x y item amount c)"
    from locker_add_moves [OF assms(1-4), of me m x y item amount] this keep show ?thesis
      using store.move_put_first [OF assms(1,3), of _ item] by fastforce
  next
    assume "c' = fst (locker_take g me m x y item c)"
    from locker_take_moves [OF assms(3,5), of me m x y] this keep show ?thesis
      using fetch.move_put_first [OF assms(3,1), of "can_hold_item g item (stored c item) c" item] assms(6)
      by fastforce
  qed
qed

definition sample_vault :: gmap where
  "sample_vault = \<lparr>mp_width = 8, mp_height = 8,
     mp_tiles = (replicate 64 \<lparr>tl_spec = Tile_None, tl_warp = False\<rparr>)[37 := \<lparr>tl_spec = BankVault, tl_warp = False\<rparr>],
     mp_npcs = [], mp_chests = []\<rparr>"

theorem locker_conserves_witness:
  "ch_bank (fst (locker_add sample_game 7 sample_vault 5 4 2 30 (sample_chr [(2, 40)]))) = [\<lparr>st_id = 2, st_amount = 30\<rparr>]
   \<and> owned (fst (locker_add sample_game 7 sample_vault 5 4 2 30 (sample_chr [(2, 40)]))) 2 = 10"
proof -
  let ?c = "sample_chr [(2, 40)]"
  let ?c' = "fst (locker_add sample_game 7 sample_vault 5 4 2 30 ?c)"
  have run: "ch_bank ?c' = [\<lparr>st_id = 2, st_amount = 30\<rparr>]"
    by (simp add: locker_add_def has_item_def beside_vault_def path_length_def get_spec_def get_tile_def
        in_bounds_def lockermax_def Let_def add_common_def sample_vault_def sample_defs u8_def)
  have "inventory_ok ?c" "stacks_ok (ch_trade_inventory ?c)" "locker_ok sample_game ?c" "0 < gm_MaxBank sample_game"
    "0 \<le> can_hold_item sample_game 2 (stored ?c 2) ?c"
    by (simp_all add: inventory_ok_def locker_ok_def can_hold_item_def stored_def Let_def sample_defs int_max_def)
  moreover have "stored ?c 2 = 0" by (simp add: stored_def sample_chr_def)
  ultimately have "owned ?c' 2 + stored ?c' 2 = owned ?c 2 + stored ?c 2"
    using locker_conserves [of ?c sample_game 2 ?c' 7 sample_vault 5 4 30 2] by simp
  with run show ?thesis by (simp add: stored_def owned_def sample_chr_def)
qed

end
