(* ===== verification/Chest.thy ===== *)
theory Chest
  imports World_Map
begin

text \<open>
  Chests on a map: the operations of \<open>Map_Chest\<close> (\<^verbatim>\<open>src/map.cpp\<close>) and the packets that use them
  (\<^verbatim>\<open>src/handlers/Chest.cpp\<close>). \<open>now\<close> is the reading of the clock, \<open>here\<close> the characters on the map
  with their player ids, \<open>me\<close> the player who sent the packet.
\<close>

section \<open>The operations of a chest\<close>

definition chest_find :: "int \<Rightarrow> chest_item list \<Rightarrow> chest_item option" where
  "chest_find item its = find (\<lambda>it. ct_id it = item) its"

definition chest_has_item :: "int \<Rightarrow> chest \<Rightarrow> int" where
  "chest_has_item item ce = (case chest_find item (ce_items ce) of None \<Rightarrow> 0 | Some it \<Rightarrow> ct_amount it)"

fun chest_update :: "int \<Rightarrow> (chest_item \<Rightarrow> chest_item) \<Rightarrow> chest_item list \<Rightarrow> chest_item list" where
  "chest_update item f [] = []"
| "chest_update item f (it # its) = (if ct_id it = item then f it # its else it # chest_update item f its)"

fun chest_erase :: "int \<Rightarrow> chest_item list \<Rightarrow> chest_item list" where
  "chest_erase item [] = []"
| "chest_erase item (it # its) = (if ct_id it = item then its else it # chest_erase item its)"

text \<open>\<open>AddItem\<close> with the amount that it returns.\<close>

definition chest_add_new :: "int \<Rightarrow> int \<Rightarrow> int \<Rightarrow> chest \<Rightarrow> chest \<times> int" where
  "chest_add_new item amount slot ce =
     (let chestitem = \<lparr>ct_id = item, ct_amount = amount, ct_slot = slot\<rparr>
      in if nat (ce_chestslots ce mod 2 ^ 64) \<le> length (ce_items ce) \<or> ce_maxchest ce < amount then (ce, 0)
         else if slot = 0
         then
           let user_items = int (length (filter (\<lambda>it. ct_slot it = 0) (ce_items ce)))
           in if ce_chestslots ce \<le> user_items + ce_slots ce then (ce, 0)
              else (ce\<lparr>ce_items := ce_items ce @ [chestitem]\<rparr>, amount)
         else (ce\<lparr>ce_items := chestitem # ce_items ce\<rparr>, amount))"

definition chest_add_item :: "int \<Rightarrow> int \<Rightarrow> int \<Rightarrow> chest \<Rightarrow> chest \<times> int" where
  "chest_add_item item amount slot ce =
     (if amount \<le> 0 then (ce, 0)
      else if slot = 0
      then case chest_find item (ce_items ce) of
             Some it \<Rightarrow>
               if s32 (ct_amount it + amount) < 0 \<or> ce_maxchest ce < s32 (ct_amount it + amount) then (ce, 0)
               else (ce\<lparr>ce_items :=
                       chest_update item (\<lambda>it. it\<lparr>ct_amount := s32 (ct_amount it + amount)\<rparr>) (ce_items ce)\<rparr>, amount)
           | None \<Rightarrow> chest_add_new item amount slot ce
      else chest_add_new item amount slot ce)"

definition mark_taken :: "int \<Rightarrow> int \<Rightarrow> chest_spawn list \<Rightarrow> chest_spawn list" where
  "mark_taken now slot sps =
     (if slot \<noteq> 0 then map (\<lambda>sp. if cs_slot sp = slot then sp\<lparr>cs_last_taken := now\<rparr> else sp) sps else sps)"

definition chest_del_item :: "int \<Rightarrow> int \<Rightarrow> chest \<Rightarrow> chest \<times> int" where
  "chest_del_item now item ce =
     (case chest_find item (ce_items ce) of
        Some it \<Rightarrow> (ce\<lparr>ce_spawns := mark_taken now (ct_slot it) (ce_spawns ce),
                       ce_items := chest_erase item (ce_items ce)\<rparr>, ct_amount it)
      | None \<Rightarrow> (ce, 0))"

definition chest_del_some_item :: "int \<Rightarrow> int \<Rightarrow> int \<Rightarrow> chest \<Rightarrow> chest \<times> int" where
  "chest_del_some_item now item amount ce =
     (case chest_find item (ce_items ce) of
        Some it \<Rightarrow>
          if amount < ct_amount it
          then (ce\<lparr>ce_spawns := mark_taken now (ct_slot it) (ce_spawns ce),
                   ce_items := chest_update item (\<lambda>it. it\<lparr>ct_amount := ct_amount it - amount, ct_slot := 0\<rparr>)
                                 (ce_items ce)\<rparr>, ct_amount it - amount)
          else chest_del_item now item ce
      | None \<Rightarrow> (ce, 0))"

definition chest_update_packet :: "(nat \<times> chr) list \<Rightarrow> nat \<Rightarrow> chest \<Rightarrow> message list" where
  "chest_update_packet here exclude ce =
     [mk_message to PACKET_CHEST PACKET_AGREE
        (concat (map (\<lambda>it. [fshort (ct_id it), fthree (ct_amount it)]) (ce_items ce))).
      (to, c) \<leftarrow> here, to \<noteq> exclude \<and> path_length (ch_x c) (ch_y c) (ce_x ce) (ce_y ce) \<le> 1]"

section \<open>The packets\<close>

type_synonym chest_result = "chr \<times> gmap \<times> message list"

definition chest_list :: "chest \<Rightarrow> field list" where
  "chest_list ce = concat (map (\<lambda>it. if ct_id it \<noteq> 0 then [fshort (ct_id it), fthree (ct_amount it)] else [])
                            (ce_items ce))"

definition at_chest :: "gmap \<Rightarrow> int \<Rightarrow> int \<Rightarrow> chr \<Rightarrow> bool" where
  "at_chest m x y c \<longleftrightarrow> path_length (ch_x c) (ch_y c) x y \<le> 1 \<and> get_spec x y m = Chest"

definition chest_add_to ::
  "game \<Rightarrow> (nat \<times> chr) list \<Rightarrow> nat \<Rightarrow> int \<Rightarrow> int \<Rightarrow> chr \<Rightarrow> chest \<Rightarrow> chr \<times> chest \<times> message list" where
  "chest_add_to g here me item amount0 c ce =
     (let amount = min amount0 (gm_MaxChest g - chest_has_item (s16 item) ce);
          (ce1, added) = chest_add_item (s16 item) amount 0 ce
      in if amount \<le> has_item (s16 item) False c \<and> added \<noteq> 0
         then
           let c1 = fst (del_item g (s16 item) amount c)
           in (c1, ce1, chest_update_packet here me ce1
                 @ [mk_message me PACKET_CHEST PACKET_REPLY
                      ([fshort item, fint (has_item (s16 item) False c1), fchar (ch_weight c1),
                        fchar (ch_maxweight c1)] @ chest_list ce1)])
         else (c, ce, []))"

fun chest_add_loop ::
  "game \<Rightarrow> (nat \<times> chr) list \<Rightarrow> nat \<Rightarrow> int \<Rightarrow> int \<Rightarrow> int \<Rightarrow> int \<Rightarrow> chr \<Rightarrow> chest list \<Rightarrow> chr \<times> chest list \<times> message list"
where
  "chest_add_loop g here me x y item amount c [] = (c, [], [])"
| "chest_add_loop g here me x y item amount c (ce # ces) =
     (if ce_x ce = x \<and> ce_y ce = y
      then case chest_add_to g here me item amount c ce of (c1, ce1, ms) \<Rightarrow> (c1, ce1 # ces, ms)
      else case chest_add_loop g here me x y item amount c ces of (c1, ces1, ms) \<Rightarrow> (c1, ce # ces1, ms))"

definition chest_add ::
  "game \<Rightarrow> (nat \<times> chr) list \<Rightarrow> nat \<Rightarrow> gmap \<Rightarrow> int \<Rightarrow> int \<Rightarrow> int \<Rightarrow> int \<Rightarrow> chr \<Rightarrow> chest_result" where
  "chest_add g here me m x y item amount c =
     (if ch_trading c then (c, m, [])
      else if \<not> ch_can_interact_items c then (c, m, [])
      else if eif_special (eif_get (gm_eif g) item) = EIF_Lore then (c, m, [])
      else if at_chest m x y c
      then case chest_add_loop g here me x y item amount c (mp_chests m) of
             (c1, ces, ms) \<Rightarrow> (c1, m\<lparr>mp_chests := ces\<rparr>, ms)
      else (c, m, []))"

text \<open>A chest from which nothing can be taken is skipped: the search goes on behind it.\<close>

fun chest_take_loop ::
  "game \<Rightarrow> (nat \<times> chr) list \<Rightarrow> nat \<Rightarrow> int \<Rightarrow> int \<Rightarrow> int \<Rightarrow> int \<Rightarrow> chr \<Rightarrow> chest list \<Rightarrow> chr \<times> chest list \<times> message list"
where
  "chest_take_loop g here me now x y item c [] = (c, [], [])"
| "chest_take_loop g here me now x y item c (ce # ces) =
     (let taken = can_hold_item g (s16 item) (chest_has_item (s16 item) ce) c
      in if ce_x ce = x \<and> ce_y ce = y \<and> 0 < taken
         then
           let ce1 = fst (chest_del_some_item now (s16 item) taken ce);
               c1 = fst (add_item g (s16 item) taken c)
           in (c1, ce1 # ces,
               mk_message me PACKET_CHEST PACKET_GET
                 ([fshort item, fthree taken, fchar (ch_weight c1), fchar (ch_maxweight c1)] @ chest_list ce1)
               # chest_update_packet here me ce1)
         else case chest_take_loop g here me now x y item c ces of (c1, ces1, ms) \<Rightarrow> (c1, ce # ces1, ms))"

definition chest_take ::
  "game \<Rightarrow> (nat \<times> chr) list \<Rightarrow> nat \<Rightarrow> int \<Rightarrow> gmap \<Rightarrow> int \<Rightarrow> int \<Rightarrow> int \<Rightarrow> chr \<Rightarrow> chest_result" where
  "chest_take g here me now m x y item c =
     (if at_chest m x y c
      then case chest_take_loop g here me now x y item c (mp_chests m) of
             (c1, ces, ms) \<Rightarrow> (c1, m\<lparr>mp_chests := ces\<rparr>, ms)
      else (c, m, []))"

definition chest_open :: "game \<Rightarrow> nat \<Rightarrow> gmap \<Rightarrow> int \<Rightarrow> int \<Rightarrow> chr \<Rightarrow> message list" where
  "chest_open g me m x y c =
     (if at_chest m x y c
      then case find (\<lambda>ce. ce_x ce = x \<and> ce_y ce = y) (mp_chests m) of
             None \<Rightarrow> []
           | Some ce \<Rightarrow>
               let key_item = eif_get_key (gm_eif g) (ce_key ce)
               in if 0 < ce_key ce \<and> key_item = 0
                  then [mk_message me PACKET_CHEST PACKET_CLOSE (fstring ''N'')]
                  else if 0 < ce_key ce \<and> has_item (s16 (int key_item)) False c = 0
                  then [mk_message me PACKET_CHEST PACKET_CLOSE [fshort (ce_key ce)]]
                  else [mk_message me PACKET_CHEST PACKET_OPEN ([fchar x, fchar y] @ chest_list ce)]
      else [])"

section \<open>A chest as a stock\<close>

definition items_total :: "chest_item list \<Rightarrow> int \<Rightarrow> int" where
  "items_total its item = (\<Sum>it\<leftarrow>its. if ct_id it = item then ct_amount it else 0)"

definition chest_total :: "chest \<Rightarrow> int \<Rightarrow> int" where
  "chest_total ce = items_total (ce_items ce)"

text \<open>No empty stack, none above the maximum, and no more stacks than the chest has room for. A chest may
  hold several stacks of one item: what was spawned in it is kept apart from what was put in.\<close>

definition chest_ok :: "chest \<Rightarrow> bool" where
  "chest_ok ce \<longleftrightarrow> (\<forall>it\<in>set (ce_items ce). 0 < ct_amount it \<and> ct_amount it \<le> ce_maxchest ce)
     \<and> int (length (ce_items ce)) \<le> ce_chestslots ce \<and> ce_maxchest ce \<le> int_max \<and> ce_chestslots ce \<le> int_max"

lemma items_total_simps [simp]:
  "items_total [] item = 0"
  "items_total (it # its) item = (if ct_id it = item then ct_amount it else 0) + items_total its item"
  "items_total (its @ its') item = items_total its item + items_total its' item"
  by (simp_all add: items_total_def)

lemma chest_find_simps [simp]:
  "chest_find item [] = None"
  "chest_find item (it # its) = (if ct_id it = item then Some it else chest_find item its)"
  by (simp_all add: chest_find_def)

lemma chest_find_SomeD: "chest_find item its = Some it \<Longrightarrow> it \<in> set its \<and> ct_id it = item"
  by (induction its) (auto split: if_splits)

lemma length_chest_update [simp]: "length (chest_update item f its) = length its"
  by (induction its) auto

lemma length_chest_erase: "length (chest_erase item its) \<le> length its"
  by (induction its) auto

lemma set_chest_erase: "set (chest_erase item its) \<subseteq> set its"
  by (induction its) auto

lemma all_chest_update:
  "\<forall>it\<in>set its. P it \<Longrightarrow> (\<And>it. chest_find item its = Some it \<Longrightarrow> P (f it)) \<Longrightarrow>
   \<forall>it\<in>set (chest_update item f its). P it"
  by (induction its) auto

lemma items_total_update:
  "chest_find item its = Some it \<Longrightarrow> ct_id (f it) = item \<Longrightarrow>
   items_total (chest_update item f its) =
     (items_total its)(item := items_total its item + ct_amount (f it) - ct_amount it)"
  by (induction its) (auto simp: fun_eq_iff split: if_splits)

lemma items_total_erase:
  "chest_find item its = Some it \<Longrightarrow>
   items_total (chest_erase item its) = (items_total its)(item := items_total its item - ct_amount it)"
  by (induction its) (auto simp: fun_eq_iff split: if_splits)

lemma items_total_nonneg: "\<forall>it\<in>set its. 0 < ct_amount it \<Longrightarrow> 0 \<le> items_total its item"
  by (induction its) auto

text \<open>What \<open>AddItem\<close> and \<open>DelSomeItem\<close> do to the contents: exactly what they report.\<close>

lemma chest_add_new_spec:
  assumes "chest_ok ce" "0 < n" "chest_add_new item n slot ce = (ce', r)"
  shows "chest_ok ce' \<and> chest_total ce' = (chest_total ce)(item := chest_total ce item + r)
    \<and> (r = 0 \<and> ce' = ce \<or> r = n) \<and> ce_x ce' = ce_x ce \<and> ce_y ce' = ce_y ce"
proof (cases "ce' = ce \<and> r = 0")
  case False
  have "ce_chestslots ce mod 18446744073709551616 = ce_chestslots ce"
    using assms(1) by (intro mod_pos_pos_trivial) (auto simp: chest_ok_def int_max_def)
  with False assms show ?thesis
    by (auto simp: chest_add_new_def Let_def chest_ok_def chest_total_def fun_eq_iff split: if_splits)
qed (use assms in simp)

lemma chest_add_item_spec:
  assumes "chest_ok ce" "n \<le> int_max" "chest_add_item item n slot ce = (ce', r)"
  shows "chest_ok ce' \<and> chest_total ce' = (chest_total ce)(item := chest_total ce item + r)
    \<and> (r = 0 \<and> ce' = ce \<or> r = n \<and> 0 < n) \<and> ce_x ce' = ce_x ce \<and> ce_y ce' = ce_y ce"
proof (cases "n \<le> 0 \<or> slot \<noteq> 0 \<or> chest_find item (ce_items ce) = None")
  case True
  then show ?thesis using chest_add_new_spec [OF assms(1)] assms
    by (force simp: chest_add_item_def split: if_splits option.splits)
next
  case False
  then obtain it where it: "chest_find item (ce_items ce) = Some it" and n: "0 < n" "slot = 0" by auto
  let ?s = "s32 (ct_amount it + n)"
  show ?thesis
  proof (cases "?s < 0 \<or> ce_maxchest ce < ?s")
    case True
    then show ?thesis using assms n it by (simp add: chest_add_item_def)
  next
    case fits: False
    have "0 < ct_amount it" "ct_amount it \<le> int_max"
      using assms(1) chest_find_SomeD [OF it] by (auto simp: chest_ok_def)
    then have s: "?s = ct_amount it + n" using fits n assms(2) s32_add_nonneg [of "ct_amount it" n]
      by (auto simp: s32_id)
    have ce': "ce' = ce\<lparr>ce_items :=
        chest_update item (\<lambda>it. it\<lparr>ct_amount := s32 (ct_amount it + n)\<rparr>) (ce_items ce)\<rparr>" "r = n"
      using assms(3) fits n it by (auto simp: chest_add_item_def)
    have "\<forall>it\<in>set (chest_update item (\<lambda>it. it\<lparr>ct_amount := s32 (ct_amount it + n)\<rparr>) (ce_items ce)).
        0 < ct_amount it \<and> ct_amount it \<le> ce_maxchest ce"
      using assms(1) it fits s n \<open>0 < ct_amount it\<close> by (intro all_chest_update) (auto simp: chest_ok_def)
    with ce' s n assms(1) chest_find_SomeD [OF it] show ?thesis
      by (simp add: chest_ok_def chest_total_def items_total_update [OF it])
  qed
qed

lemma chest_del_some_item_spec:
  fixes now
  assumes "chest_ok ce" "0 < n" "n \<le> chest_has_item item ce"
  defines "ce' \<equiv> fst (chest_del_some_item now item n ce)"
  shows "chest_ok ce' \<and> chest_total ce' = (chest_total ce)(item := chest_total ce item - n)
    \<and> ce_x ce' = ce_x ce \<and> ce_y ce' = ce_y ce"
proof -
  obtain it where it: "chest_find item (ce_items ce) = Some it" and n: "n \<le> ct_amount it"
    using assms by (auto simp: chest_has_item_def split: option.splits)
  have "\<forall>it\<in>set (chest_update item (\<lambda>it. it\<lparr>ct_amount := ct_amount it - n, ct_slot := 0\<rparr>) (ce_items ce)).
      0 < ct_amount it \<and> ct_amount it \<le> ce_maxchest ce" if "n < ct_amount it"
    using assms(1,2) it that chest_find_SomeD [OF it] by (intro all_chest_update) (auto simp: chest_ok_def)
  then show ?thesis
    using it n assms(1) chest_find_SomeD [OF it] set_chest_erase [of item "ce_items ce"]
      length_chest_erase [of item "ce_items ce"]
    by (auto simp: ce'_def chest_del_some_item_def chest_del_item_def chest_ok_def chest_total_def
        items_total_update [OF it] items_total_erase [OF it])
qed

section \<open>Putting in and taking out\<close>

text \<open>What is in all chests of a map.\<close>

definition chests_total :: "chest list \<Rightarrow> int \<Rightarrow> int" where
  "chests_total ces item = (\<Sum>ce\<leftarrow>ces. chest_total ce item)"

lemma chests_total_simps [simp]:
  "chests_total [] item = 0"
  "chests_total (ce # ces) item = chest_total ce item + chests_total ces item"
  by (simp_all add: chests_total_def)

lemma chest_add_to_conserves:
  assumes "inventory_ok c" "stacks_ok (ch_trade_inventory c)" "chest_ok ce"
    and "chest_add_to g here me item amount c ce = (c', ce', ms)"
  shows "inventory_ok c' \<and> chest_ok ce' \<and> owned c' i + chest_total ce' i = owned c i + chest_total ce i"
proof (cases "c' = c \<and> ce' = ce")
  case False
  define n where "n = min amount (gm_MaxChest g - chest_has_item (s16 item) ce)"
  obtain ce1 r where add: "chest_add_item (s16 item) n 0 ce = (ce1, r)" by (rule prod.exhaust)
  with False assms(4) have r: "n \<le> has_item (s16 item) False c" "r \<noteq> 0"
    "c' = fst (del_item g (s16 item) n c)" "ce' = ce1"
    by (auto simp: chest_add_to_def n_def [symmetric] Let_def split: if_splits)
  have own: "n \<le> owned c (s16 item)" using r has_item_le_owned [OF assms(1,2), of "s16 item" False] by linarith
  moreover have "owned c (s16 item) \<le> int_max"
    using assms(1) ints_ok_find [of "ch_inventory c" "s16 item"]
    by (auto simp: owned_find inventory_ok_def int_max_def split: option.split)
  ultimately have "n \<le> int_max" by simp
  from chest_add_item_spec [OF assms(3) this add] r
  have "chest_ok ce'" "0 < n" "chest_total ce' = (chest_total ce)(s16 item := chest_total ce (s16 item) + n)"
    by auto
  with del_item_spec [OF assms(1) _ own, of g] r(3) show ?thesis by simp
qed (use assms in simp)

lemma chest_add_loop_conserves:
  assumes "inventory_ok c" "stacks_ok (ch_trade_inventory c)"
  shows "list_all chest_ok ces \<Longrightarrow> chest_add_loop g here me x y item amount c ces = (c', ces', ms) \<Longrightarrow>
    inventory_ok c' \<and> list_all chest_ok ces' \<and> owned c' i + chests_total ces' i = owned c i + chests_total ces i"
proof (induction ces arbitrary: c' ces' ms)
  case (Cons ce ces)
  then show ?case
    using chest_add_to_conserves [OF assms, of ce g here me item amount _ _ _ i]
    by (fastforce split: if_splits prod.splits)
qed (use assms in simp)

lemma chest_take_loop_conserves:
  assumes "inventory_ok c"
  shows "list_all chest_ok ces \<Longrightarrow> chest_take_loop g here me now x y item c ces = (c', ces', ms) \<Longrightarrow>
    list_all (\<lambda>ce. let n = can_hold_item g (s16 item) (chest_has_item (s16 item) ce) c
                in 0 < n \<longrightarrow> inventory_room g c (s16 item) n) ces \<Longrightarrow>
    inventory_ok c' \<and> list_all chest_ok ces' \<and> owned c' i + chests_total ces' i = owned c i + chests_total ces i"
proof (induction ces arbitrary: c' ces' ms)
  case (Cons ce ces)
  define n where "n = can_hold_item g (s16 item) (chest_has_item (s16 item) ce) c"
  show ?case
  proof (cases "ce_x ce = x \<and> ce_y ce = y \<and> 0 < n")
    case True
    then have r: "c' = fst (add_item g (s16 item) n c)"
        "ces' = fst (chest_del_some_item now (s16 item) n ce) # ces" "0 < n"
      using Cons.prems(2) by (auto simp: n_def Let_def)
    have "0 \<le> chest_has_item (s16 item) ce"
      using Cons.prems(1) chest_find_SomeD by (fastforce simp: chest_has_item_def chest_ok_def split: option.split)
    then have "n \<le> chest_has_item (s16 item) ce" by (auto simp: n_def can_hold_item_def Let_def)
    with chest_del_some_item_spec [of ce n "s16 item" now] add_item_spec [OF assms r(3), of g "s16 item"] r Cons.prems
    show ?thesis by (simp add: n_def [symmetric] Let_def)
  next
    case False
    then show ?thesis using Cons by (auto simp: n_def [symmetric] Let_def split: prod.splits)
  qed
qed (use assms in simp)

text \<open>C33: Items moved between a character and the chests of a map are conserved: for every item, what the
  character owns and what is in all chests together are the same before and after a request to put in or
  to take out, and chests and inventory stay well formed. For a request to take out, what the character
  can hold must fit its inventory.\<close>

theorem chest_conserves:
  assumes "inventory_ok c" "stacks_ok (ch_trade_inventory c)" "list_all chest_ok (mp_chests m)"
    and "r = chest_add g here me m x y item amount c \<or> r = chest_take g here me now m x y item c"
    and "list_all (\<lambda>ce. let n = can_hold_item g (s16 item) (chest_has_item (s16 item) ce) c
                in 0 < n \<longrightarrow> inventory_room g c (s16 item) n) (mp_chests m)"
  shows "case r of (c', m', ms) \<Rightarrow> inventory_ok c' \<and> list_all chest_ok (mp_chests m')
    \<and> owned c' i + chests_total (mp_chests m') i = owned c i + chests_total (mp_chests m) i"
  using assms(4)
proof
  assume "r = chest_add g here me m x y item amount c"
  then show ?thesis
    using assms(1,3) chest_add_loop_conserves [OF assms(1-3), of g here me x y item amount]
    by (auto simp: chest_add_def split: prod.split)
next
  assume "r = chest_take g here me now m x y item c"
  then show ?thesis
    using assms(1,3) chest_take_loop_conserves [OF assms(1,3) _ assms(5)]
    by (auto simp: chest_take_def split: prod.split)
qed

definition sample_chest :: chest where
  "sample_chest = \<lparr>ce_x = 5, ce_y = 4, ce_items = [\<lparr>ct_id = 2, ct_amount = 7, ct_slot = 1\<rparr>],
     ce_spawns = [\<lparr>cs_slot = 1, cs_last_taken = 0\<rparr>], ce_slots = 1, ce_maxchest = 100, ce_chestslots = 5,
     ce_key = 0\<rparr>"

definition sample_chest_map :: gmap where
  "sample_chest_map = \<lparr>mp_width = 8, mp_height = 8,
     mp_tiles = (replicate 64 \<lparr>tl_spec = Tile_None, tl_warp = False\<rparr>)[37 := \<lparr>tl_spec = Chest, tl_warp = False\<rparr>],
     mp_npcs = [], mp_chests = [sample_chest]\<rparr>"

lemmas sample_chest_defs = sample_chest_map_def sample_chest_def sample_defs

lemma sample_at_chest: "at_chest sample_chest_map 5 4 (sample_chr items)"
  by (simp add: at_chest_def path_length_def get_spec_def get_tile_def in_bounds_def sample_chest_defs u8_def)

theorem chest_conserves_witness:
  "case chest_take sample_game [] 7 99 sample_chest_map 5 4 2 ((sample_chr [(2, 40)])\<lparr>ch_weight := 75\<rparr>) of
     (c, m, _) \<Rightarrow> owned c 2 = 45 \<and> chests_total (mp_chests m) 2 = 2"
proof -
  let ?c = "(sample_chr [(2, 40)])\<lparr>ch_weight := 75\<rparr>"
  obtain c m ms where r: "chest_take sample_game [] 7 99 sample_chest_map 5 4 2 ?c = (c, m, ms)"
    by (rule prod_cases3)
  have n: "can_hold_item sample_game 2 7 ?c = 5" "s16 2 = 2"
    by (simp_all add: can_hold_item_def Let_def sample_defs s16_def)
  have at: "at_chest sample_chest_map 5 4 ?c"
    using sample_at_chest [of "[(2, 40)]"] by (simp add: at_chest_def)
  have m: "chests_total (mp_chests m) 2 = 2"
    using r at n by (auto simp: chest_take_def chest_has_item_def sample_chest_def chest_del_some_item_def
        chest_total_def Let_def sample_chest_map_def)
  have "inventory_ok ?c" "stacks_ok (ch_trade_inventory ?c)" "inventory_room sample_game ?c 2 5"
    "chest_ok sample_chest" "mp_chests sample_chest_map = [sample_chest]" "chest_has_item 2 sample_chest = 7"
    "owned ?c 2 = 40" "chest_total sample_chest 2 = 7"
    by (simp_all add: inventory_ok_def inventory_room_def item_exists_def owned_def chest_ok_def
        chest_has_item_def chest_total_def sample_chest_defs int_max_def)
  then have "owned c 2 + chests_total (mp_chests m) 2 = 47"
    using chest_conserves [of ?c sample_chest_map "(c, m, ms)" sample_game "[]" 7 5 4 2 0 99 2] r n by simp
  with m r show ?thesis by simp
qed

text \<open>The same map with no chest locked.\<close>

definition unlock :: "gmap \<Rightarrow> gmap" where
  "unlock m = m\<lparr>mp_chests := map (\<lambda>ce. ce\<lparr>ce_key := 0\<rparr>) (mp_chests m)\<rparr>"

definition unlock_chest :: "chest \<Rightarrow> chest" where
  "unlock_chest ce = ce\<lparr>ce_key := 0\<rparr>"

lemma unlock_chests: "mp_chests (unlock m) = map unlock_chest (mp_chests m)"
  by (simp add: unlock_def unlock_chest_def)

lemma unlock_chest_simps [simp]:
  "ce_x (unlock_chest ce) = ce_x ce" "ce_y (unlock_chest ce) = ce_y ce" "ce_items (unlock_chest ce) = ce_items ce"
  "chest_has_item item (unlock_chest ce) = chest_has_item item ce"
  "chest_list (unlock_chest ce) = chest_list ce"
  "chest_update_packet here me (unlock_chest ce) = chest_update_packet here me ce"
  by (simp_all add: unlock_chest_def chest_has_item_def chest_list_def chest_update_packet_def cong: if_cong)

lemma add_item_unlocked:
  "chest_add_item item n slot (unlock_chest ce) = map_prod unlock_chest id (chest_add_item item n slot ce)"
  by (auto simp: unlock_chest_def chest_add_item_def chest_add_new_def Let_def split: option.split)

lemma del_some_unlocked:
  "chest_del_some_item now item n (unlock_chest ce) = map_prod unlock_chest id (chest_del_some_item now item n ce)"
  by (auto simp: unlock_chest_def chest_del_some_item_def chest_del_item_def split: option.split)

lemma at_chest_unlock: "at_chest (unlock m) x y c = at_chest m x y c"
  by (simp add: unlock_def at_chest_def get_spec_def get_tile_def in_bounds_def)

lemma chest_take_unlocked:
  "chest_take_loop g here me now x y item c (map unlock_chest ces)
     = map_prod id (map_prod (map unlock_chest) id) (chest_take_loop g here me now x y item c ces)"
  by (induction ces) (auto simp: Let_def del_some_unlocked map_prod_def split: prod.split)

lemma chest_add_to_unlocked:
  "chest_add_to g here me item amount c (unlock_chest ce)
     = map_prod id (map_prod unlock_chest id) (chest_add_to g here me item amount c ce)"
  by (auto simp: chest_add_to_def Let_def add_item_unlocked map_prod_def split: prod.split)

lemma chest_add_unlocked:
  "chest_add_loop g here me x y item amount c (map unlock_chest ces)
     = map_prod id (map_prod (map unlock_chest) id) (chest_add_loop g here me x y item amount c ces)"
  by (induction ces) (auto simp: chest_add_to_unlocked map_prod_def split: prod.split)

text \<open>C34: The key of a chest guards only the packet that opens it. A player without the key who opens a locked chest
  gets one packet, which names the key (or \<open>N\<close> where no item is that key), and nothing else. But the requests to
  put in and to take out do not look at any lock: with whatever keys, they do to the player, to the chests and
  in the packets that they send exactly what they do when all chests are unlocked.\<close>

theorem lock_guards_only_opening:
  fixes g :: game
  assumes "find (\<lambda>ce. ce_x ce = x \<and> ce_y ce = y) (mp_chests m) = Some ce" "0 < ce_key ce"
  defines "key_item \<equiv> eif_get_key (gm_eif g) (ce_key ce)"
  shows "(key_item = 0 \<or> has_item (s16 (int key_item)) False c = 0 \<longrightarrow> at_chest m x y c \<longrightarrow>
      chest_open g me m x y c
        = [mk_message me PACKET_CHEST PACKET_CLOSE (if key_item = 0 then fstring ''N'' else [fshort (ce_key ce)])])
    \<and> chest_take g here me now (unlock m) x' y' item c
        = map_prod id (map_prod unlock id) (chest_take g here me now m x' y' item c)
    \<and> chest_add g here me (unlock m) x' y' item amount c
        = map_prod id (map_prod unlock id) (chest_add g here me m x' y' item amount c)"
proof -
  have "unlock m\<lparr>mp_chests := map unlock_chest ces\<rparr> = unlock (m\<lparr>mp_chests := ces\<rparr>)" for ces
    by (simp add: unlock_def unlock_chest_def)
  then show ?thesis
    using assms
    by (auto simp: chest_open_def chest_take_def chest_add_def at_chest_unlock unlock_chests chest_take_unlocked
        chest_add_unlocked map_prod_def Let_def split: prod.split)
qed

theorem lock_guards_only_opening_witness:
  "chest_open sample_game 7 (sample_chest_map\<lparr>mp_chests := [sample_chest\<lparr>ce_key := 1\<rparr>]\<rparr>) 5 4 (sample_chr [])
     = [mk_message 7 PACKET_CHEST PACKET_CLOSE (fstring ''N'')]
   \<and> fst (chest_take sample_game [] 7 99 (sample_chest_map\<lparr>mp_chests := [sample_chest\<lparr>ce_key := 1\<rparr>]\<rparr>) 5 4 2 (sample_chr []))
     = fst (add_item sample_game 2 7 (sample_chr []))"
proof -
  let ?m = "sample_chest_map\<lparr>mp_chests := [sample_chest\<lparr>ce_key := 1\<rparr>]\<rparr>"
  have m: "unlock ?m = sample_chest_map" by (simp add: unlock_def sample_chest_map_def sample_chest_def)
  have no_key: "eif_get_key (gm_eif sample_game) 1 = 0"
    by (simp add: eif_get_key_def sample_game_def sample_items_def eif_default_def)
  have found: "find (\<lambda>ce. ce_x ce = 5 \<and> ce_y ce = 4) (mp_chests ?m) = Some (sample_chest\<lparr>ce_key := 1\<rparr>)"
    by (simp add: sample_chest_def)
  have at: "at_chest ?m 5 4 (sample_chr [])"
    using sample_at_chest [of "[]"] m at_chest_unlock [of ?m] by simp
  have n: "can_hold_item sample_game 2 7 (sample_chr []) = 7" "s16 2 = 2"
    by (simp_all add: can_hold_item_def Let_def sample_defs s16_def)
  note key = lock_guards_only_opening [OF found, of sample_game "sample_chr []" 7 "[]" 99 5 4 2 0]
  have "chest_open sample_game 7 ?m 5 4 (sample_chr []) = [mk_message 7 PACKET_CHEST PACKET_CLOSE (fstring ''N'')]"
    using key at no_key by simp
  moreover have "fst (chest_take sample_game [] 7 99 ?m 5 4 2 (sample_chr []))
      = fst (chest_take sample_game [] 7 99 sample_chest_map 5 4 2 (sample_chr []))"
    using key m by simp
  moreover have "at_chest sample_chest_map 5 4 (sample_chr [])" by (rule sample_at_chest)
  ultimately show ?thesis
    using n by (auto simp: chest_take_def chest_has_item_def Let_def sample_chest_map_def sample_chest_def)
qed

end
