(* ===== verification/Shop.thy ===== *)
theory Shop
  imports World_Map
begin

text \<open>
  Shops (\<^verbatim>\<open>src/handlers/Shop.cpp\<close>): crafting, buying, selling and opening the list of a shop. The NPC
  is the one that the character talked to last, found under its position on the map.
\<close>

section \<open>The packets\<close>

definition shop_npc :: "gmap \<Rightarrow> chr \<Rightarrow> npc" where
  "shop_npc m c = mp_npcs m ! ch_npc c"

text \<open>The ingredients go one by one, each reported with what is left of it.\<close>

fun use_ingredients :: "game \<Rightarrow> item_stack list \<Rightarrow> chr \<Rightarrow> chr \<times> field list" where
  "use_ingredients g [] c = (c, [])"
| "use_ingredients g (ing # ings) c =
     (let c1 = fst (del_item g (st_id ing) (st_amount ing) c)
      in case use_ingredients g ings c1 of
           (c2, fs) \<Rightarrow> (c2, fshort (st_id ing) # fint (has_item (st_id ing) False c1) # fs))"

definition has_ingredients :: "item_stack list \<Rightarrow> chr \<Rightarrow> bool" where
  "has_ingredients ings c = list_all (\<lambda>ing. \<not> has_item (st_id ing) False c < st_amount ing) ings"

definition craft_one :: "game \<Rightarrow> nat \<Rightarrow> int \<Rightarrow> shop_craft_item \<Rightarrow> chr \<Rightarrow> handler_result" where
  "craft_one g me item r c =
     (if cr_id r = item \<and> has_ingredients (cr_ingredients r) c
      then case use_ingredients g (cr_ingredients r) c of
             (c1, fs) \<Rightarrow>
               (fst (add_item g (cr_id r) 1 c1),
                [mk_message me PACKET_SHOP PACKET_CREATE
                   ([fshort item, fchar (ch_weight c), fchar (ch_maxweight c)] @ fs)])
      else (c, []))"

fun craft_loop :: "game \<Rightarrow> nat \<Rightarrow> int \<Rightarrow> shop_craft_item list \<Rightarrow> chr \<Rightarrow> handler_result" where
  "craft_loop g me item [] c = (c, [])"
| "craft_loop g me item (r # rs) c =
     (case craft_one g me item r c of
        (c1, ms1) \<Rightarrow> case craft_loop g me item rs c1 of (c2, ms2) \<Rightarrow> (c2, ms1 @ ms2))"

definition shop_create :: "game \<Rightarrow> nat \<Rightarrow> gmap \<Rightarrow> int \<Rightarrow> chr \<Rightarrow> handler_result" where
  "shop_create g me m item c =
     (if ch_trading c then (c, [])
      else if ch_npc_type c = ENF_Shop then craft_loop g me item (np_shop_craft (shop_npc m c)) c
      else (c, []))"

text \<open>The price is computed in 64 bits, so that it does not overflow.\<close>

definition shop_buy :: "game \<Rightarrow> nat \<Rightarrow> gmap \<Rightarrow> int \<Rightarrow> int \<Rightarrow> chr \<Rightarrow> handler_result" where
  "shop_buy g me m item amount c =
     (if ch_trading c then (c, [])
      else if amount \<le> 0 \<or> gm_MaxShopBuy g < amount then (c, [])
      else if ch_maxweight c \<le> ch_weight c then (c, [])
      else if ch_npc_type c = ENF_Shop
      then case find (\<lambda>t. tr_id t = item \<and> tr_buy t \<noteq> 0) (np_shop_trade (shop_npc m c)) of
             None \<Rightarrow> (c, [])
           | Some t \<Rightarrow>
               let cost = amount * tr_buy t
               in if cost < 0 \<or> gm_MaxItem g < cost then (c, [])
                  else if has_item 1 False c < cost then (c, [])
                  else
                    let c1 = fst (add_item g item amount (fst (del_item g 1 cost c)))
                    in (c1, [mk_message me PACKET_SHOP PACKET_BUY
                               [fint (has_item 1 False c1), fshort item, fint amount,
                                fchar (ch_weight c1), fchar (ch_maxweight c1)]])
      else (c, []))"

definition shop_sell :: "game \<Rightarrow> nat \<Rightarrow> gmap \<Rightarrow> int \<Rightarrow> int \<Rightarrow> chr \<Rightarrow> handler_result" where
  "shop_sell g me m item amount c =
     (if ch_trading c then (c, [])
      else if amount \<le> 0 \<or> gm_MaxItem g < amount then (c, [])
      else if ch_npc_type c = ENF_Shop
      then case find (\<lambda>t. tr_id t = item \<and> tr_sell t \<noteq> 0) (np_shop_trade (shop_npc m c)) of
             None \<Rightarrow> (c, [])
           | Some t \<Rightarrow>
               let owed = amount * tr_sell t
               in if owed < 0 \<or> gm_MaxItem g - has_item 1 False c < owed then (c, [])
                  else if has_item item False c < amount then (c, [])
                  else
                    let c1 = fst (add_item g 1 owed (fst (del_item g item amount c)))
                    in (c1, [mk_message me PACKET_SHOP PACKET_SELL
                               [fint (has_item item False c1), fshort item, fint (has_item 1 False c1),
                                fchar (ch_weight c1), fchar (ch_maxweight c1)]])
      else (c, []))"

definition trade_fields :: "game \<Rightarrow> shop_trade_item \<Rightarrow> field list" where
  "trade_fields g t = [fshort (tr_id t), fthree (tr_buy t), fthree (tr_sell t), fchar (gm_MaxShopBuy g)]"

definition craft_fields :: "shop_craft_item \<Rightarrow> field list" where
  "craft_fields r =
     fshort (cr_id r)
     # concat (map (\<lambda>ing. [fshort (st_id ing), fchar (st_amount ing)]) (cr_ingredients r))
     @ concat (replicate (4 - length (cr_ingredients r)) [fshort 0, fchar 0])"

definition shop_open :: "game \<Rightarrow> nat \<Rightarrow> gmap \<Rightarrow> int \<Rightarrow> chr \<Rightarrow> handler_result" where
  "shop_open g me m idx c =
     (case find_npc (\<lambda>n. np_index n = s16 idx \<and> (np_shop_trade n \<noteq> [] \<or> np_shop_craft n \<noteq> [])) 0 (mp_npcs m) of
        None \<Rightarrow> (c, [])
      | Some (i, n) \<Rightarrow>
          (c\<lparr>ch_npc := i, ch_npc_type := ENF_Shop\<rparr>,
           [mk_message me PACKET_SHOP PACKET_OPEN
              ([fshort (np_id n), fbreak (np_shop_name n)]
               @ concat (map (trade_fields g) (np_shop_trade n)) @ [FByte 255]
               @ concat (map craft_fields (np_shop_craft n)) @ [FByte 255])]))"

section \<open>What shopping does to the inventory\<close>

text \<open>The reference: \<open>n\<close> of one item against \<open>k\<close> of another, and the use of a list of ingredients.\<close>

definition barter :: "int \<Rightarrow> int \<Rightarrow> int \<Rightarrow> int \<Rightarrow> (int \<Rightarrow> int) \<Rightarrow> int \<Rightarrow> int" where
  "barter a n b k own = (let own1 = own(a := own a - n) in own1(b := own1 b + k))"

lemma barter_exact:
  assumes "inventory_ok c" "0 < n" "n \<le> owned c a" "0 < k"
    and "inventory_room g (fst (del_item g a n c)) b k"
  shows "inventory_ok (fst (add_item g b k (fst (del_item g a n c))))
    \<and> owned (fst (add_item g b k (fst (del_item g a n c)))) = barter a n b k (owned c)"
  using del_item_spec [OF assms(1-3), of g] add_item_spec [OF _ assms(4,5)] by (simp add: barter_def Let_def)

text \<open>C35: Selling is an exact exchange at the listed price. Either the request changes nothing, or the
  shop lists the item at a price, the character had the amount, loses exactly it and gains exactly
  amount times price in gold; the gold always fits. This needs no more than that gold exists and that
  no stack is beyond the limit.\<close>

theorem shop_sell_exact:
  assumes "inventory_ok c" "item_exists g 1" "0 \<le> owned c 1" "owned c 1 \<le> gm_MaxItem g" "gm_MaxItem g \<le> int_max"
  shows "fst (shop_sell g me m item n c) = c
    \<or> (\<exists>t\<in>set (np_shop_trade (shop_npc m c)). tr_id t = item \<and> 0 < n \<and> n \<le> owned c item \<and> 0 < tr_sell t
        \<and> inventory_ok (fst (shop_sell g me m item n c))
        \<and> owned (fst (shop_sell g me m item n c)) = barter item n 1 (n * tr_sell t) (owned c))"
proof (cases "fst (shop_sell g me m item n c) = c")
  case False
  then obtain t where c: "\<not> ch_trading c" "0 < n"
      and t: "find (\<lambda>t. tr_id t = item \<and> tr_sell t \<noteq> 0) (np_shop_trade (shop_npc m c)) = Some t"
      and owed: "0 \<le> n * tr_sell t" "n * tr_sell t \<le> gm_MaxItem g - has_item 1 False c" "n \<le> has_item item False c"
      and r: "fst (shop_sell g me m item n c) = fst (add_item g 1 (n * tr_sell t) (fst (del_item g item n c)))"
    unfolding shop_sell_def Let_def by (auto split: if_splits option.splits)
  have t': "t \<in> set (np_shop_trade (shop_npc m c))" "tr_id t = item" "tr_sell t \<noteq> 0"
    using t by (auto simp: find_Some_iff)
  have pos: "0 < tr_sell t" "0 < n * tr_sell t" using owed(1) t'(3) c(2)
    by (simp_all add: zero_le_mult_iff)
  have own: "n \<le> owned c item" "n * tr_sell t + owned c 1 \<le> gm_MaxItem g"
    using owed c(1) by (simp_all add: has_item_owned [OF assms(1)])
  have "inventory_room g (fst (del_item g item n c)) 1 (n * tr_sell t)"
    using del_item_spec [OF assms(1) c(2) own(1), of g] own assms c(2) by (auto simp: inventory_room_def)
  from barter_exact [OF assms(1) c(2) own(1) pos(2) this] t' c(2) own(1) pos(1) show ?thesis
    unfolding r by blast
qed simp

text \<open>Buying is the same exchange the other way round, but only when what is bought fits the
  inventory; the price is paid in any case.\<close>

theorem shop_buy_exact:
  assumes "inventory_ok c" "item \<noteq> 1" "0 < n \<Longrightarrow> inventory_room g c item n"
  shows "fst (shop_buy g me m item n c) = c
    \<or> (\<exists>t\<in>set (np_shop_trade (shop_npc m c)). tr_id t = item \<and> 0 < n \<and> n \<le> gm_MaxShopBuy g
        \<and> 0 < tr_buy t \<and> n * tr_buy t \<le> owned c 1
        \<and> inventory_ok (fst (shop_buy g me m item n c))
        \<and> owned (fst (shop_buy g me m item n c)) = barter 1 (n * tr_buy t) item n (owned c))"
proof (cases "fst (shop_buy g me m item n c) = c")
  case False
  then obtain t where c: "\<not> ch_trading c" "0 < n" "n \<le> gm_MaxShopBuy g"
      and t: "find (\<lambda>t. tr_id t = item \<and> tr_buy t \<noteq> 0) (np_shop_trade (shop_npc m c)) = Some t"
      and cost: "0 \<le> n * tr_buy t" "n * tr_buy t \<le> has_item 1 False c"
      and r: "fst (shop_buy g me m item n c) = fst (add_item g item n (fst (del_item g 1 (n * tr_buy t) c)))"
    unfolding shop_buy_def Let_def by (auto split: if_splits option.splits)
  have t': "t \<in> set (np_shop_trade (shop_npc m c))" "tr_id t = item" "tr_buy t \<noteq> 0"
    using t by (auto simp: find_Some_iff)
  have pos: "0 < tr_buy t" "0 < n * tr_buy t" using cost(1) t'(3) c(2) by (simp_all add: zero_le_mult_iff)
  have own: "n * tr_buy t \<le> owned c 1" using cost c(1) by (simp add: has_item_owned [OF assms(1)])
  have "inventory_room g (fst (del_item g 1 (n * tr_buy t) c)) item n"
    using del_item_spec [OF assms(1) pos(2) own, of g] assms(2) assms(3) [OF c(2)] by (simp add: inventory_room_def)
  from barter_exact [OF assms(1) pos(2) own c(2) this] t' c(2,3) own pos(1) show ?thesis
    unfolding r by blast
qed simp

text \<open>Crafting uses up every ingredient and yields one item, when each ingredient is listed once.\<close>

lemma use_ingredients_spec:
  assumes "inventory_ok c" "stacks_ok ings" "list_all (\<lambda>ing. st_amount ing \<le> owned c (st_id ing)) ings"
  shows "inventory_ok (fst (use_ingredients g ings c))
    \<and> owned (fst (use_ingredients g ings c)) = (\<lambda>i. owned c i - amount_of ings i)"
  using assms
proof (induction ings arbitrary: c)
  case (Cons ing ings)
  then have d: "inventory_ok (fst (del_item g (st_id ing) (st_amount ing) c))"
    "owned (fst (del_item g (st_id ing) (st_amount ing) c))
       = (owned c)(st_id ing := owned c (st_id ing) - st_amount ing)"
    using del_item_spec [of c "st_amount ing" "st_id ing" g] by auto
  have "list_all (\<lambda>i. st_amount i \<le> owned (fst (del_item g (st_id ing) (st_amount ing) c)) (st_id i)) ings"
    using Cons.prems d by (auto simp: list_all_iff image_iff)
  from Cons.IH [OF d(1) _ this] Cons.prems d(2) show ?case
    by (auto simp: Let_def fun_eq_iff split: prod.split)
qed simp

text \<open>Crafting from a recipe whose ingredients are listed once uses up exactly the ingredients and
  yields exactly one item, when that fits the inventory; with an ingredient missing nothing happens.\<close>

theorem craft_exact:
  assumes "inventory_ok c" "\<not> ch_trading c" "stacks_ok (cr_ingredients r)"
    and "inventory_room g (fst (use_ingredients g (cr_ingredients r) c)) (cr_id r) 1"
  shows "fst (craft_one g me item r c) = c
      \<and> (cr_id r \<noteq> item \<or> \<not> list_all (\<lambda>ing. st_amount ing \<le> owned c (st_id ing)) (cr_ingredients r))
    \<or> inventory_ok (fst (craft_one g me item r c))
      \<and> owned (fst (craft_one g me item r c))
          = (\<lambda>i. owned c i - amount_of (cr_ingredients r) i + (if i = cr_id r then 1 else 0))"
proof (cases "cr_id r = item \<and> has_ingredients (cr_ingredients r) c")
  case True
  then have "list_all (\<lambda>ing. st_amount ing \<le> owned c (st_id ing)) (cr_ingredients r)"
    using assms(2) by (simp add: has_ingredients_def has_item_owned [OF assms(1)] not_less)
  from use_ingredients_spec [OF assms(1,3) this, of g] add_item_spec [OF _ _ assms(4)] True
  show ?thesis by (auto simp: craft_one_def fun_eq_iff split: prod.split)
next
  case False
  then show ?thesis using assms(2)
    by (auto simp: craft_one_def has_ingredients_def has_item_owned [OF assms(1)] not_less)
qed

section \<open>A shop\<close>

definition sample_shop :: gmap where
  "sample_shop = \<lparr>mp_width = 8, mp_height = 8, mp_tiles = replicate 64 \<lparr>tl_spec = Tile_None, tl_warp = False\<rparr>,
     mp_npcs = [\<lparr>np_index = 1, np_id = 9, np_type = ENF_Shop, np_shop_name = ''shop'',
       np_shop_trade = [\<lparr>tr_id = 2, tr_buy = 5, tr_sell = 3\<rparr>],
       np_shop_craft = [\<lparr>cr_id = 3, cr_ingredients = [\<lparr>st_id = 1, st_amount = 10\<rparr>, \<lparr>st_id = 2, st_amount = 4\<rparr>]\<rparr>]\<rparr>],
     mp_chests = []\<rparr>"

abbreviation customer :: chr where
  "customer \<equiv> (sample_chr [(1, 100), (2, 8)])\<lparr>ch_npc_type := ENF_Shop\<rparr>"

lemma customer_ok: "inventory_ok customer" "owned customer = (\<lambda>i. if i = 1 then 100 else if i = 2 then 8 else 0)"
  by (auto simp: inventory_ok_def owned_def sample_chr_def int_max_def)

lemma customer_shop: "np_shop_trade (shop_npc sample_shop customer) = [\<lparr>tr_id = 2, tr_buy = 5, tr_sell = 3\<rparr>]"
  by (simp add: shop_npc_def sample_shop_def sample_chr_def)

lemma sample_exist: "item_exists sample_game 1" "item_exists sample_game 2" "item_exists sample_game 3"
  by (simp_all add: item_exists_def sample_defs)

lemma customer_sel:
  "ch_inventory customer = [\<lparr>st_id = 1, st_amount = 100\<rparr>, \<lparr>st_id = 2, st_amount = 8\<rparr>]"
  "\<not> ch_trading customer" "ch_npc_type customer = ENF_Shop" "ch_weight customer = 0" "ch_maxweight customer = 80"
  "gm_MaxItem sample_game = 2000000000" "gm_MaxShopBuy sample_game = 4"
  by (simp_all add: sample_chr_def sample_game_def)

lemmas customer_runs = customer_shop customer_sel has_item_def add_item_def del_item_def sample_exist s32_def Let_def

theorem shop_sell_exact_witness:
  "owned (fst (shop_sell sample_game 7 sample_shop 2 6 customer)) 1 = 118"
proof -
  let ?c' = "fst (shop_sell sample_game 7 sample_shop 2 6 customer)"
  have "ch_inventory ?c' \<noteq> ch_inventory customer"
    unfolding shop_sell_def by (simp add: customer_runs del: add_item_frame del_item_frame)
  then have "?c' \<noteq> customer" by auto
  with shop_sell_exact [OF customer_ok(1) sample_exist(1), of 7 sample_shop 2 6] show ?thesis
    by (simp add: customer_shop customer_ok customer_sel barter_def Let_def int_max_def)
qed

theorem shop_buy_exact_witness:
  "owned (fst (shop_buy sample_game 7 sample_shop 2 4 customer)) 2 = 12"
proof -
  let ?c' = "fst (shop_buy sample_game 7 sample_shop 2 4 customer)"
  have "ch_inventory ?c' \<noteq> ch_inventory customer"
    unfolding shop_buy_def by (simp add: customer_runs del: add_item_frame del_item_frame)
  then have "?c' \<noteq> customer" by auto
  moreover have "inventory_room sample_game customer 2 4"
    by (simp add: inventory_room_def sample_exist customer_ok customer_sel int_max_def)
  ultimately show ?thesis
    using shop_buy_exact [OF customer_ok(1), of 2 4 sample_game 7 sample_shop]
    by (simp add: customer_shop customer_ok barter_def Let_def)
qed

abbreviation sample_recipe :: shop_craft_item where
  "sample_recipe \<equiv> \<lparr>cr_id = 3, cr_ingredients = [\<lparr>st_id = 1, st_amount = 10\<rparr>, \<lparr>st_id = 2, st_amount = 4\<rparr>]\<rparr>"

theorem craft_exact_witness:
  "owned (fst (craft_one sample_game 7 3 sample_recipe customer)) 1 = 90
   \<and> owned (fst (craft_one sample_game 7 3 sample_recipe customer)) 3 = 1"
proof -
  let ?c' = "fst (craft_one sample_game 7 3 sample_recipe customer)"
  have own: "owned (fst (use_ingredients sample_game (cr_ingredients sample_recipe) customer)) 3 = 0"
    using use_ingredients_spec [OF customer_ok(1), of "cr_ingredients sample_recipe" sample_game] by (simp add: customer_ok)
  have "owned ?c' = (\<lambda>i. owned customer i - amount_of (cr_ingredients sample_recipe) i + (if i = 3 then 1 else 0))"
    using craft_exact [OF customer_ok(1), of sample_recipe sample_game 7 3] own
    by (simp add: inventory_room_def sample_exist customer_ok customer_sel int_max_def)
  then show ?thesis by (simp add: customer_ok)
qed

text \<open>An ingredient that a recipe lists twice is looked for twice, not added up: eight of it pass the test
  for six and six.\<close>

lemma repeated_ingredient_passes:
  "has_ingredients [\<lparr>st_id = 2, st_amount = 6\<rparr>, \<lparr>st_id = 2, st_amount = 6\<rparr>] customer \<and> owned customer 2 = 8"
  by (simp add: has_ingredients_def has_item_def customer_sel customer_ok)

end
