(* ===== verification/Party.thy ===== *)
theory Party
  imports World_Map Util
begin

text \<open>
  Parties (\<^verbatim>\<open>src/party.cpp\<close>), their packets (\<^verbatim>\<open>src/handlers/Party.cpp\<close>) and the places that use them:
  party chat, updates of health, logging out. A character is known by its player id and a party by a
  number, which stand for the pointers; characters and parties point to each other, and the result
  \<open>None\<close> of an operation is the use of a pointer to an object that is gone.
\<close>

section \<open>Characters and parties\<close>

text \<open>\<open>pc_percent\<close> is the value of \<open>int(double(hp) / double(maxhp) * 100.0)\<close>.\<close>

record pchar =
  pc_name :: string
  pc_level :: int
  pc_percent :: int
  pc_exp :: int
  pc_statpoints :: int
  pc_skillpoints :: int
  pc_map :: int
  pc_x :: int
  pc_y :: int
  pc_nowhere :: bool
  pc_muted :: bool
  pc_can_interact_combat :: bool
  pc_party :: "nat option"
  pc_trust_send :: "nat option"
  pc_trust_recv :: "nat option"
  pc_send_type :: int

record party =
  pa_members :: "nat list"
  pa_leader :: nat

text \<open>\<open>pw_next\<close> is the number of the next party that is created.\<close>

record pworld =
  pw_chars :: "nat \<rightharpoonup> pchar"
  pw_parties :: "nat \<rightharpoonup> party"
  pw_next :: nat

record pconf =
  pf_SeeDistance :: int
  pf_ChatMaxWidth :: int
  pf_ChatLength :: int
  pf_MaxLevel :: int
  pf_StatPerLevel :: int
  pf_SkillPerLevel :: int
  pf_exp_table :: "int \<Rightarrow> int"

type_synonym party_result = "(pworld \<times> message list) option"

definition upd_char :: "nat \<Rightarrow> (pchar \<Rightarrow> pchar) \<Rightarrow> pworld \<Rightarrow> pworld" where
  "upd_char c f w = w\<lparr>pw_chars := (pw_chars w)(c := map_option f (pw_chars w c))\<rparr>"

text \<open>All members of a party are there to be used.\<close>

definition live :: "pworld \<Rightarrow> party \<Rightarrow> bool" where
  "live w p \<longleftrightarrow> list_all (\<lambda>m. pw_chars w m \<noteq> None) (pa_members p)"

section \<open>The operations of a party\<close>

definition member_fields :: "party \<Rightarrow> nat \<Rightarrow> pchar \<Rightarrow> field list" where
  "member_fields p m pc =
     [fshort (int m), fchar (if m = pa_leader p then 1 else 0), fchar (pc_level pc),
      fchar (clamp (pc_percent pc) 0 100)]"

definition refresh_members :: "pworld \<Rightarrow> party \<Rightarrow> nat \<Rightarrow> bool \<Rightarrow> message" where
  "refresh_members w p c create =
     mk_message c PACKET_PARTY (if create then PACKET_CREATE else PACKET_LIST)
       (concat (map (\<lambda>m. let pc = the (pw_chars w m) in member_fields p m pc @ [fbreak (pc_name pc)])
                  (pa_members p)))"

definition party_new :: "nat \<Rightarrow> nat \<Rightarrow> pworld \<Rightarrow> party_result" where
  "party_new leader other w =
     (let p = \<lparr>pa_members = [leader, other], pa_leader = leader\<rparr>;
          i = pw_next w;
          w1 = upd_char other (\<lambda>pc. pc\<lparr>pc_party := Some i\<rparr>) (upd_char leader (\<lambda>pc. pc\<lparr>pc_party := Some i\<rparr>)
                 (w\<lparr>pw_parties := (pw_parties w)(i \<mapsto> p), pw_next := i + 1\<rparr>))
      in if live w p then Some (w1, [refresh_members w1 p leader True, refresh_members w1 p other True]) else None)"

definition party_msg :: "pconf \<Rightarrow> nat \<Rightarrow> nat \<Rightarrow> string \<Rightarrow> bool \<Rightarrow> pworld \<Rightarrow> party_result" where
  "party_msg cf i from message echo w =
     (case (pw_parties w i, pw_chars w from) of
        (Some p, Some pc) \<Rightarrow>
          if live w p
          then
            let msg = text_cap message
                        (pf_ChatMaxWidth cf - int (text_width (ucfirst (pc_name pc) @ ''  ''))) ''...''
            in Some (w, [mk_message m PACKET_TALK PACKET_OPEN (fshort (int from) # fstring msg).
                         m \<leftarrow> pa_members p, echo \<or> m \<noteq> from])
          else None
      | _ \<Rightarrow> None)"

definition party_join :: "nat \<Rightarrow> nat \<Rightarrow> pworld \<Rightarrow> party_result" where
  "party_join i c w =
     (case (pw_parties w i, pw_chars w c) of
        (Some p0, Some pc) \<Rightarrow>
          (let p = p0\<lparr>pa_members := pa_members p0 @ [c]\<rparr>;
               w1 = upd_char c (\<lambda>pc. pc\<lparr>pc_party := Some i\<rparr>) (w\<lparr>pw_parties := (pw_parties w)(i \<mapsto> p)\<rparr>)
           in if live w p
              then Some (w1, [mk_message m PACKET_PARTY PACKET_ADD (member_fields p c pc @ fstring (pc_name pc)).
                              m \<leftarrow> pa_members p, m \<noteq> c] @ [refresh_members w1 p c True])
              else None)
      | _ \<Rightarrow> None)"

text \<open>The destructor.\<close>

definition party_delete :: "nat \<Rightarrow> pworld \<Rightarrow> party_result" where
  "party_delete i w =
     (case pw_parties w i of
        None \<Rightarrow> None
      | Some p \<Rightarrow>
          if live w p
          then Some (fold (\<lambda>m. upd_char m (\<lambda>pc. pc\<lparr>pc_party := None\<rparr>)) (pa_members p)
                       (w\<lparr>pw_parties := (pw_parties w)(i := None)\<rparr>),
                     map (\<lambda>m. mk_message m PACKET_PARTY PACKET_CLOSE [FByte 255]) (pa_members p))
          else None)"

definition party_leave :: "nat \<Rightarrow> nat \<Rightarrow> pworld \<Rightarrow> party_result" where
  "party_leave i c w =
     (case pw_parties w i of
        None \<Rightarrow> None
      | Some p0 \<Rightarrow>
          if 2 < length (pa_members p0) \<and> c \<noteq> pa_leader p0
          then
            let p = p0\<lparr>pa_members := remove1 c (pa_members p0)\<rparr>;
                w1 = upd_char c (\<lambda>pc. pc\<lparr>pc_party := None\<rparr>) (w\<lparr>pw_parties := (pw_parties w)(i \<mapsto> p)\<rparr>)
            in if live w p \<and> pw_chars w c \<noteq> None
               then Some (w1, [mk_message m PACKET_PARTY PACKET_REMOVE [fshort (int c)]. m \<leftarrow> pa_members p, m \<noteq> c]
                              @ [mk_message c PACKET_PARTY PACKET_CLOSE [fshort 255]])
               else None
          else party_delete i w)"

definition update_hp :: "nat \<Rightarrow> nat \<Rightarrow> pworld \<Rightarrow> party_result" where
  "update_hp i c w =
     (case (pw_parties w i, pw_chars w c) of
        (Some p, Some pc) \<Rightarrow>
          if live w p
          then Some (w, map (\<lambda>m. mk_message m PACKET_PARTY PACKET_AGREE
                                [fshort (int c), fchar (clamp (pc_percent pc) 0 100)]) (pa_members p))
          else None
      | _ \<Rightarrow> None)"

section \<open>Sharing experience\<close>

text \<open>The quotients are rounded up. All numbers are far below \<open>2 ^ 53\<close>, where \<open>double\<close> is exact, and
  the quotients are further from the next integer than the rounding of the division.\<close>

definition ceil_div :: "int \<Rightarrow> int \<Rightarrow> int" where
  "ceil_div a b = - ((- a) div b)"

definition sharer :: "int \<Rightarrow> pchar \<Rightarrow> bool" where
  "sharer mapid pc \<longleftrightarrow> pc_can_interact_combat pc \<and> pc_map pc = mapid \<and> \<not> pc_nowhere pc"

definition share_weight :: "pchar \<Rightarrow> int" where
  "share_weight pc = (if pc_level pc = 0 then 1 else pc_level pc)"

definition share_reward :: "int \<Rightarrow> int \<Rightarrow> int \<Rightarrow> int \<Rightarrow> pchar \<Rightarrow> int" where
  "share_reward sharemode exp members sumlevel pc =
     (if sharemode = 1 then ceil_div exp members
      else if sharemode = 2 then ceil_div (exp * share_weight pc) sumlevel
      else 0)"

text \<open>A share, with the level that it may bring. \<open>CalculateStats\<close> is left out, and with it the packets by
  which \<open>UpdateHP\<close> tells the party the member's new share of hit points.\<close>

definition give_exp :: "pconf \<Rightarrow> int \<Rightarrow> nat \<Rightarrow> pworld \<Rightarrow> pworld \<times> message list" where
  "give_exp cf reward m w =
     (let pc = (the (pw_chars w m))\<lparr>pc_exp := s32 (pc_exp (the (pw_chars w m)) + reward)\<rparr>;
          level_up = (pc_level pc < pf_MaxLevel cf \<and> pf_exp_table cf (pc_level pc + 1) \<le> pc_exp pc);
          pc1 = (if level_up
                 then pc\<lparr>pc_level := u8 (pc_level pc + 1), pc_statpoints := pc_statpoints pc + pf_StatPerLevel cf,
                         pc_skillpoints := pc_skillpoints pc + pf_SkillPerLevel cf\<rparr>
                 else pc)
      in (upd_char m (\<lambda>_. pc1) w,
          [mk_message m PACKET_PARTY PACKET_TARGET_GROUP [fshort (int m), fint reward, fchar (if level_up then 1 else 0)]]))"

fun share_loop :: "pconf \<Rightarrow> int \<Rightarrow> int \<Rightarrow> int \<Rightarrow> int \<Rightarrow> int \<Rightarrow> nat list \<Rightarrow> pworld \<Rightarrow> pworld \<times> message list" where
  "share_loop cf sharemode exp mapid members sumlevel [] w = (w, [])"
| "share_loop cf sharemode exp mapid members sumlevel (m # ms) w =
     (if sharer mapid (the (pw_chars w m))
      then case give_exp cf (share_reward sharemode exp members sumlevel (the (pw_chars w m))) m w of
             (w1, out1) \<Rightarrow>
               case share_loop cf sharemode exp mapid members sumlevel ms w1 of (w2, out2) \<Rightarrow> (w2, out1 @ out2)
      else share_loop cf sharemode exp mapid members sumlevel ms w)"

definition share_exp :: "pconf \<Rightarrow> nat \<Rightarrow> int \<Rightarrow> int \<Rightarrow> int \<Rightarrow> pworld \<Rightarrow> party_result" where
  "share_exp cf i exp sharemode mapid w =
     (case pw_parties w i of
        None \<Rightarrow> None
      | Some p \<Rightarrow>
          if live w p
          then
            let pcs = filter (sharer mapid) (map (\<lambda>m. the (pw_chars w m)) (pa_members p));
                sumlevel = sum_list (map share_weight pcs);
                members = int (length pcs)
            in if members = 0 \<or> sumlevel = 0 then Some (w, [])
               else Some (share_loop cf sharemode exp mapid members sumlevel (pa_members p) w)
          else None)"

section \<open>The packets\<close>

text \<open>A handler runs only for a player that is there; nothing happens for another one.\<close>

definition then_do :: "party_result \<Rightarrow> (pworld \<Rightarrow> party_result) \<Rightarrow> party_result" where
  "then_do r k =
     (case r of None \<Rightarrow> None | Some (w, ms) \<Rightarrow> map_option (\<lambda>(w', ms'). (w', ms @ ms')) (k w))"

definition pc_in_range :: "pconf \<Rightarrow> pchar \<Rightarrow> pchar \<Rightarrow> bool" where
  "pc_in_range cf a b =
     (if pc_nowhere a \<or> pc_nowhere b then False
      else path_length (pc_x a) (pc_y a) (pc_x b) (pc_y b) \<le> pf_SeeDistance cf)"

text \<open>The character with the given id on the map of \<open>a\<close>.\<close>

definition pc_on_map :: "pworld \<Rightarrow> pchar \<Rightarrow> nat \<Rightarrow> pchar option" where
  "pc_on_map w a q =
     (case pw_chars w q of None \<Rightarrow> None | Some b \<Rightarrow> if pc_map b = pc_map a then Some b else None)"

definition party_request :: "pconf \<Rightarrow> nat \<Rightarrow> int \<Rightarrow> nat \<Rightarrow> pworld \<Rightarrow> party_result" where
  "party_request cf me ty q w =
     (case pw_chars w me of
        None \<Rightarrow> Some (w, [])
      | Some a \<Rightarrow>
          if ty \<noteq> 0 \<and> ty \<noteq> 1 then Some (w, [])
          else case pc_on_map w a q of
                 None \<Rightarrow> Some (w, [])
               | Some b \<Rightarrow>
                   if me = q \<or> \<not> pc_in_range cf a b then Some (w, [])
                   else Some (upd_char me (\<lambda>pc. pc\<lparr>pc_send_type := ty\<rparr>)
                               (upd_char q (\<lambda>pc. pc\<lparr>pc_trust_recv := Some me\<rparr>)
                                 (upd_char me (\<lambda>pc. pc\<lparr>pc_trust_send := Some q\<rparr>) w)),
                              [mk_message q PACKET_PARTY PACKET_REQUEST
                                 ([fchar ty, fshort (int me)] @ fstring (pc_name a))]))"

definition leave_own :: "nat \<Rightarrow> pworld \<Rightarrow> party_result" where
  "leave_own c w =
     (case pw_chars w c of
        None \<Rightarrow> Some (w, [])
      | Some pc \<Rightarrow> (case pc_party pc of None \<Rightarrow> Some (w, []) | Some i \<Rightarrow> party_leave i c w))"

definition found_or_join :: "nat \<Rightarrow> nat \<Rightarrow> pworld \<Rightarrow> party_result" where
  "found_or_join host guest w =
     (case pw_chars w host of
        None \<Rightarrow> None
      | Some pc \<Rightarrow> (case pc_party pc of None \<Rightarrow> party_new host guest w | Some i \<Rightarrow> party_join i guest w))"

definition regroup :: "nat \<Rightarrow> nat \<Rightarrow> int \<Rightarrow> pworld \<Rightarrow> party_result" where
  "regroup me inviter ty w =
     (if ty = 0 then then_do (leave_own inviter w) (found_or_join me inviter)
      else if ty = 1 then then_do (leave_own me w) (found_or_join inviter me)
      else Some (w, []))"

definition party_accept :: "pconf \<Rightarrow> nat \<Rightarrow> nat \<Rightarrow> pworld \<Rightarrow> party_result" where
  "party_accept cf me q w =
     (case pw_chars w me of
        None \<Rightarrow> Some (w, [])
      | Some a \<Rightarrow>
          (case pc_on_map w a q of
             None \<Rightarrow> Some (w, [])
           | Some b \<Rightarrow>
               if \<not> pc_in_range cf a b \<or> pc_trust_send b \<noteq> Some me \<or> pc_trust_recv a \<noteq> Some q then Some (w, [])
               else
                 then_do (regroup me q (pc_send_type b) w)
                   (\<lambda>w. Some (upd_char q (\<lambda>pc. pc\<lparr>pc_trust_send := None\<rparr>)
                                (upd_char me (\<lambda>pc. pc\<lparr>pc_trust_recv := None\<rparr>) w), []))))"

definition party_remove :: "nat \<Rightarrow> nat \<Rightarrow> pworld \<Rightarrow> party_result" where
  "party_remove me q w =
     (case pw_chars w me of
        None \<Rightarrow> Some (w, [])
      | Some a \<Rightarrow>
          (case pc_party a of
             None \<Rightarrow> Some (w, [])
           | Some i \<Rightarrow>
               (case pw_parties w i of
                  None \<Rightarrow> None
                | Some p \<Rightarrow>
                    if q = me \<or> me = pa_leader p
                    then (case pw_chars w q of None \<Rightarrow> Some (w, []) | Some b \<Rightarrow> party_leave i q w)
                    else Some (w, []))))"

definition party_take :: "nat \<Rightarrow> pworld \<Rightarrow> party_result" where
  "party_take me w =
     (case pw_chars w me of
        None \<Rightarrow> Some (w, [])
      | Some a \<Rightarrow>
          (case pc_party a of
             None \<Rightarrow> Some (w, [])
           | Some i \<Rightarrow>
               (case pw_parties w i of
                  None \<Rightarrow> None
                | Some p \<Rightarrow> if live w p then Some (w, [refresh_members w p me False]) else None)))"

text \<open>Party chat; the length is a \<open>size_t\<close>, so that a limit below 6 cuts nothing off.\<close>

definition limit_message :: "string \<Rightarrow> int \<Rightarrow> string" where
  "limit_message message chatlength =
     (if chatlength mod 2 ^ 64 < int (length message)
      then take (nat ((chatlength - 6) mod 2 ^ 64)) message @ '' [...]'' else message)"

definition talk_open :: "pconf \<Rightarrow> nat \<Rightarrow> string \<Rightarrow> pworld \<Rightarrow> party_result" where
  "talk_open cf me message w =
     (case pw_chars w me of
        None \<Rightarrow> Some (w, [])
      | Some a \<Rightarrow>
          (case pc_party a of
             None \<Rightarrow> Some (w, [])
           | Some i \<Rightarrow>
               if pc_muted a then Some (w, [])
               else party_msg cf i me (limit_message message (pf_ChatLength cf)) False w))"

text \<open>Where a character's health changes, and where it logs out; a new character, with an id that
  no other has, is in no party.\<close>

definition char_update_hp :: "nat \<Rightarrow> pworld \<Rightarrow> party_result" where
  "char_update_hp me w =
     (case pw_chars w me of
        None \<Rightarrow> Some (w, [])
      | Some a \<Rightarrow> (case pc_party a of None \<Rightarrow> Some (w, []) | Some i \<Rightarrow> update_hp i me w))"

definition party_logout :: "nat \<Rightarrow> pworld \<Rightarrow> party_result" where
  "party_logout me w = then_do (leave_own me w) (\<lambda>w. Some (w\<lparr>pw_chars := (pw_chars w)(me := None)\<rparr>, []))"

definition party_login :: "nat \<Rightarrow> pchar \<Rightarrow> pworld \<Rightarrow> party_result" where
  "party_login me pc w =
     Some (if pw_chars w me \<noteq> None then w
           else w\<lparr>pw_chars := (pw_chars w)(me \<mapsto> pc\<lparr>pc_party := None, pc_trust_send := None, pc_trust_recv := None\<rparr>)\<rparr>, [])"

section \<open>Events\<close>

datatype party_event =
    PReq nat int nat | PAccept nat nat | PRemove nat nat | PTake nat | PTalk nat string | PHealth nat
  | PLogout nat | PLogin nat pchar | PShare nat int int int

fun party_step :: "pconf \<Rightarrow> party_event \<Rightarrow> pworld \<Rightarrow> party_result" where
  "party_step cf (PReq me ty q) w = party_request cf me ty q w"
| "party_step cf (PAccept me q) w = party_accept cf me q w"
| "party_step cf (PRemove me q) w = party_remove me q w"
| "party_step cf (PTake me) w = party_take me w"
| "party_step cf (PTalk me s) w = talk_open cf me s w"
| "party_step cf (PHealth me) w = char_update_hp me w"
| "party_step cf (PLogout me) w = party_logout me w"
| "party_step cf (PLogin me pc) w = party_login me pc w"
| "party_step cf (PShare me exp mode mapid) w =
     (case pw_chars w me of
        None \<Rightarrow> Some (w, [])
      | Some a \<Rightarrow> (case pc_party a of None \<Rightarrow> Some (w, []) | Some i \<Rightarrow> share_exp cf i exp mode mapid w))"

fun party_run :: "pconf \<Rightarrow> party_event list \<Rightarrow> pworld \<Rightarrow> party_result" where
  "party_run cf [] w = Some (w, [])"
| "party_run cf (e # es) w = then_do (party_step cf e w) (party_run cf es)"

section \<open>Parties and their members point to each other\<close>

definition party_of :: "pworld \<Rightarrow> nat \<Rightarrow> nat option" where
  "party_of w c = Option.bind (pw_chars w c) pc_party"

definition trust_of :: "pworld \<Rightarrow> nat \<Rightarrow> nat option" where
  "trust_of w c = Option.bind (pw_chars w c) pc_trust_send"

text \<open>The members of a party are exactly the characters that have it as their party; there are at least
  two of them, the leader is one, and no character has a party that is gone. Nobody has asked
  itself to a party.\<close>

definition party_fits :: "(nat \<Rightarrow> nat option) \<Rightarrow> nat \<Rightarrow> party \<Rightarrow> bool" where
  "party_fits own i p \<longleftrightarrow> distinct (pa_members p) \<and> pa_leader p \<in> set (pa_members p)
     \<and> 2 \<le> length (pa_members p) \<and> set (pa_members p) = {m. own m = Some i}"

definition party_ok :: "pworld \<Rightarrow> bool" where
  "party_ok w \<longleftrightarrow>
     (\<forall>i p. pw_parties w i = Some p \<longrightarrow> i < pw_next w \<and> party_fits (party_of w) i p)
     \<and> (\<forall>c i. party_of w c = Some i \<longrightarrow> pw_parties w i \<noteq> None)"

definition no_self :: "pworld \<Rightarrow> bool" where
  "no_self w \<longleftrightarrow> (\<forall>c. trust_of w c \<noteq> Some c)"

lemma upd_char_sel [simp]:
  "pw_parties (upd_char c f w) = pw_parties w" "pw_next (upd_char c f w) = pw_next w"
  "dom (pw_chars (upd_char c f w)) = dom (pw_chars w)"
  by (auto simp: upd_char_def)

lemma chars_upd [simp]:
  "pw_chars (upd_char c f w) d = (if d = c then map_option f (pw_chars w c) else pw_chars w d)"
  by (simp add: upd_char_def)

lemma party_of_fields [simp]:
  "party_of (w\<lparr>pw_parties := ps\<rparr>) = party_of w" "party_of (w\<lparr>pw_next := n\<rparr>) = party_of w"
  "trust_of (w\<lparr>pw_parties := ps\<rparr>) = trust_of w" "trust_of (w\<lparr>pw_next := n\<rparr>) = trust_of w"
  by (simp_all add: party_of_def trust_of_def fun_eq_iff)

lemma party_of_upd [simp]:
  "party_of (upd_char c (\<lambda>pc. pc\<lparr>pc_party := x\<rparr>) w) = (party_of w)(c := if pw_chars w c = None then None else x)"
  by (auto simp: party_of_def fun_eq_iff)

lemma party_of_frame:
  "(\<And>pc. pw_chars w c = Some pc \<Longrightarrow> pc_party (f pc) = pc_party pc) \<Longrightarrow> party_of (upd_char c f w) = party_of w"
  by (cases "pw_chars w c") (auto simp: party_of_def fun_eq_iff)

lemma trust_of_frame:
  "(\<And>pc. pw_chars w c = Some pc \<Longrightarrow> pc_trust_send (f pc) = pc_trust_send pc) \<Longrightarrow> trust_of (upd_char c f w) = trust_of w"
  by (cases "pw_chars w c") (auto simp: trust_of_def fun_eq_iff)

lemma trust_of_upd [simp]:
  "trust_of (upd_char c (\<lambda>pc. pc\<lparr>pc_party := i\<rparr>) w) = trust_of w"
  "trust_of (upd_char c (\<lambda>pc. pc\<lparr>pc_trust_recv := x\<rparr>) w) = trust_of w"
  "trust_of (upd_char c (\<lambda>pc. pc\<lparr>pc_send_type := t\<rparr>) w) = trust_of w"
  "trust_of (upd_char c (\<lambda>pc. pc\<lparr>pc_trust_send := x\<rparr>) w) = (trust_of w)(c := if pw_chars w c = None then None else x)"
  by ((rule trust_of_frame; simp)+, auto simp: trust_of_def fun_eq_iff)

lemma party_of_trust [simp]:
  "party_of (upd_char c (\<lambda>pc. pc\<lparr>pc_trust_send := x\<rparr>) w) = party_of w"
  "party_of (upd_char c (\<lambda>pc. pc\<lparr>pc_trust_recv := x\<rparr>) w) = party_of w"
  "party_of (upd_char c (\<lambda>pc. pc\<lparr>pc_send_type := t\<rparr>) w) = party_of w"
  by (rule party_of_frame; simp)+

lemma party_of_delete:
  "party_of (fold (\<lambda>m. upd_char m (\<lambda>pc. pc\<lparr>pc_party := None\<rparr>)) ms w)
     = (\<lambda>c. if c \<in> set ms then None else party_of w c)
   \<and> trust_of (fold (\<lambda>m. upd_char m (\<lambda>pc. pc\<lparr>pc_party := None\<rparr>)) ms w) = trust_of w
   \<and> pw_parties (fold (\<lambda>m. upd_char m (\<lambda>pc. pc\<lparr>pc_party := None\<rparr>)) ms w) = pw_parties w
   \<and> pw_next (fold (\<lambda>m. upd_char m (\<lambda>pc. pc\<lparr>pc_party := None\<rparr>)) ms w) = pw_next w
   \<and> dom (pw_chars (fold (\<lambda>m. upd_char m (\<lambda>pc. pc\<lparr>pc_party := None\<rparr>)) ms w)) = dom (pw_chars w)"
  by (induction ms arbitrary: w) (auto simp: fun_eq_iff)

lemma party_okD:
  assumes "party_ok w" "pw_parties w i = Some p"
  shows "i < pw_next w" "distinct (pa_members p)" "pa_leader p \<in> set (pa_members p)"
    "2 \<le> length (pa_members p)" "set (pa_members p) = {m. party_of w m = Some i}" "live w p"
proof -
  show s: "i < pw_next w" "distinct (pa_members p)" "pa_leader p \<in> set (pa_members p)"
    "2 \<le> length (pa_members p)" "set (pa_members p) = {m. party_of w m = Some i}"
    using assms by (auto simp: party_ok_def party_fits_def)
  show "live w p" using s(5) by (auto simp: live_def list_all_iff party_of_def split: bind_splits)
qed

lemma party_of_known: "party_ok w \<Longrightarrow> party_of w c = Some i \<Longrightarrow> \<exists>p. pw_parties w i = Some p"
  by (auto simp: party_ok_def)

text \<open>What an operation is expected to do to a world in which everything fits.\<close>

definition goes_well :: "pworld \<Rightarrow> party_result \<Rightarrow> bool" where
  "goes_well w r \<longleftrightarrow>
     (\<exists>w' ms. r = Some (w', ms) \<and> party_ok w' \<and> dom (pw_chars w') = dom (pw_chars w) \<and> (no_self w \<longrightarrow> no_self w'))"

lemma goes_well_here [simp]: "goes_well w (Some (w, ms)) = party_ok w"
  by (auto simp: goes_well_def)

text \<open>To change one party, only that one has to be looked at.\<close>

lemma party_ok_change:
  assumes "party_ok w" "pw_parties w' = (pw_parties w)(i := x)" "pw_next w \<le> pw_next w'"
    and "\<And>c j. j \<noteq> i \<Longrightarrow> party_of w' c = Some j \<longleftrightarrow> party_of w c = Some j"
    and "case x of Some p \<Rightarrow> i < pw_next w' \<and> party_fits (party_of w') i p | None \<Rightarrow> \<forall>c. party_of w' c \<noteq> Some i"
  shows "party_ok w'"
  unfolding party_ok_def
proof (intro conjI allI impI)
  fix j p assume j: "pw_parties w' j = Some p"
  have "j < pw_next w' \<and> party_fits (party_of w') j p"
  proof (cases "j = i")
    case False
    then have "j < pw_next w" "party_fits (party_of w) j p" using assms(1,2) j by (auto simp: party_ok_def)
    moreover have "{m. party_of w' m = Some j} = {m. party_of w m = Some j}" using assms(4) False by simp
    ultimately show ?thesis using assms(3) by (auto simp: party_fits_def)
  qed (use assms(2,5) j in simp)
  then show "j < pw_next w'" "party_fits (party_of w') j p" by auto
next
  fix c j assume "party_of w' c = Some j"
  then show "pw_parties w' j \<noteq> None"
    using assms by (cases "j = i") (auto simp: party_ok_def split: option.splits)
qed

lemma party_new_ok:
  assumes "party_ok w" "party_of w a = None" "party_of w b = None" "a \<noteq> b"
    "pw_chars w a \<noteq> None" "pw_chars w b \<noteq> None"
  shows "goes_well w (party_new a b w)"
proof -
  let ?p = "\<lparr>pa_members = [a, b], pa_leader = a\<rparr>"
  obtain w' ms where r: "party_new a b w = Some (w', ms)" and
    w': "pw_parties w' = (pw_parties w)(pw_next w \<mapsto> ?p)" "pw_next w' = pw_next w + 1"
      "party_of w' = (party_of w)(a \<mapsto> pw_next w, b \<mapsto> pw_next w)" "dom (pw_chars w') = dom (pw_chars w)" "trust_of w' = trust_of w"
    using assms by (auto simp: party_new_def Let_def live_def)
  have "party_of w c \<noteq> Some (pw_next w)" for c
    using assms(1) unfolding party_ok_def by (metis less_irrefl option.exhaust)
  then have "party_ok w'"
    using assms w' by (intro party_ok_change [OF assms(1), of w' "pw_next w" "Some ?p"]) (auto simp: party_fits_def)
  with r w' show ?thesis by (simp add: goes_well_def no_self_def)
qed

lemma party_join_ok:
  assumes "party_ok w" "pw_parties w i = Some p" "party_of w c = None" "pw_chars w c \<noteq> None"
  shows "goes_well w (party_join i c w)"
proof -
  note p = party_okD [OF assms(1,2)]
  let ?p = "p\<lparr>pa_members := pa_members p @ [c]\<rparr>"
  have "live w ?p" using p(6) assms(4) by (simp add: live_def)
  then obtain w' ms where r: "party_join i c w = Some (w', ms)" and
    w': "pw_parties w' = (pw_parties w)(i \<mapsto> ?p)" "pw_next w' = pw_next w"
      "party_of w' = (party_of w)(c \<mapsto> i)" "dom (pw_chars w') = dom (pw_chars w)" "trust_of w' = trust_of w"
    using assms by (auto simp: party_join_def Let_def)
  have "party_ok w'"
    using assms(3) w' p by (intro party_ok_change [OF assms(1), of w' i "Some ?p"]) (auto simp: party_fits_def)
  with r w' show ?thesis by (simp add: goes_well_def no_self_def)
qed

lemma party_leave_ok:
  assumes "party_ok w" "party_of w c = Some i"
  shows "\<exists>w' ms. party_leave i c w = Some (w', ms) \<and> party_ok w' \<and> dom (pw_chars w') = dom (pw_chars w)
    \<and> party_of w' c = None \<and> trust_of w' = trust_of w"
proof -
  obtain p where p: "pw_parties w i = Some p" using party_of_known [OF assms] by blast
  note ok = party_okD [OF assms(1) p]
  have c: "pw_chars w c \<noteq> None" "c \<in> set (pa_members p)"
    using assms(2) ok(5) by (auto simp: party_of_def split: bind_splits)
  show ?thesis
  proof (cases "2 < length (pa_members p) \<and> c \<noteq> pa_leader p")
    case True
    let ?p = "p\<lparr>pa_members := remove1 c (pa_members p)\<rparr>"
    have "live w ?p" using ok(6) set_remove1_subset by (fastforce simp: live_def list_all_iff)
    then obtain w' ms where r: "party_leave i c w = Some (w', ms)" and
      w': "pw_parties w' = (pw_parties w)(i \<mapsto> ?p)" "pw_next w' = pw_next w"
        "party_of w' = (party_of w)(c := None)" "dom (pw_chars w') = dom (pw_chars w)" "trust_of w' = trust_of w"
      using True p c by (auto simp: party_leave_def Let_def)
    have "party_ok w'"
      using True c w' ok assms(2)
      by (intro party_ok_change [OF assms(1), of w' i "Some ?p"]) (auto simp: party_fits_def length_remove1)
    with r w' show ?thesis by simp
  next
    case False
    then obtain w' ms where r: "party_leave i c w = Some (w', ms)" and
      w': "pw_parties w' = (pw_parties w)(i := None)" "pw_next w' = pw_next w"
        "party_of w' = (\<lambda>c. if c \<in> set (pa_members p) then None else party_of w c)"
        "dom (pw_chars w') = dom (pw_chars w)" "trust_of w' = trust_of w"
      using p ok(6) party_of_delete [of "pa_members p" "w\<lparr>pw_parties := (pw_parties w)(i := None)\<rparr>", unfolded party_of_fields]
      by (auto simp: party_leave_def party_delete_def)
    have "party_ok w'" using ok w' by (intro party_ok_change [OF assms(1), of w' i None]) auto
    with r w' c show ?thesis by simp
  qed
qed

lemma same_world_ok:
  "party_ok w \<Longrightarrow> party_of w' = party_of w \<Longrightarrow> pw_parties w' = pw_parties w \<Longrightarrow> pw_next w' = pw_next w \<Longrightarrow>
   party_ok w'"
  by (simp add: party_ok_def)

lemma leave_own_ok:
  assumes "party_ok w"
  shows "\<exists>w' ms. leave_own c w = Some (w', ms) \<and> party_ok w' \<and> dom (pw_chars w') = dom (pw_chars w)
    \<and> party_of w' c = None \<and> trust_of w' = trust_of w"
proof (cases "party_of w c")
  case None
  then show ?thesis using assms by (auto simp: leave_own_def party_of_def split: option.split)
next
  case (Some i)
  then have "leave_own c w = party_leave i c w" by (auto simp: leave_own_def party_of_def split: bind_splits)
  with party_leave_ok [OF assms Some] show ?thesis by auto
qed

lemma found_or_join_ok:
  assumes "party_ok w" "party_of w b = None" "a \<noteq> b" "pw_chars w a \<noteq> None" "pw_chars w b \<noteq> None"
  shows "goes_well w (found_or_join a b w)"
proof (cases "party_of w a")
  case None
  then have "found_or_join a b w = party_new a b w"
    using assms(4) by (auto simp: found_or_join_def party_of_def)
  with party_new_ok [OF assms(1) None assms(2-5)] show ?thesis by simp
next
  case (Some i)
  then have "found_or_join a b w = party_join i b w" by (auto simp: found_or_join_def party_of_def split: bind_splits)
  with party_of_known [OF assms(1) Some] party_join_ok [OF assms(1) _ assms(2,5)] show ?thesis by auto
qed

lemma goes_well_trans:
  "goes_well w r \<Longrightarrow> (\<And>w' ms. r = Some (w', ms) \<Longrightarrow> party_ok w' \<Longrightarrow> dom (pw_chars w') = dom (pw_chars w) \<Longrightarrow>
     goes_well w' (k w')) \<Longrightarrow> goes_well w (then_do r k)"
  by (fastforce simp: goes_well_def then_do_def)

lemma rejoin_ok:
  assumes "party_ok w" "a \<noteq> b" "pw_chars w a \<noteq> None" "pw_chars w b \<noteq> None"
  shows "goes_well w (then_do (leave_own b w) (found_or_join a b))"
proof -
  obtain w' ms where l: "leave_own b w = Some (w', ms)" "party_ok w'" "dom (pw_chars w') = dom (pw_chars w)"
    "party_of w' b = None" "trust_of w' = trust_of w"
    using leave_own_ok [OF assms(1)] by blast
  have "pw_chars w' a \<noteq> None" "pw_chars w' b \<noteq> None" using l(3) assms(3,4) by (auto simp: dom_def set_eq_iff)
  from found_or_join_ok [OF l(2,4) assms(2) this] l show ?thesis
    by (fastforce simp: goes_well_def then_do_def no_self_def)
qed

lemma regroup_ok:
  assumes "party_ok w" "a \<noteq> b" "pw_chars w a \<noteq> None" "pw_chars w b \<noteq> None"
  shows "goes_well w (regroup a b ty w)"
  using assms rejoin_ok [OF assms] rejoin_ok [of w b a] by (simp add: regroup_def)

lemma share_loop_frame:
  "list_all (\<lambda>m. pw_chars w m \<noteq> None) ms \<Longrightarrow>
   party_of (fst (share_loop cf mode exp mapid k s ms w)) = party_of w
   \<and> pw_parties (fst (share_loop cf mode exp mapid k s ms w)) = pw_parties w
   \<and> pw_next (fst (share_loop cf mode exp mapid k s ms w)) = pw_next w
   \<and> dom (pw_chars (fst (share_loop cf mode exp mapid k s ms w))) = dom (pw_chars w)
   \<and> trust_of (fst (share_loop cf mode exp mapid k s ms w)) = trust_of w"
proof (induction ms arbitrary: w)
  case (Cons m ms)
  define w1 where "w1 = fst (give_exp cf (share_reward mode exp k s (the (pw_chars w m))) m w)"
  obtain pc where pc: "pw_chars w m = Some pc" using Cons.prems by auto
  have f: "party_of w1 = party_of w" "pw_parties w1 = pw_parties w" "pw_next w1 = pw_next w"
    "dom (pw_chars w1) = dom (pw_chars w)" "trust_of w1 = trust_of w"
    using pc by (auto simp: w1_def give_exp_def Let_def intro!: party_of_frame trust_of_frame)
  have "list_all (\<lambda>m. pw_chars w1 m \<noteq> None) ms"
    using Cons.prems f(4) by (auto simp: list_all_iff dom_def set_eq_iff)
  from Cons.IH [OF this] Cons.IH [of w] Cons.prems f show ?case
    by (simp add: case_prod_beta w1_def [symmetric])
qed simp

lemma share_exp_ok:
  assumes "party_ok w" "pw_parties w i = Some p"
  shows "goes_well w (share_exp cf i exp mode mapid w)"
proof -
  have l: "live w p" by (rule party_okD [OF assms])
  have "goes_well w (Some (share_loop cf mode exp mapid k s (pa_members p) w))" for k s
  proof (cases "share_loop cf mode exp mapid k s (pa_members p) w")
    case (Pair w' ms)
    then show ?thesis
      using share_loop_frame [OF l [unfolded live_def], of cf mode exp mapid k s] same_world_ok [OF assms(1)]
      by (simp add: goes_well_def no_self_def)
  qed
  with l assms show ?thesis by (simp add: share_exp_def Let_def)
qed

text \<open>A request to remove somebody concerns the own party when the one removed is the sender or in the
  same party; the code does not ask for that.\<close>

fun own_party_only :: "pworld \<Rightarrow> party_event \<Rightarrow> bool" where
  "own_party_only w (PRemove me q) = (q = me \<or> party_of w q = party_of w me)"
| "own_party_only w _ = True"

lemma party_request_ok: "party_ok w \<Longrightarrow> goes_well w (party_request cf me ty q w)"
  by (auto simp: party_request_def goes_well_def no_self_def split: option.split intro: same_world_ok)

lemma party_accept_ok:
  assumes "party_ok w" "no_self w"
  shows "goes_well w (party_accept cf me q w)"
proof (cases "\<exists>a b. pw_chars w me = Some a \<and> pc_on_map w a q = Some b \<and> pc_trust_send b = Some me")
  case True
  then obtain b where "pw_chars w me \<noteq> None" "pw_chars w q = Some b" "pc_trust_send b = Some me"
    by (auto simp: pc_on_map_def split: option.splits if_splits)
  moreover then have "trust_of w q = Some me" by (simp add: trust_of_def)
  ultimately have here: "pw_chars w me \<noteq> None" "pw_chars w q \<noteq> None" "me \<noteq> q"
    using assms(2) by (auto simp: no_self_def)
  have end_ok: "goes_well w' (Some (upd_char q (\<lambda>pc. pc\<lparr>pc_trust_send := None\<rparr>)
      (upd_char me (\<lambda>pc. pc\<lparr>pc_trust_recv := None\<rparr>) w'), []))" if "party_ok w'" for w'
    using same_world_ok [OF that] by (simp add: goes_well_def no_self_def)
  have "goes_well w (then_do (regroup me q ty w)
      (\<lambda>w. Some (upd_char q (\<lambda>pc. pc\<lparr>pc_trust_send := None\<rparr>) (upd_char me (\<lambda>pc. pc\<lparr>pc_trust_recv := None\<rparr>) w), [])))" for ty
    using regroup_ok [OF assms(1), of me q] here by (intro goes_well_trans end_ok) auto
  then show ?thesis using assms here by (simp add: party_accept_def split: option.split)
next
  case False
  then show ?thesis using assms by (auto simp: party_accept_def split: option.split)
qed

lemma get_party_ok:
  assumes "party_ok w" "pw_chars w c = Some a" "pc_party a = Some i"
  shows "\<exists>p. pw_parties w i = Some p \<and> live w p"
proof -
  have "party_of w c = Some i" using assms by (simp add: party_of_def)
  with party_of_known [OF assms(1)] party_okD(6) [OF assms(1)] show ?thesis by blast
qed

lemma party_leave_goes_well: "party_ok w \<Longrightarrow> party_of w c = Some i \<Longrightarrow> goes_well w (party_leave i c w)"
  using party_leave_ok [of w c i] by (auto simp: goes_well_def no_self_def)

lemma party_remove_ok:
  assumes "party_ok w" "q = me \<or> party_of w q = party_of w me"
  shows "goes_well w (party_remove me q w)"
proof (cases "party_of w me")
  case None
  then show ?thesis using assms(1) by (auto simp: party_remove_def party_of_def split: option.split bind_splits)
next
  case (Some i)
  then have q: "party_of w q = Some i" using assms(2) by auto
  from party_of_known [OF assms(1) Some] obtain p where p: "pw_parties w i = Some p" by blast
  obtain a where a: "pw_chars w me = Some a" "pc_party a = Some i" using Some by (auto simp: party_of_def split: bind_splits)
  from party_leave_goes_well [OF assms(1) q] p a assms(1) show ?thesis
    by (auto simp: party_remove_def split: option.split)
qed

lemma quiet_ok:
  assumes "party_ok w"
  shows "goes_well w (party_take me w)" "goes_well w (talk_open cf me s w)" "goes_well w (char_update_hp me w)"
    "goes_well w (party_step cf (PShare me exp mode mapid) w)"
  using assms get_party_ok [OF assms, of me] share_exp_ok [OF assms]
  by (fastforce simp: party_take_def talk_open_def party_msg_def Let_def char_update_hp_def update_hp_def split: option.split)+

lemma party_logout_ok:
  assumes "party_ok w" "no_self w"
  shows "\<exists>w' ms. party_logout me w = Some (w', ms) \<and> party_ok w' \<and> no_self w'"
proof -
  obtain w1 ms where l: "leave_own me w = Some (w1, ms)" "party_ok w1" "party_of w1 me = None" "trust_of w1 = trust_of w"
    using leave_own_ok [OF assms(1)] by blast
  let ?w = "w1\<lparr>pw_chars := (pw_chars w1)(me := None)\<rparr>"
  have "party_of ?w = party_of w1" using l(3) by (auto simp: party_of_def fun_eq_iff)
  then have "party_ok ?w" by (intro same_world_ok [OF l(2)]) auto
  moreover have "no_self ?w" using assms(2) l(4) by (auto simp: no_self_def trust_of_def fun_eq_iff split: bind_splits)
  ultimately show ?thesis using l(1) by (simp add: party_logout_def then_do_def)
qed

lemma party_login_ok:
  assumes "party_ok w" "no_self w"
  shows "\<exists>w' ms. party_login me pc w = Some (w', ms) \<and> party_ok w' \<and> no_self w'"
proof (cases "pw_chars w me = None")
  case True
  let ?w = "w\<lparr>pw_chars := (pw_chars w)(me \<mapsto> pc\<lparr>pc_party := None, pc_trust_send := None, pc_trust_recv := None\<rparr>)\<rparr>"
  have "party_of ?w = party_of w" "trust_of ?w = trust_of w"
    using True by (auto simp: party_of_def trust_of_def fun_eq_iff)
  then have "party_ok ?w" "no_self ?w" using assms same_world_ok [OF assms(1), of ?w] by (simp_all add: no_self_def)
  with True show ?thesis by (simp add: party_login_def)
qed (use assms in \<open>simp add: party_login_def\<close>)

lemma party_step_ok:
  assumes "party_ok w" "no_self w" "own_party_only w e"
  shows "\<exists>w' ms. party_step cf e w = Some (w', ms) \<and> party_ok w' \<and> no_self w'"
proof -
  have *: "\<exists>w' ms. r = Some (w', ms) \<and> party_ok w' \<and> no_self w'" if "goes_well w r" for r
    using that assms(2) by (auto simp: goes_well_def)
  show ?thesis
  proof (cases e)
    case (PReq me ty q)
    with * [OF party_request_ok [OF assms(1)]] show ?thesis by simp
  next
    case (PAccept me q)
    with * [OF party_accept_ok [OF assms(1,2)]] show ?thesis by simp
  next
    case (PRemove me q)
    with assms(3) * [OF party_remove_ok [OF assms(1), of q me]] show ?thesis by simp
  next
    case (PShare me exp mode mapid)
    with * [OF quiet_ok(4) [OF assms(1)]] show ?thesis by simp
  qed (use assms party_logout_ok party_login_ok * [OF quiet_ok(1)] * [OF quiet_ok(2)] * [OF quiet_ok(3)] in auto)
qed

section \<open>Reachable worlds\<close>

definition pworld_empty :: pworld where
  "pworld_empty = \<lparr>pw_chars = Map.empty, pw_parties = Map.empty, pw_next = 0\<rparr>"

text \<open>The worlds that arise when nobody removes a stranger.\<close>

inductive party_reachable :: "pconf \<Rightarrow> pworld \<Rightarrow> bool" for cf where
  reach_init: "party_reachable cf pworld_empty"
| reach_step: "party_reachable cf w \<Longrightarrow> own_party_only w e \<Longrightarrow> party_step cf e w = Some (w', ms) \<Longrightarrow>
    party_reachable cf w'"

lemma reachable_ok: "party_reachable cf w \<Longrightarrow> party_ok w \<and> no_self w"
proof (induction rule: party_reachable.induct)
  case reach_init
  show ?case by (simp add: pworld_empty_def party_ok_def no_self_def party_of_def trust_of_def)
next
  case (reach_step w e w' ms)
  then show ?case using party_step_ok [of w e cf] by fastforce
qed

text \<open>C36: In every world that arises while nobody removes a character of another party, whatever the
  order of requests, acceptances, removals, logins, logouts, chat, healing and shared experience, parties
  and characters point to each other and to nothing else: the members of a party are exactly the
  characters that have it as their party, at least two, the leader among them. No further event uses
  a pointer to an object that is gone.\<close>

theorem parties_fit:
  assumes "party_reachable cf w" "own_party_only w e"
  shows "party_ok w \<and> party_step cf e w \<noteq> None"
  using reachable_ok [OF assms(1)] party_step_ok [OF _ _ assms(2), of cf] by auto

definition sample_pconf :: pconf where
  "sample_pconf = \<lparr>pf_SeeDistance = 11, pf_ChatMaxWidth = 1000, pf_ChatLength = 100, pf_MaxLevel = 250,
     pf_StatPerLevel = 3, pf_SkillPerLevel = 3, pf_exp_table = (\<lambda>l. 100 * l)\<rparr>"

definition sample_pchar :: pchar where
  "sample_pchar = \<lparr>pc_name = ''a'', pc_level = 1, pc_percent = 50, pc_exp = 0, pc_statpoints = 0, pc_skillpoints = 0,
     pc_map = 1, pc_x = 3, pc_y = 4, pc_nowhere = False, pc_muted = False, pc_can_interact_combat = True,
     pc_party = None, pc_trust_send = None, pc_trust_recv = None, pc_send_type = 0\<rparr>"

lemma reachable_runs:
  "party_reachable cf w \<Longrightarrow> party_run cf es w = Some (w', ms) \<Longrightarrow>
   list_all (\<lambda>e. case e of PRemove me q \<Rightarrow> q = me | _ \<Rightarrow> True) es \<Longrightarrow> party_reachable cf w'"
proof (induction es arbitrary: w ms)
  case (Cons e es)
  from Cons.prems obtain w1 ms1 ms2 where e: "party_step cf e w = Some (w1, ms1)" "party_run cf es w1 = Some (w', ms2)"
    by (auto simp: then_do_def split: option.splits)
  have "own_party_only w e" using Cons.prems(3) by (cases e) auto
  from Cons.IH [OF reach_step [OF Cons.prems(1) this e(1)] e(2)] Cons.prems(3) show ?case by simp
qed simp

text \<open>Five characters, the first three in one party and the other two in another.\<close>

definition sample_events :: "party_event list" where
  "sample_events = map (\<lambda>i. PLogin i sample_pchar) [1, 2, 3, 4, 5] @
     [PReq 1 1 2, PAccept 2 1, PReq 1 1 3, PAccept 3 1, PReq 4 1 5, PAccept 5 4]"

abbreviation sample_member :: "nat \<Rightarrow> pchar" where
  "sample_member i \<equiv> sample_pchar\<lparr>pc_party := Some i\<rparr>"

definition sample_pworld :: pworld where
  "sample_pworld =
     \<lparr>pw_chars = [1 \<mapsto> (sample_member 0)\<lparr>pc_send_type := 1\<rparr>, 2 \<mapsto> sample_member 0, 3 \<mapsto> sample_member 0,
                  4 \<mapsto> (sample_member 1)\<lparr>pc_send_type := 1\<rparr>, 5 \<mapsto> sample_member 1],
      pw_parties = [0 \<mapsto> \<lparr>pa_members = [1, 2, 3], pa_leader = 1\<rparr>, 1 \<mapsto> \<lparr>pa_members = [4, 5], pa_leader = 4\<rparr>],
      pw_next = 2\<rparr>"

lemmas party_runs = then_do_def party_login_def pworld_empty_def upd_char_def party_request_def pc_on_map_def
  pc_in_range_def sample_pchar_def sample_pconf_def path_length_def party_accept_def regroup_def leave_own_def
  found_or_join_def party_new_def party_join_def Let_def live_def

lemma sample_run: "\<exists>ms. party_run sample_pconf sample_events pworld_empty = Some (sample_pworld, ms)"
  by (simp add: sample_events_def sample_pworld_def fun_eq_iff party_runs)

lemma sample_events_list:
  "list_all (\<lambda>e. case e of PRemove me q \<Rightarrow> q = me | _ \<Rightarrow> True) sample_events"
  by (simp add: sample_events_def)

lemma sample_reachable: "party_reachable sample_pconf sample_pworld"
  using sample_run reachable_runs [OF reach_init]
  by (metis (no_types, lifting) sample_events_list)

theorem parties_fit_witness:
  "party_ok sample_pworld \<and> party_step sample_pconf (PRemove 1 3) sample_pworld \<noteq> None"
proof (rule parties_fit)
  show "party_reachable sample_pconf sample_pworld" by (rule sample_reachable)
  show "own_party_only sample_pworld (PRemove 1 3)" by (simp add: party_of_def sample_pworld_def sample_pchar_def)
qed

text \<open>C37: The leader of a party of three or more can remove a character of another party: \<open>Packet_Remove\<close>
  does not ask whether that character is a member. The stranger loses its party, its own party keeps
  it as a member, and when it has logged out the next message to that party uses a character that is
  gone.\<close>

theorem foreign_removal_dangles:
  assumes "party_ok w" "pw_parties w i = Some p" "pa_leader p = me" "2 < length (pa_members p)"
    and "party_of w q = Some j" "j \<noteq> i" "party_of w r = Some j" "r \<noteq> q"
    and "\<And>c. pw_chars w r = Some c \<Longrightarrow> \<not> pc_muted c"
  shows "party_run cf [PRemove me q, PLogout q] w \<noteq> None
    \<and> party_run cf [PRemove me q, PLogout q, PTalk r s] w = None"
proof -
  note p = party_okD [OF assms(1,2)]
  obtain pj where pj: "pw_parties w j = Some pj" using party_of_known [OF assms(1,5)] by blast
  have qj: "q \<in> set (pa_members pj)" using party_okD(5) [OF assms(1) pj] assms(5) by simp
  have me: "party_of w me = Some i" using p(3,5) assms(3) by auto
  obtain a b c where a: "pw_chars w me = Some a" "pc_party a = Some i" and b: "pw_chars w q = Some b"
    and c: "pw_chars w r = Some c" "pc_party c = Some j"
    using me assms(5,7) by (auto simp: party_of_def split: bind_splits)
  have q: "q \<noteq> me" "q \<notin> set (pa_members p)" "r \<noteq> me" using p(5) assms(5-7) me by auto
  then have rem: "remove1 q (pa_members p) = pa_members p" by (simp add: remove1_idem)
  define w1 where "w1 = upd_char q (\<lambda>pc. pc\<lparr>pc_party := None\<rparr>) w"
  have "(pw_parties w)(i \<mapsto> p\<lparr>pa_members := pa_members p\<rparr>) = pw_parties w" using assms(2) by auto
  then have same: "w\<lparr>pw_parties := (pw_parties w)(i \<mapsto> p\<lparr>pa_members := pa_members p\<rparr>)\<rparr> = w" by simp
  have "\<exists>ms. party_leave i q w = Some (w1, ms)"
    using assms(2-4) q(1) b p(6) same by (simp add: party_leave_def Let_def rem w1_def live_def)
  then have 1: "\<exists>ms. party_step cf (PRemove me q) w = Some (w1, ms)"
    using a b assms(2,3) by (simp add: party_remove_def)
  let ?w2 = "w1\<lparr>pw_chars := (pw_chars w1)(q := None)\<rparr>"
  have 2: "\<exists>ms. party_step cf (PLogout q) w1 = Some (?w2, ms)"
    using b by (simp add: party_logout_def leave_own_def then_do_def w1_def)
  have "\<not> live ?w2 pj" using qj by (auto simp: live_def list_all_iff)
  then have "party_step cf (PTalk r s) ?w2 = None"
    using c assms(8) assms(9) [OF c(1)] pj by (simp add: talk_open_def party_msg_def w1_def)
  with 1 2 show ?thesis by (auto simp: then_do_def)
qed

theorem foreign_removal_dangles_witness:
  "party_run sample_pconf [PRemove 1 4, PLogout 4] sample_pworld \<noteq> None
   \<and> party_run sample_pconf [PRemove 1 4, PLogout 4, PTalk 5 ''hi''] sample_pworld = None"
  by (rule foreign_removal_dangles [where i = 0 and j = 1 and p = "\<lparr>pa_members = [1, 2, 3], pa_leader = 1\<rparr>"])
    (use reachable_ok [OF sample_reachable] in
      \<open>simp_all add: party_of_def, simp_all add: sample_pworld_def sample_pchar_def\<close>)

section \<open>What a party is paid\<close>

lemma ceil_div_bounds: "0 < b \<Longrightarrow> a \<le> ceil_div a b * b \<and> ceil_div a b * b < a + b"
proof -
  assume "0 < b"
  moreover have "ceil_div a b * b = a + - a mod b"
    using minus_div_mult_eq_mod [of "- a" b] by (simp add: ceil_div_def)
  ultimately show ?thesis using pos_mod_sign [of b "- a"] pos_mod_bound [of b "- a"] by simp
qed

definition sharers :: "int \<Rightarrow> pworld \<Rightarrow> party \<Rightarrow> pchar list" where
  "sharers mapid w p = filter (sharer mapid) (map (\<lambda>m. the (pw_chars w m)) (pa_members p))"

definition exp_of :: "pworld \<Rightarrow> nat \<Rightarrow> int" where
  "exp_of w c = pc_exp (the (pw_chars w c))"

definition no_overflow :: "int \<Rightarrow> pworld \<Rightarrow> nat list \<Rightarrow> bool" where
  "no_overflow n w ms \<longleftrightarrow> list_all (\<lambda>m. 0 \<le> exp_of w m \<and> exp_of w m + n \<le> int_max) ms"

lemma share_loop_pays:
  "distinct ms \<Longrightarrow> list_all (\<lambda>m. pw_chars w m \<noteq> None) ms \<Longrightarrow>
   list_all (\<lambda>m. sharer mapid (the (pw_chars w m)) \<longrightarrow>
       0 \<le> exp_of w m + share_reward mode exp k s (the (pw_chars w m))
       \<and> exp_of w m + share_reward mode exp k s (the (pw_chars w m)) \<le> int_max) ms \<Longrightarrow>
   exp_of (fst (share_loop cf mode exp mapid k s ms w)) c = exp_of w c +
     (if c \<in> set ms \<and> sharer mapid (the (pw_chars w c)) then share_reward mode exp k s (the (pw_chars w c)) else 0)"
proof (induction ms arbitrary: w)
  case (Cons m ms)
  obtain pc where pc: "pw_chars w m = Some pc" using Cons.prems by auto
  define w1 where "w1 = fst (give_exp cf (share_reward mode exp k s pc) m w)"
  have other: "pw_chars w1 d = pw_chars w d" if "d \<noteq> m" for d
    using that by (simp add: w1_def give_exp_def Let_def)
  have "exp_of w1 m = s32 (exp_of w m + share_reward mode exp k s pc)"
    using pc by (simp add: w1_def give_exp_def Let_def exp_of_def)
  also have "\<dots> = exp_of w m + share_reward mode exp k s pc" if "sharer mapid pc"
    using Cons.prems(3) pc that by (intro s32_id) auto
  finally have m: "sharer mapid pc \<Longrightarrow> exp_of w1 m = exp_of w m + share_reward mode exp k s pc" .
  have frame: "exp_of w1 d = exp_of w d" if "d \<noteq> m" for d using that other by (simp add: exp_of_def)
  have "list_all (\<lambda>m. pw_chars w1 m \<noteq> None) ms"
    "list_all (\<lambda>m. sharer mapid (the (pw_chars w1 m)) \<longrightarrow>
       0 \<le> exp_of w1 m + share_reward mode exp k s (the (pw_chars w1 m))
       \<and> exp_of w1 m + share_reward mode exp k s (the (pw_chars w1 m)) \<le> int_max) ms"
    using Cons.prems other frame by (fastforce simp: list_all_iff)+
  from Cons.IH [OF _ this] Cons.IH [of w] Cons.prems pc m frame other show ?case
    by (cases "c = m") (simp_all add: case_prod_beta w1_def [symmetric])
qed simp

lemma elem_le_sum: "\<forall>x\<in>set xs. (0 :: int) \<le> f x \<Longrightarrow> x \<in> set xs \<Longrightarrow> f x \<le> sum_list (map f xs)"
proof (induction xs)
  case (Cons a xs)
  then show ?case using sum_list_nonneg [of "map f xs"] by fastforce
qed simp

lemma share_weights_pos:
  "pcs \<noteq> [] \<Longrightarrow> list_all (\<lambda>pc. 0 \<le> pc_level pc) pcs \<Longrightarrow> 0 < sum_list (map share_weight pcs)"
proof (induction pcs)
  case (Cons pc pcs)
  then show ?case by (cases "pcs = []") (auto simp: share_weight_def)
qed simp

lemma share_reward_total:
  assumes "mode = 1 \<or> mode = 2" "pcs \<noteq> []" "list_all (\<lambda>pc. 0 \<le> pc_level pc) pcs"
  defines "k \<equiv> int (length pcs)" and "s \<equiv> sum_list (map share_weight pcs)"
  shows "exp \<le> sum_list (map (share_reward mode exp k s) pcs) \<and> sum_list (map (share_reward mode exp k s) pcs) < exp + k"
proof (cases "mode = 1")
  case True
  then have "share_reward mode exp k s = (\<lambda>_. ceil_div exp k)" by (simp add: share_reward_def fun_eq_iff)
  then have "sum_list (map (share_reward mode exp k s) pcs) = ceil_div exp k * k"
    by (simp add: sum_list_triv k_def)
  then show ?thesis using ceil_div_bounds [of k exp] assms(2) by (simp add: k_def)
next
  case False
  have pos: "0 < s" unfolding s_def by (rule share_weights_pos [OF assms(2,3)])
  have low: "exp * sum_list (map share_weight ps) \<le> sum_list (map (share_reward mode exp k s) ps) * s"
    and up: "ps \<noteq> [] \<Longrightarrow> sum_list (map (share_reward mode exp k s) ps) * s
      < exp * sum_list (map share_weight ps) + int (length ps) * s" for ps
  proof (induction ps)
    case (Cons q ps)
    have q: "exp * share_weight q \<le> share_reward mode exp k s q * s"
      "share_reward mode exp k s q * s < exp * share_weight q + s"
      using False assms(1) ceil_div_bounds [OF pos, of "exp * share_weight q"] by (simp_all add: share_reward_def)
    case 1 show ?case using q Cons.IH by (simp add: algebra_simps)
    case 2 show ?case using q Cons.IH by (cases "ps = []") (simp_all add: algebra_simps)
  qed simp_all
  have "sum_list (map (share_reward mode exp k s) pcs) * s < (exp + k) * s"
    using up [OF assms(2)] by (simp add: s_def [symmetric] k_def algebra_simps)
  with low [of pcs] pos show ?thesis by (simp add: s_def [symmetric])
qed

text \<open>C38: Sharing never loses experience and creates less than one point per member: what the members
  on the map gain together is at least the amount shared and less than that plus their number, whether
  it is split evenly or by level. (No counter may overflow.)\<close>

theorem share_exp_pays:
  assumes "party_ok w" "pw_parties w i = Some p" "mode = 1 \<or> mode = 2" "0 \<le> exp"
    and "list_all (\<lambda>pc. 0 \<le> pc_level pc) (sharers mapid w p)" "sharers mapid w p \<noteq> []"
    and "no_overflow (exp + int (length (sharers mapid w p))) w (pa_members p)"
    and "share_exp cf i exp mode mapid w = Some (w', ms)"
  shows "exp \<le> (\<Sum>m\<leftarrow>pa_members p. exp_of w' m - exp_of w m)
    \<and> (\<Sum>m\<leftarrow>pa_members p. exp_of w' m - exp_of w m) < exp + int (length (sharers mapid w p))"
proof -
  let ?pcs = "sharers mapid w p"
  define k where "k = int (length ?pcs)"
  define s where "s = sum_list (map share_weight ?pcs)"
  note p = party_okD [OF assms(1,2)]
  have total: "exp \<le> sum_list (map (share_reward mode exp k s) ?pcs)"
    "sum_list (map (share_reward mode exp k s) ?pcs) < exp + k"
    using share_reward_total [OF assms(3,6,5), of exp] by (simp_all add: k_def s_def)
  have pos: "0 < s" "0 < k" using assms(6) share_weights_pos [OF assms(6,5)] by (simp_all add: s_def k_def)
  have nonneg: "0 \<le> share_reward mode exp k s pc" if "pc \<in> set ?pcs" for pc
  proof -
    have lv: "0 \<le> pc_level pc" using that assms(5) by (auto simp: list_all_iff)
    then have "0 \<le> exp * share_weight pc" using assms(4) by (simp add: share_weight_def)
    with ceil_div_bounds [OF pos(1), of "exp * share_weight pc"] ceil_div_bounds [OF pos(2), of exp] assms(4) pos
    have "0 \<le> ceil_div (exp * share_weight pc) s * s" "0 \<le> ceil_div exp k * k" by linarith+
    with pos assms(3) show ?thesis by (auto simp: share_reward_def zero_le_mult_iff)
  qed
  have w': "w' = fst (share_loop cf mode exp mapid k s (pa_members p) w)"
    using assms(2,8) p(6) pos by (auto simp: share_exp_def Let_def k_def s_def sharers_def split: if_splits)
  have gain: "exp_of w' m - exp_of w m =
      (if sharer mapid (the (pw_chars w m)) then share_reward mode exp k s (the (pw_chars w m)) else 0)"
    if "m \<in> set (pa_members p)" for m
  proof -
    have "0 \<le> exp_of w m + share_reward mode exp k s (the (pw_chars w m))
        \<and> exp_of w m + share_reward mode exp k s (the (pw_chars w m)) \<le> int_max"
      if m: "m \<in> set (pa_members p)" "sharer mapid (the (pw_chars w m))" for m
    proof -
      have pc: "the (pw_chars w m) \<in> set ?pcs" using m by (simp add: sharers_def)
      have "share_reward mode exp k s (the (pw_chars w m)) \<le> exp + k"
        using elem_le_sum [OF _ pc, of "share_reward mode exp k s"] nonneg total(2) by fastforce
      moreover have "0 \<le> exp_of w m" "exp_of w m + (exp + k) \<le> int_max"
        using assms(7) m(1) by (auto simp: no_overflow_def list_all_iff k_def)
      ultimately show ?thesis using nonneg [OF pc] by linarith
    qed
    then have "exp_of w' m = exp_of w m + (if m \<in> set (pa_members p) \<and> sharer mapid (the (pw_chars w m))
        then share_reward mode exp k s (the (pw_chars w m)) else 0)"
      unfolding w' using p(2,6) by (intro share_loop_pays) (auto simp: live_def list_all_iff)
    with that show ?thesis by simp
  qed
  have "(\<Sum>m\<leftarrow>ms. if sharer mapid (the (pw_chars w m)) then share_reward mode exp k s (the (pw_chars w m)) else 0)
      = sum_list (map (share_reward mode exp k s) (filter (sharer mapid) (map (\<lambda>m. the (pw_chars w m)) ms)))" for ms
    by (induction ms) auto
  note sums = this
  have "map (\<lambda>m. exp_of w' m - exp_of w m) (pa_members p) = map (\<lambda>m.
      if sharer mapid (the (pw_chars w m)) then share_reward mode exp k s (the (pw_chars w m)) else 0) (pa_members p)"
    using gain by simp
  then have "(\<Sum>m\<leftarrow>pa_members p. exp_of w' m - exp_of w m) = sum_list (map (share_reward mode exp k s) ?pcs)"
    unfolding sharers_def by (simp only: sums)
  with total show ?thesis by (simp add: k_def)
qed

theorem share_exp_pays_witness:
  "\<exists>w' ms. share_exp sample_pconf 0 100 2 1 sample_pworld = Some (w', ms)
    \<and> 100 \<le> (\<Sum>m\<leftarrow>[1, 2, 3]. exp_of w' m - exp_of sample_pworld m)"
proof -
  let ?p = "\<lparr>pa_members = [1, 2, 3], pa_leader = 1\<rparr>"
  have ok: "party_ok sample_pworld" "pw_parties sample_pworld 0 = Some ?p"
    using reachable_ok [OF sample_reachable] by (simp_all add: sample_pworld_def)
  then obtain w' ms where r: "share_exp sample_pconf 0 100 2 1 sample_pworld = Some (w', ms)"
    using share_exp_ok [OF ok, of sample_pconf 100 2 1] by (auto simp: goes_well_def)
  have sh: "sharers 1 sample_pworld ?p = map (\<lambda>m. the (pw_chars sample_pworld m)) [1, 2, 3]"
    by (simp add: sharers_def sharer_def sample_pworld_def sample_pchar_def)
  have "exp_of sample_pworld m = 0" if "m \<in> {1, 2, 3}" for m
    using that by (auto simp: exp_of_def sample_pworld_def sample_pchar_def)
  then have "no_overflow (100 + int (length (sharers 1 sample_pworld ?p))) sample_pworld (pa_members ?p)"
    unfolding sh by (simp add: no_overflow_def int_max_def)
  moreover have "list_all (\<lambda>pc. 0 \<le> pc_level pc) (sharers 1 sample_pworld ?p)"
    unfolding sh by (simp add: sample_pworld_def sample_pchar_def)
  ultimately show ?thesis
    using share_exp_pays [OF ok, of 2 100 1 sample_pconf w' ms] r sh by fastforce
qed

end
