(* ===== verification/Ground.thy ===== *)
theory Ground
  imports World_Map
begin

text \<open>
  Items on the floor of a map (\<open>Map::AddItem\<close>, \<open>GetItem\<close>, \<open>DelItem\<close>, \<open>DelSomeItem\<close> in \<^verbatim>\<open>src/map.cpp\<close>), and
  dropping, taking and destroying items (\<^verbatim>\<open>src/handlers/Item.cpp\<close>). \<open>here\<close> lists the characters on the
  map with their player ids, \<open>now\<close> is the reading of the clock, and \<open>occupied\<close> says which positions
  somebody stands on.
\<close>

section \<open>The floor\<close>

record map_item =
  mi_uid :: int
  mi_id :: int
  mi_amount :: int
  mi_x :: int
  mi_y :: int
  mi_owner :: int
  mi_unprotecttime :: int

text \<open>The search starts again after every hit. It goes on at most as often as there are items, since a
  hit raises the candidate.\<close>

lemma hit_decreases:
  "(\<exists>it\<in>set its. mi_uid it = n) \<Longrightarrow>
   length (filter (\<lambda>it. n + 1 \<le> mi_uid it) its) < length (filter (\<lambda>it. n \<le> mi_uid it) its)"
proof (induction its)
  case (Cons it its)
  have "length (filter (\<lambda>it. n + 1 \<le> mi_uid it) its) \<le> length (filter (\<lambda>it. n \<le> mi_uid it) its)"
    by (induction its) auto
  with Cons show ?case by auto
qed simp

function lowest_free_id :: "int \<Rightarrow> map_item list \<Rightarrow> int" where
  "lowest_free_id n its = (if \<exists>it\<in>set its. mi_uid it = n then lowest_free_id (n + 1) its else n)"
  by pat_completeness auto
termination
  by (relation "measure (\<lambda>(n, its). length (filter (\<lambda>it. n \<le> mi_uid it) its))")
    (use hit_decreases in auto)

declare lowest_free_id.simps [simp del]

definition generate_item_id :: "map_item list \<Rightarrow> int" where
  "generate_item_id its = lowest_free_id 1 its"

definition item_in_range :: "game \<Rightarrow> map_item \<Rightarrow> chr \<Rightarrow> bool" where
  "item_in_range g it c =
     (if ch_nowhere c then False
      else path_length (ch_x c) (ch_y c) (mi_x it) (mi_y it) \<le> gm_SeeDistance g)"

definition tell :: "game \<Rightarrow> (nat \<times> chr) list \<Rightarrow> nat option \<Rightarrow> map_item \<Rightarrow> (nat \<Rightarrow> message) \<Rightarrow> message list" where
  "tell g here except it msg = [msg to. (to, c) \<leftarrow> here, Some to \<noteq> except \<and> item_in_range g it c]"

text \<open>\<open>AddItem\<close> returns the item also where it does not put it on the map; the flag says whether it did.\<close>

definition map_add_item ::
  "game \<Rightarrow> (nat \<times> chr) list \<Rightarrow> int \<Rightarrow> int \<Rightarrow> int \<Rightarrow> int \<Rightarrow> nat option \<Rightarrow> map_item list
   \<Rightarrow> map_item list \<times> map_item \<times> bool \<times> message list" where
  "map_add_item g here item amount x y from its =
     (let newitem = \<lparr>mi_uid = 0, mi_id = item, mi_amount = amount, mi_x = x, mi_y = y, mi_owner = 0, mi_unprotecttime = 0\<rparr>;
          ontile = int (length (filter (\<lambda>it. mi_x it = x \<and> mi_y it = y) its));
          onmap = int (length its)
      in if from \<noteq> None \<and> (gm_MaxTile g \<le> ontile \<or> gm_MaxMap g \<le> onmap) then (its, newitem, False, [])
         else
           let it = newitem\<lparr>mi_uid := s16 (generate_item_id its)\<rparr>
           in (its @ [it], it, True,
               tell g here from it (\<lambda>to. mk_message to PACKET_ITEM PACKET_ADD
                 [fshort item, fshort (mi_uid it), fthree amount, fchar x, fchar y])))"

definition map_get_item :: "int \<Rightarrow> map_item list \<Rightarrow> map_item option" where
  "map_get_item uid its = find (\<lambda>it. mi_uid it = uid) its"

fun remove_uid :: "int \<Rightarrow> map_item list \<Rightarrow> map_item list" where
  "remove_uid uid [] = []"
| "remove_uid uid (it # its) = (if mi_uid it = uid then its else it # remove_uid uid its)"

fun change_uid :: "int \<Rightarrow> (map_item \<Rightarrow> map_item) \<Rightarrow> map_item list \<Rightarrow> map_item list" where
  "change_uid uid f [] = []"
| "change_uid uid f (it # its) = (if mi_uid it = uid then f it # its else it # change_uid uid f its)"

definition removed_packet :: "map_item \<Rightarrow> nat \<Rightarrow> message" where
  "removed_packet it to = mk_message to PACKET_ITEM PACKET_REMOVE [fshort (mi_uid it)]"

definition map_del_item ::
  "game \<Rightarrow> (nat \<times> chr) list \<Rightarrow> int \<Rightarrow> nat option \<Rightarrow> map_item list \<Rightarrow> map_item list \<times> message list" where
  "map_del_item g here uid from its =
     (case map_get_item uid its of
        None \<Rightarrow> (its, [])
      | Some it \<Rightarrow> (remove_uid uid its, tell g here from it (removed_packet it)))"

definition map_del_some_item ::
  "game \<Rightarrow> (nat \<times> chr) list \<Rightarrow> int \<Rightarrow> int \<Rightarrow> nat option \<Rightarrow> map_item list \<Rightarrow> map_item list \<times> message list" where
  "map_del_some_item g here uid amount from its =
     (if amount < 0 then (its, [])
      else case map_get_item uid its of
             None \<Rightarrow> (its, [])
           | Some it \<Rightarrow>
               if amount < mi_amount it
               then
                 let it1 = it\<lparr>mi_amount := mi_amount it - amount\<rparr>
                 in (change_uid uid (\<lambda>it. it\<lparr>mi_amount := mi_amount it - amount\<rparr>) its,
                     tell g here from it1 (removed_packet it1)
                     @ tell g here None it1 (\<lambda>to. mk_message to PACKET_ITEM PACKET_ADD
                         [fshort (mi_id it1), fshort (mi_uid it1), fthree (mi_amount it1), fchar (mi_x it1),
                          fchar (mi_y it1)]))
               else map_del_item g here uid from its)"

definition map_walkable :: "game \<Rightarrow> (int \<Rightarrow> int \<Rightarrow> bool) \<Rightarrow> gmap \<Rightarrow> int \<Rightarrow> int \<Rightarrow> bool \<Rightarrow> bool" where
  "map_walkable g occupied m x y npc =
     (case get_tile x y m of
        None \<Rightarrow> False
      | Some t \<Rightarrow>
          if \<not> tile_walkable npc t then False
          else if gm_GhostArena g \<and> tl_spec t = Arena \<and> occupied x y then False
          else True)"

section \<open>The packets\<close>

type_synonym ground_result = "chr \<times> map_item list \<times> message list"

definition drop_position :: "byte \<Rightarrow> byte \<Rightarrow> chr \<Rightarrow> int \<times> int" where
  "drop_position x y c =
     (if x = 255 \<and> y = 255 then (ch_x c, ch_y c)
      else (u8 (int (number x 254 254 254)), u8 (int (number y 254 254 254))))"

definition item_drop ::
  "game \<Rightarrow> (int \<Rightarrow> int \<Rightarrow> bool) \<Rightarrow> (nat \<times> chr) list \<Rightarrow> nat \<Rightarrow> int \<Rightarrow> gmap \<Rightarrow> map_item list
   \<Rightarrow> int \<Rightarrow> int \<Rightarrow> byte \<Rightarrow> byte \<Rightarrow> chr \<Rightarrow> ground_result" where
  "item_drop g occupied here me now m its item amount0 px py c =
     (if ch_trading c then (c, its, [])
      else if \<not> ch_can_interact_items c then (c, its, [])
      else if eif_special (eif_get (gm_eif g) item) = EIF_Lore then (c, its, [])
      else
        let amount = min amount0 (gm_MaxDrop g); (x, y) = drop_position px py c
        in if amount \<le> 0 then (c, its, [])
           else if gm_DropDistance g < path_length x y (ch_x c) (ch_y c) then (c, its, [])
           else if \<not> map_walkable g occupied m x y False then (c, its, [])
           else if amount \<le> has_item (s16 item) False c \<and> ch_mapid c \<noteq> gm_JailMap g
           then
             let (its1, it, placed, ms) = map_add_item g here (s16 item) amount x y (Some me) its;
                 own = (\<lambda>it. it\<lparr>mi_owner := int me, mi_unprotecttime := now + gm_ProtectPlayerDrop g\<rparr>);
                 its2 = (if placed then butlast its1 @ [own it] else its1);
                 c1 = fst (del_item g (s16 item) amount c)
             in (c1, its2, ms @ [mk_message me PACKET_ITEM PACKET_DROP
                   [fshort item, fthree amount, fint (has_item (s16 item) False c1), fshort (mi_uid it), fchar x,
                    fchar y, fchar (ch_weight c1), fchar (ch_maxweight c1)]])
           else (c, its, []))"

definition item_junk :: "game \<Rightarrow> nat \<Rightarrow> int \<Rightarrow> int \<Rightarrow> chr \<Rightarrow> handler_result" where
  "item_junk g me item amount c =
     (if ch_trading c then (c, [])
      else if amount \<le> 0 then (c, [])
      else if amount \<le> has_item (s16 item) False c
      then
        let c1 = fst (del_item g (s16 item) amount c)
        in (c1, [mk_message me PACKET_ITEM PACKET_JUNK
                   [fshort item, fthree amount, fint (has_item (s16 item) False c1), fchar (ch_weight c1),
                    fchar (ch_maxweight c1)]])
      else (c, []))"

definition item_get ::
  "game \<Rightarrow> (nat \<times> chr) list \<Rightarrow> nat \<Rightarrow> int \<Rightarrow> map_item list \<Rightarrow> int \<Rightarrow> chr \<Rightarrow> ground_result" where
  "item_get g here me now its uid c =
     (case map_get_item (s16 uid) its of
        None \<Rightarrow> (c, its, [])
      | Some it \<Rightarrow>
          if gm_DropDistance g < path_length (mi_x it) (mi_y it) (ch_x c) (ch_y c) then (c, its, [])
          else if mi_owner it \<noteq> int me \<and> now < mi_unprotecttime it then (c, its, [])
          else
            let taken = can_hold_item g (mi_id it) (mi_amount it) c
            in if 0 < taken
               then
                 let c1 = fst (add_item g (mi_id it) taken c);
                     (its1, ms) = map_del_some_item g here (mi_uid it) taken (Some me) its
                 in (c1, its1, mk_message me PACKET_ITEM PACKET_GET
                       [fshort uid, fshort (mi_id it), fthree taken, fchar (ch_weight c1), fchar (ch_maxweight c1)] # ms)
               else (c, its, []))"

section \<open>Identifiers of items\<close>

lemma lowest_free_id_spec:
  "n \<le> lowest_free_id n its \<and> (\<forall>it\<in>set its. mi_uid it \<noteq> lowest_free_id n its)
   \<and> (\<forall>k. n \<le> k \<and> k < lowest_free_id n its \<longrightarrow> (\<exists>it\<in>set its. mi_uid it = k))"
proof (induction n its rule: lowest_free_id.induct)
  case (1 n its)
  show ?case
  proof (cases "\<exists>it\<in>set its. mi_uid it = n")
    case True
    then have eq: "lowest_free_id n its = lowest_free_id (n + 1) its" by (simp add: lowest_free_id.simps [of n])
    have "\<exists>it\<in>set its. mi_uid it = k" if "n \<le> k" "k < lowest_free_id n its" for k
      using that True 1 [OF True] unfolding eq by (cases "k = n") auto
    with 1 [OF True] show ?thesis unfolding eq by auto
  next
    case False
    then show ?thesis by (auto simp: lowest_free_id.simps [of n])
  qed
qed

lemma generate_item_id_bound: "generate_item_id its \<le> int (length its) + 1"
proof -
  have "{1..<generate_item_id its} \<subseteq> mi_uid ` set its"
    using lowest_free_id_spec [of 1 its] by (auto simp: generate_item_id_def image_iff)
  then have "card {1..<generate_item_id its} \<le> card (mi_uid ` set its)" by (intro card_mono) auto
  also have "\<dots> \<le> length its" using card_image_le [of "set its" mi_uid] card_length [of its] by simp
  finally show ?thesis by simp
qed

text \<open>The search for a number for a new item, which starts again after every hit, always ends; it
  finds the least positive number that no item on the map has, which is at most one more than the number
  of items.\<close>

theorem generate_item_id_least:
  "0 < generate_item_id its \<and> generate_item_id its \<notin> set (map mi_uid its)
   \<and> {1..<generate_item_id its} \<subseteq> set (map mi_uid its) \<and> generate_item_id its \<le> int (length its) + 1"
  using lowest_free_id_spec [of 1 its] generate_item_id_bound [of its]
  by (auto simp: generate_item_id_def image_iff)

section \<open>The floor as a stock\<close>

definition floor_total :: "map_item list \<Rightarrow> int \<Rightarrow> int" where
  "floor_total its item = (\<Sum>it\<leftarrow>its. if mi_id it = item then mi_amount it else 0)"

definition floor_ok :: "map_item list \<Rightarrow> bool" where
  "floor_ok its \<longleftrightarrow> distinct (map mi_uid its) \<and> list_all (\<lambda>it. 0 < mi_amount it) its"

lemma floor_total_simps [simp]:
  "floor_total [] item = 0"
  "floor_total (it # its) item = (if mi_id it = item then mi_amount it else 0) + floor_total its item"
  "floor_total (its @ its') item = floor_total its item + floor_total its' item"
  by (simp_all add: floor_total_def)

lemma floor_ok_simps [simp]:
  "floor_ok []"
  "floor_ok (it # its) \<longleftrightarrow> 0 < mi_amount it \<and> mi_uid it \<notin> mi_uid ` set its \<and> floor_ok its"
  "floor_ok (its @ [it]) \<longleftrightarrow> 0 < mi_amount it \<and> mi_uid it \<notin> mi_uid ` set its \<and> floor_ok its"
  by (auto simp: floor_ok_def)

lemma map_get_item_simps [simp]:
  "map_get_item uid [] = None"
  "map_get_item uid (it # its) = (if mi_uid it = uid then Some it else map_get_item uid its)"
  by (simp_all add: map_get_item_def)

lemma map_get_itemD: "map_get_item uid its = Some it \<Longrightarrow> it \<in> set its \<and> mi_uid it = uid"
  by (induction its) (auto split: if_splits)

lemma uids_remove: "mi_uid ` set (remove_uid uid its) \<subseteq> mi_uid ` set its"
  by (induction its) auto

lemma remove_uid_spec:
  "floor_ok its \<Longrightarrow> map_get_item uid its = Some it \<Longrightarrow> floor_ok (remove_uid uid its)
   \<and> floor_total (remove_uid uid its) i = floor_total its i - (if mi_id it = i then mi_amount it else 0)"
proof (induction its)
  case (Cons a its)
  then show ?case using uids_remove [of uid its] by (auto split: if_splits)
qed simp

lemma change_uid_spec:
  "floor_ok its \<Longrightarrow> map_get_item uid its = Some it \<Longrightarrow> n < mi_amount it \<Longrightarrow>
   floor_ok (change_uid uid (\<lambda>it. it\<lparr>mi_amount := mi_amount it - n\<rparr>) its)
   \<and> mi_uid ` set (change_uid uid (\<lambda>it. it\<lparr>mi_amount := mi_amount it - n\<rparr>) its) = mi_uid ` set its
   \<and> floor_total (change_uid uid (\<lambda>it. it\<lparr>mi_amount := mi_amount it - n\<rparr>) its) i
       = floor_total its i - (if mi_id it = i then n else 0)"
  by (induction its) (auto split: if_splits)

lemma map_del_some_item_spec:
  assumes "floor_ok its" "map_get_item uid its = Some it" "0 < n" "n \<le> mi_amount it"
    and "map_del_some_item g here uid n from its = (its', ms)"
  shows "floor_ok its' \<and> floor_total its' i = floor_total its i - (if mi_id it = i then n else 0)"
  using assms remove_uid_spec [OF assms(1,2), of i] change_uid_spec [OF assms(1,2), of n i]
  by (auto simp: map_del_some_item_def map_del_item_def Let_def split: if_splits)

text \<open>C39: Taking an item from the floor conserves it: for every item, what the character owns and what
  lies on the floor add up to the same before and after, and items keep distinct numbers. What is taken
  has to fit the inventory.\<close>

theorem item_get_conserves:
  assumes "inventory_ok c" "floor_ok its" "item_get g here me now its uid c = (c', its', ms)"
    and "\<And>it n. map_get_item (s16 uid) its = Some it \<Longrightarrow> n = can_hold_item g (mi_id it) (mi_amount it) c \<Longrightarrow>
      0 < n \<Longrightarrow> inventory_room g c (mi_id it) n"
  shows "inventory_ok c' \<and> floor_ok its' \<and> owned c' i + floor_total its' i = owned c i + floor_total its i"
proof (cases "c' = c \<and> its' = its")
  case False
  then obtain it n where it: "map_get_item (s16 uid) its = Some it" and n: "0 < n"
      "n = can_hold_item g (mi_id it) (mi_amount it) c"
    using assms(3) by (auto simp: item_get_def Let_def split: option.splits if_splits)
  with False assms(3) obtain ms' where r: "c' = fst (add_item g (mi_id it) n c)"
      "map_del_some_item g here (s16 uid) n (Some me) its = (its', ms')"
    using map_get_itemD [OF it] by (auto simp: item_get_def Let_def split: if_splits prod.splits)
  have "0 < mi_amount it" using assms(2) map_get_itemD [OF it] by (auto simp: floor_ok_def list_all_iff)
  then have "n \<le> mi_amount it" using n(2) by (auto simp: can_hold_item_def Let_def)
  from map_del_some_item_spec [OF assms(2) it n(1) this r(2), of i]
    add_item_spec [OF assms(1) n(1) assms(4) [OF it n(2,1)]] r(1)
  show ?thesis by simp
qed (use assms in simp)

definition floor_full :: "game \<Rightarrow> int \<Rightarrow> int \<Rightarrow> map_item list \<Rightarrow> bool" where
  "floor_full g x y its \<longleftrightarrow>
     gm_MaxTile g \<le> int (length (filter (\<lambda>it. mi_x it = x \<and> mi_y it = y) its)) \<or> gm_MaxMap g \<le> int (length its)"

text \<open>The conditions under which the request is carried out.\<close>

definition drop_allowed ::
  "game \<Rightarrow> (int \<Rightarrow> int \<Rightarrow> bool) \<Rightarrow> gmap \<Rightarrow> int \<Rightarrow> int \<Rightarrow> int \<Rightarrow> int \<Rightarrow> chr \<Rightarrow> bool" where
  "drop_allowed g occupied m item n x y c \<longleftrightarrow>
     \<not> ch_trading c \<and> ch_can_interact_items c \<and> eif_special (eif_get (gm_eif g) item) \<noteq> EIF_Lore \<and> 0 < n
     \<and> path_length x y (ch_x c) (ch_y c) \<le> gm_DropDistance g \<and> map_walkable g occupied m x y False
     \<and> n \<le> has_item (s16 item) False c \<and> ch_mapid c \<noteq> gm_JailMap g"

text \<open>C40: A request to drop something that is not allowed changes nothing. An allowed one takes exactly the dropped amount
  from the inventory; where the floor has room the same amount lies on it afterwards, but when the position or the
  map is full the floor stays as it is: what was dropped is destroyed, because \<open>AddItem\<close> returns an item in that case
  as well and the handler takes that for success.\<close>

theorem item_drop_conserves_or_destroys:
  assumes "inventory_ok c" "stacks_ok (ch_trade_inventory c)" "floor_ok its" "length its < 32767"
    and "item_drop g occupied here me now m its item amount px py c = (c', its', ms)"
    and "(x, y) = drop_position px py c" and "n = min amount (gm_MaxDrop g)"
  shows "inventory_ok c' \<and> floor_ok its'
    \<and> (if drop_allowed g occupied m item n x y c
       then owned c' = (owned c)(s16 item := owned c (s16 item) - n)
         \<and> (if floor_full g x y its then its' = its
            else \<forall>i. floor_total its' i = floor_total its i + (if i = s16 item then n else 0))
       else c' = c \<and> its' = its \<and> ms = [])"
proof (cases "drop_allowed g occupied m item n x y c")
  case True
  define it where "it = \<lparr>mi_uid = s16 (generate_item_id its), mi_id = s16 item, mi_amount = n, mi_x = x, mi_y = y,
    mi_owner = int me, mi_unprotecttime = now + gm_ProtectPlayerDrop g\<rparr>"
  from True assms(5-7) have n: "0 < n" "n \<le> has_item (s16 item) False c"
    and c': "c' = fst (del_item g (s16 item) n c)"
    and its': "its' = (if floor_full g x y its then its else its @ [it])"
    by (auto simp: drop_allowed_def item_drop_def map_add_item_def floor_full_def it_def Let_def
        split: if_splits prod.splits)
  have "n \<le> owned c (s16 item)" using n has_item_le_owned [OF assms(1,2), of "s16 item" False] by linarith
  from del_item_spec [OF assms(1) n(1) this, of g]
  have own: "inventory_ok c'" "owned c' = (owned c)(s16 item := owned c (s16 item) - n)" unfolding c' by auto
  have "s16 (generate_item_id its) = generate_item_id its"
    using generate_item_id_bound [of its] lowest_free_id_spec [of 1 its] assms(4)
    by (intro s16_id) (auto simp: generate_item_id_def)
  then have "floor_ok (its @ [it])"
    using assms(3) n(1) lowest_free_id_spec [of 1 its] by (auto simp: it_def generate_item_id_def)
  with True own its' assms(3) show ?thesis by (auto simp: it_def)
next
  case False
  with assms show ?thesis by (auto simp: drop_allowed_def item_drop_def Let_def split: if_splits prod.splits)
qed

definition sample_field :: gmap where
  "sample_field = \<lparr>mp_width = 8, mp_height = 8, mp_tiles = replicate 64 \<lparr>tl_spec = Tile_None, tl_warp = False\<rparr>,
     mp_npcs = [], mp_chests = []\<rparr>"

definition sample_floor :: "map_item list" where
  "sample_floor = [\<lparr>mi_uid = 1, mi_id = 2, mi_amount = 7, mi_x = 5, mi_y = 5, mi_owner = 0, mi_unprotecttime = 0\<rparr>]"

lemma sample_chr_ok: "inventory_ok (sample_chr [(2, 40)])" "stacks_ok (ch_trade_inventory (sample_chr [(2, 40)]))"
  "owned (sample_chr [(2, 40)]) 2 = 40"
  by (simp_all add: inventory_ok_def owned_def sample_chr_def int_max_def)

lemma sample_floor_ok: "floor_ok sample_floor" "floor_total sample_floor 2 = 7"
  by (simp_all add: sample_floor_def)

theorem item_get_conserves_witness:
  "\<exists>c' its' ms. item_get sample_game [] 7 0 sample_floor 1 (sample_chr [(2, 40)]) = (c', its', ms)
    \<and> owned c' 2 + floor_total its' 2 = 47 \<and> its' = []"
proof -
  let ?c = "sample_chr [(2, 40)]"
  obtain c' its' ms where r: "item_get sample_game [] 7 0 sample_floor 1 ?c = (c', its', ms)" by (rule prod_cases3)
  have n: "can_hold_item sample_game 2 7 ?c = 7" "s16 1 = 1"
    by (simp_all add: can_hold_item_def Let_def sample_defs s16_def)
  have room: "inventory_room sample_game ?c 2 7"
    by (simp add: inventory_room_def item_exists_def owned_def sample_defs int_max_def)
  have "its' = []"
    using r n by (auto simp: item_get_def sample_floor_def path_length_def map_del_some_item_def map_del_item_def
        tell_def Let_def sample_game_def sample_chr_def)
  moreover have "owned c' 2 + floor_total its' 2 = owned ?c 2 + floor_total sample_floor 2"
    using item_get_conserves [OF sample_chr_ok(1) sample_floor_ok(1) r, of 2] n room
    by (fastforce simp: sample_floor_def)
  ultimately show ?thesis using r sample_chr_ok(3) sample_floor_ok(2) by auto
qed

theorem item_drop_conserves_or_destroys_witness:
  "\<exists>c' its' ms. item_drop (sample_game\<lparr>gm_MaxTile := 1\<rparr>) (\<lambda>_ _. False) [] 7 0 sample_field sample_floor 2 3 255 255
      (sample_chr [(2, 40)]) = (c', its', ms) \<and> its' = sample_floor \<and> owned c' 2 = 37"
proof -
  let ?c = "sample_chr [(2, 40)]" and ?g = "sample_game\<lparr>gm_MaxTile := 1\<rparr>"
  obtain c' its' ms where r: "item_drop ?g (\<lambda>_ _. False) [] 7 0 sample_field sample_floor 2 3 255 255 ?c = (c', its', ms)"
    by (rule prod_cases3)
  have pos: "(5, 5) = drop_position 255 255 ?c" by (simp add: drop_position_def sample_chr_def)
  have walk: "map_walkable ?g (\<lambda>_ _. False) sample_field 5 5 False"
    by (simp add: map_walkable_def get_tile_def in_bounds_def sample_field_def u8_def tile_walkable_def)
  have "drop_allowed ?g (\<lambda>_ _. False) sample_field 2 3 5 5 ?c"
    using walk by (simp add: drop_allowed_def path_length_def s16_def has_item_def sample_defs)
  moreover have "floor_full ?g 5 5 sample_floor" by (simp add: floor_full_def sample_floor_def)
  moreover have "3 = min 3 (gm_MaxDrop ?g)" by (simp add: sample_game_def)
  ultimately show ?thesis
    using item_drop_conserves_or_destroys [OF sample_chr_ok(1,2) sample_floor_ok(1) _ r pos, of 3] r sample_chr_ok(3)
    by (simp add: sample_floor_def s16_def)
qed

end
