(* ===== verification/Wedding.thy ===== *)
theory Wedding
  imports World_Map Util Floating EOPlus_Lexer
begin

text \<open>
  Weddings: the ceremony that a priest holds (\<^verbatim>\<open>src/wedding.cpp\<close>), a state machine driven by a timer, and the
  packets of the priest and of the registrar (\<^verbatim>\<open>src/handlers/Priest.cpp\<close>, \<^verbatim>\<open>src/handlers/Marriage.cpp\<close>). The
  world is one map with its priest; \<open>None\<close> is the use of a null pointer, or a number in the
  configuration that is out of range.
\<close>

section \<open>State\<close>

text \<open>The part of a \<open>Character\<close> that matters here: what the item handlers see, and two names.\<close>

record wchar =
  wc_chr :: chr
  wc_partner :: string
  wc_fiance :: string

record wedding =
  wd_priest :: int
  wd_state :: int
  wd_tick :: int
  wd_timer :: bool
  wd_partner1 :: string
  wd_partner2 :: string
  wd_requests :: "nat set"

text \<open>What is sent to players: packets, and the calls of functions that only send packets. \<open>Priest_Says\<close> names
  the text and its arguments.\<close>

datatype wnews =
    Priest_Says string "string list"
  | Map_Msg nat string
  | Effect nat int
  | Tile_Effect int int int
  | Sent message
  | Db_Divorce string string

text \<open>Characters are numbered, \<open>ww_chars\<close> gives the object behind a number; \<open>ww_online\<close> are the characters of
  the world and \<open>ww_here\<close> those of the map, in the order of its list. \<open>ww_has_wedding\<close> tells whether the
  pointer \<open>wedding\<close> of the map is set, to \<open>ww_wedding\<close>.\<close>

record wworld =
  ww_chars :: "nat \<Rightarrow> wchar"
  ww_online :: "nat list"
  ww_here :: "nat list"
  ww_npcs :: "npc list"
  ww_has_wedding :: bool
  ww_wedding :: wedding
  ww_news :: "wnews list"

record 'd wconf =
  wf_fp :: "'d fp"
  wf_game :: game
  wf_WeddingRing :: int
  wf_WeddingMusic :: int
  wf_WeddingMinLevel :: string
  wf_WeddingOutfitMale :: string
  wf_WeddingOutfitFemale :: string
  wf_MarriagePrice :: int
  wf_DivorcePrice :: int

definition wname :: "wworld \<Rightarrow> nat \<Rightarrow> string" where
  "wname w i = ch_name (wc_chr (ww_chars w i))"

definition set_wedding :: "(wedding \<Rightarrow> wedding) \<Rightarrow> wworld \<Rightarrow> wworld" where
  "set_wedding f w = w\<lparr>ww_wedding := f (ww_wedding w)\<rparr>"

definition set_wchar :: "nat \<Rightarrow> (wchar \<Rightarrow> wchar) \<Rightarrow> wworld \<Rightarrow> wworld" where
  "set_wchar i f w = w\<lparr>ww_chars := (ww_chars w)(i := f (ww_chars w i))\<rparr>"

definition news :: "wnews list \<Rightarrow> wworld \<Rightarrow> wworld" where
  "news ns w = w\<lparr>ww_news := ww_news w @ ns\<rparr>"

text \<open>\<open>Map::GetCharacter\<close>, \<open>World::GetCharacter\<close> and \<open>Map::GetNPCIndex\<close>.\<close>

definition map_character :: "string \<Rightarrow> wworld \<Rightarrow> nat option" where
  "map_character name w = find (\<lambda>i. wname w i = lowercase name) (ww_here w)"

definition world_character :: "string \<Rightarrow> wworld \<Rightarrow> nat option" where
  "world_character name w = find (\<lambda>i. wname w i = lowercase name) (ww_online w)"

definition npc_index :: "int \<Rightarrow> wworld \<Rightarrow> npc option" where
  "npc_index i w = find (\<lambda>n. np_index n = i) (ww_npcs w)"

section \<open>The ceremony\<close>

definition get_priest :: "wworld \<Rightarrow> npc option" where
  "get_priest w = npc_index (wd_priest (ww_wedding w)) w"

definition get_partner1 :: "wworld \<Rightarrow> nat option" where
  "get_partner1 w = map_character (wd_partner1 (ww_wedding w)) w"

definition get_partner2 :: "wworld \<Rightarrow> nat option" where
  "get_partner2 w = map_character (wd_partner2 (ww_wedding w)) w"

definition priest_say :: "string \<Rightarrow> string list \<Rightarrow> wworld \<Rightarrow> wworld" where
  "priest_say key args w = (if get_priest w = None then w else news [Priest_Says key args] w)"

definition start_timer :: "wworld \<Rightarrow> wworld" where
  "start_timer = set_wedding (\<lambda>d. d\<lparr>wd_timer := True\<rparr>)"

definition stop_timer :: "wworld \<Rightarrow> wworld" where
  "stop_timer = set_wedding (\<lambda>d. d\<lparr>wd_timer := False\<rparr>)"

definition wedding_reset :: "wworld \<Rightarrow> wworld" where
  "wedding_reset w =
     stop_timer (set_wedding (\<lambda>d. d\<lparr>wd_partner1 := [], wd_partner2 := [], wd_state := 0, wd_tick := 0\<rparr>) w)"

definition error_out :: "wworld \<Rightarrow> wworld" where
  "error_out w = wedding_reset (priest_say ''wedding_error'' [] w)"

text \<open>A computation on both partners; a partner that is not there is a null pointer.\<close>

definition with_partners :: "(nat \<Rightarrow> nat \<Rightarrow> wworld \<Rightarrow> wworld) \<Rightarrow> wworld \<Rightarrow> wworld option" where
  "with_partners f w =
     (case (get_partner1 w, get_partner2 w) of (Some p1, Some p2) \<Rightarrow> Some (f p1 p2 w) | _ \<Rightarrow> None)"

text \<open>The ring for one of the two.\<close>

definition give_ring :: "'d wconf \<Rightarrow> nat \<Rightarrow> wworld \<Rightarrow> wworld" where
  "give_ring S i w =
     (let ring_id = s16 (wf_WeddingRing S);
          r = add_item (wf_game S) ring_id 1 (wc_chr (ww_chars w i));
          w1 = set_wchar i (\<lambda>c. c\<lparr>wc_chr := fst r\<rparr>) w
      in if snd r
         then news [Sent (mk_message i PACKET_ITEM PACKET_GET
                [fshort 0, fshort ring_id, fthree 1, fchar (ch_weight (fst r)), fchar (ch_maxweight (fst r))])] w1
         else w1)"

definition marry :: "'d wconf \<Rightarrow> nat \<Rightarrow> nat \<Rightarrow> wworld \<Rightarrow> wworld" where
  "marry S p1 p2 w =
     (let w1 = set_wchar p1 (\<lambda>c. c\<lparr>wc_partner := wname w p2\<rparr>) w;
          w2 = set_wchar p2 (\<lambda>c. c\<lparr>wc_partner := wname w p1\<rparr>) w1;
          w3 = set_wchar p2 (\<lambda>c. c\<lparr>wc_fiance := []\<rparr>) (set_wchar p1 (\<lambda>c. c\<lparr>wc_fiance := []\<rparr>) w2)
      in if s16 (wf_WeddingRing S) \<noteq> 0 then give_ring S p2 (give_ring S p1 w3) else w3)"

text \<open>The branches of \<open>Tick\<close> for the tick 0, which is the one that \<open>ChangeState\<close> makes.\<close>

definition tick_zero :: "'d wconf \<Rightarrow> wworld \<Rightarrow> wworld option" where
  "tick_zero S w =
     (let st = wd_state (ww_wedding w)
      in if st = 1 then Some (priest_say ''wedding_wait'' [] w)
         else if st = 2 then with_partners (\<lambda>p1 p2 w. priest_say ''wedding_text1'' [wname w p1, wname w p2] w) w
         else if st = 3 then Some (priest_say ''wedding_text2'' [] w)
         else if st = 4 then with_partners (\<lambda>p1 p2 w. priest_say ''wedding_doyou'' [wname w p1, wname w p2] w) w
         else if st = 5 then Some w
         else if st = 6 then with_partners (\<lambda>p1 p2 w. priest_say ''wedding_doyou'' [wname w p2, wname w p1] w) w
         else if st = 7 then Some w
         else if st = 8 then with_partners (marry S) w
         else if st = 9 then Some (priest_say ''wedding_ring1'' [] w)
         else if st = 10 then Some (priest_say ''wedding_ring2'' [] w)
         else if st = 11 then with_partners (\<lambda>p1 p2. news [Effect p1 1, Effect p2 1]) w
         else if st = 12
         then with_partners (\<lambda>p1 p2 w.
                let c1 = wc_chr (ww_chars w p1); c2 = wc_chr (ww_chars w p2)
                in news [Tile_Effect (ch_x c1) (ch_y c1) 11, Tile_Effect (ch_x c2) (ch_y c2) 11]
                     (priest_say ''wedding_finish1'' [wname w p1, wname w p2] w)) w
         else if st = 13 then Some (wedding_reset (priest_say ''wedding_finish2'' [] w))
         else Some (error_out w))"

definition change_state :: "'d wconf \<Rightarrow> int \<Rightarrow> wworld \<Rightarrow> wworld option" where
  "change_state S st w =
     (if st = 0 then Some (stop_timer (set_wedding (\<lambda>d. d\<lparr>wd_state := 0, wd_tick := - 1\<rparr>) w))
      else tick_zero S (set_wedding (\<lambda>d. d\<lparr>wd_state := st, wd_tick := 0\<rparr>) w))"

definition wedding_check :: "'d wconf \<Rightarrow> wworld \<Rightarrow> (wworld \<times> bool) option" where
  "wedding_check S w =
     (if get_partner1 w = None \<or> get_partner2 w = None \<or> get_priest w = None
      then if wd_state (ww_wedding w) < 8 then Some (error_out w, False)
           else map_option (\<lambda>w1. (w1, False)) (change_state S 13 w)
      else Some (w, True))"

text \<open>\<open>if (this->Check()) ...\<close>\<close>

definition when_checked :: "'d wconf \<Rightarrow> (wworld \<Rightarrow> wworld option) \<Rightarrow> wworld \<Rightarrow> wworld option" where
  "when_checked S f w =
     (case wedding_check S w of None \<Rightarrow> None | Some (w1, ok) \<Rightarrow> if ok then f w1 else Some w1)"

definition next_state :: "'d wconf \<Rightarrow> wworld \<Rightarrow> wworld option" where
  "next_state S = when_checked S (\<lambda>w. change_state S (wd_state (ww_wedding w) + 1) w)"

text \<open>A computation on one of the partners, behind a null test that was made.\<close>

definition with_partner :: "nat option \<Rightarrow> (nat \<Rightarrow> wworld \<Rightarrow> wworld option) \<Rightarrow> wworld \<Rightarrow> wworld option" where
  "with_partner p f w = (case p of None \<Rightarrow> None | Some i \<Rightarrow> f i w)"

definition do_you :: "nat \<Rightarrow> wnews" where
  "do_you i = Sent (mk_message i PACKET_PRIEST PACKET_REPLY [fshort 6])"

definition ido :: "'d wconf \<Rightarrow> (wworld \<Rightarrow> nat option) \<Rightarrow> wworld \<Rightarrow> wworld option" where
  "ido S p w = with_partner (p w) (\<lambda>i w. Some (news [Map_Msg i ''wedding_ido''] w)) w"

text \<open>The branches of \<open>Tick\<close> for the other ticks.\<close>

definition tick_later :: "'d wconf \<Rightarrow> wworld \<Rightarrow> wworld option" where
  "tick_later S w =
     (let st = wd_state (ww_wedding w); t = wd_tick (ww_wedding w)
      in if st = 1
         then (if t = 1
               then Some (news (map (\<lambda>i. Sent (mk_message i PACKET_JUKEBOX PACKET_PLAYER [fchar (wf_WeddingMusic S)]))
                           (ww_here w)) w)
               else if t = 20 then next_state S w else Some w)
         else if st = 2 then (if t = 6 then next_state S w else Some w)
         else if st = 3 then (if t = 6 then next_state S w else Some w)
         else if st = 4
         then (if t = 3
               then when_checked S (\<lambda>w. with_partner (get_partner1 w) (\<lambda>i w. Some (news [do_you i] w)) w) w
               else if t = 13 then Some (error_out w) else Some w)
         else if st = 5
         then (if t = 1 then when_checked S (ido S get_partner1) w
               else if t = 7 then next_state S w else Some w)
         else if st = 6
         then (if t = 3
               then when_checked S (\<lambda>w. with_partner (get_partner2 w) (\<lambda>i w. Some (news [do_you i] w)) w) w
               else if t = 13 then Some (error_out w) else Some w)
         else if st = 7
         then (if t = 1
               then when_checked S (\<lambda>w. case ido S get_partner2 w of None \<Rightarrow> None | Some w1 \<Rightarrow> next_state S w1) w
               else Some w)
         else if st = 8 then (if t = 6 then next_state S w else Some w)
         else if st = 9 then (if t = 6 then next_state S w else Some w)
         else if st = 10 then (if t = 5 then next_state S w else Some w)
         else if st = 11 then (if t = 1 then next_state S w else Some w)
         else if st = 12 then (if t = 5 then next_state S w else Some w)
         else if st = 13 then Some w
         else Some (error_out w))"

definition wedding_tick :: "'d wconf \<Rightarrow> wworld \<Rightarrow> wworld option" where
  "wedding_tick S w =
     (if wd_state (ww_wedding w) = 0 then Some (stop_timer w)
      else
        let w1 = set_wedding (\<lambda>d. d\<lparr>wd_tick := wd_tick d + 1\<rparr>) w
        in if wd_tick (ww_wedding w1) = 0 then tick_zero S w1 else tick_later S w1)"

section \<open>Operations\<close>

definition request_wedding :: "nat \<Rightarrow> wworld \<Rightarrow> wworld" where
  "request_wedding i = set_wedding (\<lambda>d. d\<lparr>wd_requests := insert i (wd_requests d)\<rparr>)"

definition cancel_wedding_request :: "nat \<Rightarrow> wworld \<Rightarrow> wworld" where
  "cancel_wedding_request i = set_wedding (\<lambda>d. d\<lparr>wd_requests := wd_requests d - {i}\<rparr>)"

definition requested_wedding :: "nat \<Rightarrow> wworld \<Rightarrow> bool" where
  "requested_wedding i w \<longleftrightarrow> i \<in> wd_requests (ww_wedding w)"

definition start_wedding :: "'d wconf \<Rightarrow> string \<Rightarrow> string \<Rightarrow> wworld \<Rightarrow> (wworld \<times> bool) option" where
  "start_wedding S player1 player2 w =
     (if 0 < wd_state (ww_wedding w) then Some (w, False)
      else
        case next_state S (set_wedding (\<lambda>d. d\<lparr>wd_partner1 := player1, wd_partner2 := player2\<rparr>) w) of
          None \<Rightarrow> None
        | Some w1 \<Rightarrow> map_option (\<lambda>w2. (start_timer w2, True)) (wedding_tick S w1))"

definition busy :: "wworld \<Rightarrow> bool" where
  "busy w \<longleftrightarrow> wd_state (ww_wedding w) \<noteq> 0"

definition i_do :: "'d wconf \<Rightarrow> nat \<Rightarrow> wworld \<Rightarrow> wworld option" where
  "i_do S i w =
     (let required_state =
            (if wname w i = wd_partner1 (ww_wedding w) then 4
             else if wname w i = wd_partner2 (ww_wedding w) then 6 else 0)
      in if required_state = 0 \<or> wd_state (ww_wedding w) \<noteq> required_state then Some w
         else if i \<notin> set (ww_here w) then Some w
         else next_state S w)"

section \<open>The priest\<close>

definition priest_reply :: "nat \<Rightarrow> int \<Rightarrow> wnews" where
  "priest_reply i code = Sent (mk_message i PACKET_PRIEST PACKET_REPLY [fshort code])"

definition priest_accept :: "'d wconf \<Rightarrow> nat \<Rightarrow> wworld \<Rightarrow> wworld option" where
  "priest_accept S me w =
     (if wc_partner (ww_chars w me) \<noteq> [] then Some w
      else if \<not> ww_has_wedding w then Some w
      else
        let w1 = (if busy w then news [priest_reply me 5] w else w)
        in case world_character (wc_fiance (ww_chars w1 me)) w1 of
             None \<Rightarrow> Some (news [priest_reply me 3] w1)
           | Some partner \<Rightarrow>
               if partner \<notin> set (ww_here w1) then Some (news [priest_reply me 3] w1)
               else if requested_wedding partner w1
               then map_option fst (start_wedding S (wname w1 partner) (wname w1 me) w1)
               else Some w1)"

definition priest_open :: "nat \<Rightarrow> int \<Rightarrow> wworld \<Rightarrow> wworld" where
  "priest_open me idx w =
     (if wc_partner (ww_chars w me) \<noteq> [] then w
      else if \<not> ww_has_wedding w then w
      else case find_npc (\<lambda>n. np_index n = s16 idx \<and> np_type n = ENF_Priest) 0 (ww_npcs w) of
             None \<Rightarrow> w
           | Some (i, n) \<Rightarrow>
               if busy w then news [priest_reply me 5] w
               else
                 news [Sent (mk_message me PACKET_PRIEST PACKET_OPEN [fint (np_id n)])]
                   (set_wchar me (\<lambda>c. c\<lparr>wc_chr := (wc_chr c)\<lparr>ch_npc := i, ch_npc_type := ENF_Priest\<rparr>\<rparr>) w))"

text \<open>Whether one of the numbers of a list equals \<open>n\<close>; the loop returns at the first.\<close>

fun listed_number :: "'d fp \<Rightarrow> int \<Rightarrow> string list \<Rightarrow> bool option" where
  "listed_number f n [] = Some False"
| "listed_number f n (part # parts) =
     (case to_int f part of None \<Rightarrow> None | Some k \<Rightarrow> if k = n then Some True else listed_number f n parts)"

definition is_dressed :: "'d wconf \<Rightarrow> chr \<Rightarrow> bool option" where
  "is_dressed S c =
     (let config_value = (if ch_gender c = 1 then wf_WeddingOutfitMale S else wf_WeddingOutfitFemale S)
      in if config_value = ''0'' then Some True
         else listed_number (wf_fp S) (ch_paperdoll c ! slot_no Armor) (explode CHR '','' config_value))"

definition priest_request :: "'d wconf \<Rightarrow> nat \<Rightarrow> string \<Rightarrow> wworld \<Rightarrow> wworld option" where
  "priest_request S me name0 w =
     (let name = lowercase name0; c = ww_chars w me
      in if ch_npc_type (wc_chr c) \<noteq> ENF_Priest then Some w
         else if \<not> ww_has_wedding w then None
         else
           let w1 = (if busy w then news [priest_reply me 5] w else w)
           in if name \<noteq> wc_fiance c \<or> name = wname w me then Some (news [priest_reply me 8] w1)
              else case world_character (wc_fiance c) w of
                     None \<Rightarrow> Some (news [priest_reply me 3] w1)
                   | Some p \<Rightarrow>
                       if p \<notin> set (ww_here w) then Some (news [priest_reply me 3] w1)
                       else if wc_fiance (ww_chars w p) \<noteq> wname w me then Some (news [priest_reply me 8] w1)
                       else if wc_partner (ww_chars w p) \<noteq> [] then Some (news [priest_reply me 7] w1)
                       else case is_dressed S (wc_chr c) of
                              None \<Rightarrow> None
                            | Some False \<Rightarrow> Some (news [priest_reply me 1] w1)
                            | Some True \<Rightarrow>
                                (case is_dressed S (wc_chr (ww_chars w p)) of
                                   None \<Rightarrow> None
                                 | Some False \<Rightarrow> Some (news [priest_reply me 4] w1)
                                 | Some True \<Rightarrow>
                                     (case to_int (wf_fp S) (wf_WeddingMinLevel S) of
                                        None \<Rightarrow> None
                                      | Some min_level \<Rightarrow>
                                          if ch_level (wc_chr c) < min_level
                                          then Some (news [Sent (mk_message me PACKET_PRIEST PACKET_REPLY [fchar 2])] w1)
                                          else Some (news [Sent (mk_message p PACKET_PRIEST PACKET_REQUEST
                                                       (fshort 1 # fstring (wname w me)))]
                                                 (request_wedding me w1)))))"

definition priest_use :: "'d wconf \<Rightarrow> nat \<Rightarrow> wworld \<Rightarrow> wworld option" where
  "priest_use S me w = (if \<not> ww_has_wedding w then Some w else i_do S me w)"

section \<open>The registrar\<close>

definition marriage_open :: "nat \<Rightarrow> int \<Rightarrow> wworld \<Rightarrow> wworld" where
  "marriage_open me idx w =
     (case find_npc (\<lambda>n. np_index n = s16 idx \<and> np_type n = ENF_Law) 0 (ww_npcs w) of
        None \<Rightarrow> w
      | Some (i, n) \<Rightarrow>
          news [Sent (mk_message me PACKET_MARRIAGE PACKET_OPEN [fthree (np_id n)])]
            (set_wchar me (\<lambda>c. c\<lparr>wc_chr := (wc_chr c)\<lparr>ch_npc := i, ch_npc_type := ENF_Law\<rparr>\<rparr>) w))"

definition valid_name :: "string \<Rightarrow> bool" where
  "valid_name name \<longleftrightarrow>
     4 \<le> length name \<and> length name \<le> 12 \<and> list_all is_lower_char name \<and> name \<noteq> ''server''"

definition marriage_reply :: "nat \<Rightarrow> int \<Rightarrow> wnews" where
  "marriage_reply i code = Sent (mk_message i PACKET_MARRIAGE PACKET_REPLY [fshort code])"

text \<open>The second argument of \<open>HasItem\<close> is a \<open>bool\<close>, whether what is offered in a trade counts.\<close>

definition pay :: "'d wconf \<Rightarrow> nat \<Rightarrow> int \<Rightarrow> wworld \<Rightarrow> wworld" where
  "pay S i price = set_wchar i (\<lambda>c. c\<lparr>wc_chr := fst (del_item (wf_game S) 1 price (wc_chr c))\<rparr>)"

definition paid :: "nat \<Rightarrow> wworld \<Rightarrow> wworld" where
  "paid me w = news [Sent (mk_message me PACKET_MARRIAGE PACKET_REPLY
     [fshort 3, fint (has_item 1 False (wc_chr (ww_chars w me)))])] w"

definition marriage_approval :: "'d wconf \<Rightarrow> nat \<Rightarrow> string \<Rightarrow> wworld \<Rightarrow> wworld" where
  "marriage_approval S me name w =
     (let price = wf_MarriagePrice S
      in if wc_partner (ww_chars w me) \<noteq> [] then news [marriage_reply me 1] w
         else if has_item 1 (price \<noteq> 0) (wc_chr (ww_chars w me)) = 0 then news [marriage_reply me 4] w
         else if valid_name name
         then paid me (set_wchar me (\<lambda>c. c\<lparr>wc_fiance := name\<rparr>) (pay S me price w))
         else w)"

definition divorce :: "'d wconf \<Rightarrow> nat \<Rightarrow> string \<Rightarrow> wworld \<Rightarrow> wworld" where
  "divorce S me name w =
     (let price = wf_DivorcePrice S; c = ww_chars w me
      in if wc_partner c = [] then news [marriage_reply me 2] w
         else if has_item 1 (price \<noteq> 0) (wc_chr c) = 0 then news [marriage_reply me 4] w
         else if wc_partner c \<noteq> name then news [marriage_reply me 5] w
         else
           let w1 = (case world_character name w of
                       Some p \<Rightarrow> news [marriage_reply p 7] (set_wchar p (\<lambda>c. c\<lparr>wc_partner := []\<rparr>) w)
                     | None \<Rightarrow> news [Db_Divorce name (wname w me)] w)
           in paid me (pay S me price (set_wchar me (\<lambda>c. c\<lparr>wc_partner := []\<rparr>) w1)))"

definition marriage_request :: "'d wconf \<Rightarrow> nat \<Rightarrow> int \<Rightarrow> string \<Rightarrow> wworld \<Rightarrow> wworld" where
  "marriage_request S me request_type name0 w =
     (let name = lowercase name0
      in if ch_npc_type (wc_chr (ww_chars w me)) \<noteq> ENF_Law then w
         else if u8 request_type = 1 then marriage_approval S me name w
         else if u8 request_type = 2 then divorce S me name w
         else w)"

section \<open>The map\<close>

definition new_wedding :: "int \<Rightarrow> wedding" where
  "new_wedding priest = \<lparr>wd_priest = priest, wd_state = 0, wd_tick = 0, wd_timer = False, wd_partner1 = [],
     wd_partner2 = [], wd_requests = {}\<rparr>"

definition load_wedding :: "wworld \<Rightarrow> wworld" where
  "load_wedding w =
     (case find (\<lambda>n. np_type n = ENF_Priest) (ww_npcs w) of
        None \<Rightarrow> w
      | Some n \<Rightarrow> w\<lparr>ww_has_wedding := True, ww_wedding := new_wedding (np_index n)\<rparr>)"

text \<open>A character that arrives has been reset by \<open>Warp\<close>, or was just made.\<close>

definition wmap_enter :: "nat \<Rightarrow> wworld \<Rightarrow> wworld" where
  "wmap_enter i w = w\<lparr>ww_here := ww_here w @ [i]\<rparr>"

definition wmap_leave :: "nat \<Rightarrow> wworld \<Rightarrow> wworld" where
  "wmap_leave i w =
     (let w1 = (if ww_has_wedding w then cancel_wedding_request i w else w)
      in w1\<lparr>ww_here := filter (\<lambda>c. c \<noteq> i) (ww_here w1)\<rparr>)"

section \<open>Events\<close>

text \<open>\<open>Others\<close> stands for every other handler that changes what the item handlers see of a character.\<close>

datatype wevent =
    Timer
  | Accept nat
  | Request nat string
  | Open_Priest nat int
  | I_Do nat
  | Open_Law nat int
  | Law_Request nat int string
  | Enter_Map nat
  | Leave_Map nat
  | Others nat chr

fun wedding_step :: "'d wconf \<Rightarrow> wevent \<Rightarrow> wworld \<Rightarrow> wworld option" where
  "wedding_step S Timer w = (if wd_timer (ww_wedding w) then wedding_tick S w else Some w)"
| "wedding_step S (Accept i) w = priest_accept S i w"
| "wedding_step S (Request i name) w = priest_request S i name w"
| "wedding_step S (Open_Priest i n) w = Some (priest_open i n w)"
| "wedding_step S (I_Do i) w = priest_use S i w"
| "wedding_step S (Open_Law i n) w = Some (marriage_open i n w)"
| "wedding_step S (Law_Request i t name) w = Some (marriage_request S i t name w)"
| "wedding_step S (Enter_Map i) w = Some (wmap_enter i w)"
| "wedding_step S (Leave_Map i) w = Some (wmap_leave i w)"
| "wedding_step S (Others i c) w = Some (set_wchar i (\<lambda>d. d\<lparr>wc_chr := c\<rparr>) w)"

text \<open>Packets come from characters of the map; whoever arrives talks to no NPC; no other handler makes a character
  talk to a priest or changes its name.\<close>

fun may_happen :: "wworld \<Rightarrow> wevent \<Rightarrow> bool" where
  "may_happen w Timer = True"
| "may_happen w (Accept i) = (i \<in> set (ww_here w))"
| "may_happen w (Request i name) = (i \<in> set (ww_here w))"
| "may_happen w (Open_Priest i n) = (i \<in> set (ww_here w))"
| "may_happen w (I_Do i) = (i \<in> set (ww_here w))"
| "may_happen w (Open_Law i n) = (i \<in> set (ww_here w))"
| "may_happen w (Law_Request i t name) = (i \<in> set (ww_here w))"
| "may_happen w (Enter_Map i) = (i \<notin> set (ww_here w) \<and> ch_npc_type (wc_chr (ww_chars w i)) \<noteq> ENF_Priest)"
| "may_happen w (Leave_Map i) = (i \<in> set (ww_here w))"
| "may_happen w (Others i c) =
     (ch_name c = wname w i \<and> (ch_npc_type c = ENF_Priest \<longrightarrow> ch_npc_type (wc_chr (ww_chars w i)) = ENF_Priest))"

section \<open>What the parts of a ceremony leave alone\<close>

text \<open>What no step of a ceremony changes; the state and tick; the names of the partners; who is married to whom.\<close>

definition static :: "wworld \<Rightarrow> nat list \<times> nat list \<times> npc list \<times> bool \<times> nat set \<times> int \<times> (nat \<Rightarrow> string \<times> npc_type)" where
  "static w = (ww_here w, ww_online w, ww_npcs w, ww_has_wedding w, wd_requests (ww_wedding w), wd_priest (ww_wedding w),
     \<lambda>i. (wname w i, ch_npc_type (wc_chr (ww_chars w i))))"

definition phase :: "wworld \<Rightarrow> int \<times> int \<times> bool" where
  "phase w = (wd_state (ww_wedding w), wd_tick (ww_wedding w), wd_timer (ww_wedding w))"

definition spouses :: "wworld \<Rightarrow> string \<times> string" where
  "spouses w = (wd_partner1 (ww_wedding w), wd_partner2 (ww_wedding w))"

definition marriages :: "wworld \<Rightarrow> nat \<Rightarrow> string" where
  "marriages w i = wc_partner (ww_chars w i)"

lemma busy_phase: "busy w \<longleftrightarrow> fst (phase w) \<noteq> 0"
  by (simp add: busy_def phase_def)

named_theorems wedding_simps \<open>what a part of the ceremony leaves alone\<close>

lemma news_simps [wedding_simps]:
  "static (news ns w) = static w" "phase (news ns w) = phase w" "spouses (news ns w) = spouses w"
  "marriages (news ns w) = marriages w" "ww_wedding (news ns w) = ww_wedding w" "ww_here (news ns w) = ww_here w"
  "ww_chars (news ns w) = ww_chars w" "wname (news ns w) = wname w"
  by (simp_all add: static_def phase_def spouses_def marriages_def wname_def news_def fun_eq_iff)

lemma priest_say_simps [wedding_simps]:
  "static (priest_say k as w) = static w" "phase (priest_say k as w) = phase w"
  "spouses (priest_say k as w) = spouses w" "marriages (priest_say k as w) = marriages w"
  by (simp_all add: priest_say_def wedding_simps)

lemma wedding_reset_simps [wedding_simps]:
  "static (wedding_reset w) = static w" "phase (wedding_reset w) = (0, 0, False)"
  "spouses (wedding_reset w) = ([], [])" "marriages (wedding_reset w) = marriages w"
  by (simp_all add: wedding_reset_def static_def phase_def spouses_def marriages_def wname_def stop_timer_def
      set_wedding_def fun_eq_iff)

lemma error_out_simps [wedding_simps]:
  "static (error_out w) = static w" "phase (error_out w) = (0, 0, False)" "marriages (error_out w) = marriages w"
  by (simp_all add: error_out_def wedding_simps)

lemma timer_simps [wedding_simps]:
  "static (start_timer w) = static w" "static (stop_timer w) = static w"
  "marriages (start_timer w) = marriages w" "marriages (stop_timer w) = marriages w"
  "spouses (start_timer w) = spouses w" "spouses (stop_timer w) = spouses w"
  "wd_state (ww_wedding (start_timer w)) = wd_state (ww_wedding w)"
  "wd_state (ww_wedding (stop_timer w)) = wd_state (ww_wedding w)"
  "wd_tick (ww_wedding (stop_timer w)) = wd_tick (ww_wedding w)"
  "phase (start_timer w) = (wd_state (ww_wedding w), wd_tick (ww_wedding w), True)"
  "phase (stop_timer w) = (wd_state (ww_wedding w), wd_tick (ww_wedding w), False)"
  by (simp_all add: start_timer_def stop_timer_def static_def marriages_def spouses_def phase_def wname_def
      set_wedding_def fun_eq_iff)

lemma static_eqD:
  "static w' = static w \<Longrightarrow> ww_here w' = ww_here w \<and> ww_online w' = ww_online w \<and> ww_npcs w' = ww_npcs w
    \<and> ww_has_wedding w' = ww_has_wedding w \<and> wd_requests (ww_wedding w') = wd_requests (ww_wedding w)
    \<and> wname w' = wname w \<and> ch_npc_type (wc_chr (ww_chars w' i)) = ch_npc_type (wc_chr (ww_chars w i))"
  by (auto simp: static_def fun_eq_iff)

lemma same_partners:
  "static w' = static w \<Longrightarrow> spouses w' = spouses w \<Longrightarrow>
    get_partner1 w' = get_partner1 w \<and> get_partner2 w' = get_partner2 w \<and> get_priest w' = get_priest w"
  by (auto simp: get_partner1_def get_partner2_def get_priest_def map_character_def npc_index_def static_def spouses_def
      fun_eq_iff)

lemma calculate_stats_name [simp]: "ch_name (calculate_stats g c) = ch_name c"
  by (simp add: calculate_stats_def Let_def)

lemma item_names [simp]:
  "ch_name (fst (add_item g i n c)) = ch_name c" "ch_name (fst (del_item g i n c)) = ch_name c"
  by (simp_all add: add_item_def del_item_def split: option.split)

lemma give_ring_simps [wedding_simps]:
  "static (give_ring S i w) = static w" "phase (give_ring S i w) = phase w" "spouses (give_ring S i w) = spouses w"
  "marriages (give_ring S i w) = marriages w"
  by (simp_all add: give_ring_def Let_def static_def phase_def spouses_def marriages_def wname_def news_def
      set_wchar_def fun_eq_iff)

lemma marry_simps [wedding_simps]:
  "static (marry S p1 p2 w) = static w" "phase (marry S p1 p2 w) = phase w" "spouses (marry S p1 p2 w) = spouses w"
  "marriages (marry S p1 p2 w) = (marriages w)(p1 := wname w p2, p2 := wname w p1)"
proof -
  let ?w = "set_wchar p2 (\<lambda>c. c\<lparr>wc_fiance := []\<rparr>) (set_wchar p1 (\<lambda>c. c\<lparr>wc_fiance := []\<rparr>)
    (set_wchar p2 (\<lambda>c. c\<lparr>wc_partner := wname w p1\<rparr>) (set_wchar p1 (\<lambda>c. c\<lparr>wc_partner := wname w p2\<rparr>) w)))"
  have "static ?w = static w \<and> phase ?w = phase w \<and> spouses ?w = spouses w
      \<and> marriages ?w = (marriages w)(p1 := wname w p2, p2 := wname w p1)"
    by (simp add: static_def phase_def spouses_def marriages_def wname_def set_wchar_def fun_eq_iff)
  then show "static (marry S p1 p2 w) = static w" "phase (marry S p1 p2 w) = phase w"
    "spouses (marry S p1 p2 w) = spouses w"
    "marriages (marry S p1 p2 w) = (marriages w)(p1 := wname w p2, p2 := wname w p1)"
    by (simp_all add: marry_def Let_def wedding_simps)
qed

section \<open>Moving through the ceremony\<close>

text \<open>The tick at which a state ends: it goes on to the next one, or, where a partner is asked, gives up.\<close>

definition limits :: "int list" where
  "limits = [20, 6, 6, 13, 7, 13, 1, 6, 6, 5, 1, 5]"

definition limit :: "int \<Rightarrow> int" where
  "limit st = limits ! nat (st - 1)"

text \<open>A step that ends the ceremony or goes on to the next state. Entering state 8 marries.\<close>

definition moved :: "wworld \<Rightarrow> wworld \<Rightarrow> bool" where
  "moved w w' \<longleftrightarrow> static w' = static w \<and>
     (phase w' = (0, 0, False) \<and> marriages w' = marriages w
      \<or> (let st = wd_state (ww_wedding w) + 1
         in st \<le> 12 \<and> phase w' = (st, 0, wd_timer (ww_wedding w)) \<and> spouses w' = spouses w
            \<and> (if st = 8
               then \<exists>p1 p2. get_partner1 w = Some p1 \<and> get_partner2 w = Some p2
                      \<and> marriages w' = (marriages w)(p1 := wname w p2, p2 := wname w p1)
               else marriages w' = marriages w)))"

lemma states_12:
  assumes "1 \<le> (st::int)" "st \<le> 12"
  obtains "st = 1" | "st = 2" | "st = 3" | "st = 4" | "st = 5" | "st = 6" | "st = 7" | "st = 8" | "st = 9" | "st = 10"
    | "st = 11" | "st = 12"
proof -
  have "st = 1 \<or> st = 2 \<or> st = 3 \<or> st = 4 \<or> st = 5 \<or> st = 6 \<or> st = 7 \<or> st = 8 \<or> st = 9 \<or> st = 10 \<or> st = 11 \<or> st = 12"
    using assms by arith
  then show thesis using that by blast
qed

lemma with_partners_Some:
  "get_partner1 w = Some p1 \<Longrightarrow> get_partner2 w = Some p2 \<Longrightarrow> with_partners f w = Some (f p1 p2 w)"
  by (simp add: with_partners_def)

text \<open>The state is set before the branch for the tick 0 runs.\<close>

definition at_state :: "int \<Rightarrow> wworld \<Rightarrow> wworld" where
  "at_state st = set_wedding (\<lambda>d. d\<lparr>wd_state := st, wd_tick := 0\<rparr>)"

lemma at_state_simps [wedding_simps]:
  "static (at_state st w) = static w" "phase (at_state st w) = (st, 0, wd_timer (ww_wedding w))"
  "spouses (at_state st w) = spouses w" "marriages (at_state st w) = marriages w"
  "wd_state (ww_wedding (at_state st w)) = st" "wname (at_state st w) = wname w"
  by (simp_all add: at_state_def set_wedding_def static_def phase_def spouses_def marriages_def wname_def fun_eq_iff)

lemma change_state_later:
  assumes "1 \<le> st" "st \<le> 12" "get_partner1 w = Some p1" "get_partner2 w = Some p2"
  shows "\<exists>w'. change_state S st w = Some w' \<and> static w' = static w \<and> phase w' = (st, 0, wd_timer (ww_wedding w))
    \<and> spouses w' = spouses w
    \<and> marriages w' = (if st = 8 then (marriages w)(p1 := wname w p2, p2 := wname w p1) else marriages w)"
proof -
  have partners: "get_partner1 (at_state n w) = Some p1" "get_partner2 (at_state n w) = Some p2" for n
    using same_partners [of "at_state n w" w] assms(3,4) by (simp_all add: wedding_simps)
  have "change_state S st w = tick_zero S (at_state st w)" using assms(1) by (simp add: change_state_def at_state_def)
  then show ?thesis
    using assms(1,2)
    by (elim states_12)
      (simp_all add: tick_zero_def with_partners_Some [OF partners] wedding_simps Let_def)
qed

lemma change_state_last:
  "\<exists>w'. change_state S 13 w = Some w' \<and> static w' = static w \<and> phase w' = (0, 0, False) \<and> marriages w' = marriages w"
  by (simp add: change_state_def at_state_def [symmetric] tick_zero_def wedding_simps Let_def)

lemma check_fails:
  assumes "get_partner1 w = None \<or> get_partner2 w = None \<or> get_priest w = None"
  shows "\<exists>w'. wedding_check S w = Some (w', False) \<and> static w' = static w \<and> phase w' = (0, 0, False)
    \<and> marriages w' = marriages w"
  using assms change_state_last [of S w] by (auto simp: wedding_check_def wedding_simps)

lemma when_checked_cases:
  assumes "\<And>p1 p2. get_partner1 w = Some p1 \<Longrightarrow> get_partner2 w = Some p2 \<Longrightarrow> \<exists>w'. f w = Some w' \<and> P w'"
    and "\<And>w'. static w' = static w \<Longrightarrow> phase w' = (0, 0, False) \<Longrightarrow> marriages w' = marriages w \<Longrightarrow> P w'"
  shows "\<exists>w'. when_checked S f w = Some w' \<and> P w'"
proof (cases "get_partner1 w = None \<or> get_partner2 w = None \<or> get_priest w = None")
  case True
  then show ?thesis using check_fails [of w S] assms(2) by (auto simp: when_checked_def)
next
  case False
  then show ?thesis using assms(1) by (auto simp: when_checked_def wedding_check_def)
qed

lemma next_state_moves:
  assumes "0 \<le> wd_state (ww_wedding w)" "wd_state (ww_wedding w) \<le> 12"
  shows "\<exists>w'. next_state S w = Some w' \<and> moved w w'"
  unfolding next_state_def
proof (rule when_checked_cases)
  fix p1 p2
  assume p: "get_partner1 w = Some p1" "get_partner2 w = Some p2"
  show "\<exists>w'. change_state S (wd_state (ww_wedding w) + 1) w = Some w' \<and> moved w w'"
  proof (cases "wd_state (ww_wedding w) = 12")
    case True
    then show ?thesis using change_state_last [of S w] by (auto simp: moved_def)
  next
    case False
    then show ?thesis
      using change_state_later [OF _ _ p, of "wd_state (ww_wedding w) + 1" S] assms p
      by (auto simp: moved_def Let_def)
  qed
qed (simp add: moved_def)

definition ticked :: "wworld \<Rightarrow> wworld" where
  "ticked = set_wedding (\<lambda>d. d\<lparr>wd_tick := wd_tick d + 1\<rparr>)"

text \<open>A tick that stays in its state.\<close>

definition stayed :: "wworld \<Rightarrow> wworld \<Rightarrow> bool" where
  "stayed w w' \<longleftrightarrow> static w' = static w \<and> spouses w' = spouses w \<and> marriages w' = marriages w
     \<and> phase w' = (wd_state (ww_wedding w), wd_tick (ww_wedding w) + 1, wd_timer (ww_wedding w))
     \<and> wd_tick (ww_wedding w) + 1 < limit (wd_state (ww_wedding w))"

lemma ticked_simps [wedding_simps]:
  "static (ticked w) = static w" "spouses (ticked w) = spouses w" "marriages (ticked w) = marriages w"
  "wd_state (ww_wedding (ticked w)) = wd_state (ww_wedding w)"
  "wd_tick (ww_wedding (ticked w)) = wd_tick (ww_wedding w) + 1"
  "wd_timer (ww_wedding (ticked w)) = wd_timer (ww_wedding w)"
  "wname (ticked w) = wname w" "ww_here (ticked w) = ww_here w"
  by (simp_all add: ticked_def set_wedding_def static_def spouses_def marriages_def wname_def fun_eq_iff)

lemma moved_cong:
  assumes "static w1 = static w" "spouses w1 = spouses w" "marriages w1 = marriages w"
    "wd_state (ww_wedding w1) = wd_state (ww_wedding w)" "wd_timer (ww_wedding w1) = wd_timer (ww_wedding w)"
  shows "moved w1 w' \<longleftrightarrow> moved w w'"
  using assms same_partners [OF assms(1,2)] static_eqD [OF assms(1)] by (simp add: moved_def)

text \<open>What the timer can do beside: the states in which a partner is asked are not left by it.\<close>

definition timed :: "wworld \<Rightarrow> wworld \<Rightarrow> bool" where
  "timed w w' \<longleftrightarrow> moved w w' \<and> (wd_state (ww_wedding w) = 4 \<or> wd_state (ww_wedding w) = 6 \<longrightarrow> \<not> busy w')"

lemma error_out_moves: "timed w (error_out (ticked w))"
  by (simp add: timed_def moved_def wedding_simps busy_phase)

lemma next_state_ticked:
  assumes "1 \<le> wd_state (ww_wedding w)" "wd_state (ww_wedding w) \<le> 12"
  shows "\<exists>w'. next_state S (ticked w) = Some w' \<and> moved w w'"
  using next_state_moves [of "ticked w" S] assms moved_cong [of "ticked w" w] by (auto simp: wedding_simps)

lemma next_state_news:
  assumes "1 \<le> wd_state (ww_wedding w)" "wd_state (ww_wedding w) \<le> 12"
  shows "\<exists>w'. next_state S (news ns (ticked w)) = Some w' \<and> moved w w'"
  using next_state_moves [of "news ns (ticked w)" S] assms moved_cong [of "news ns (ticked w)" w]
  by (auto simp: wedding_simps)

lemma stayed_ticked:
  "wd_tick (ww_wedding w) + 1 < limit (wd_state (ww_wedding w)) \<Longrightarrow> stayed w (ticked w) \<and> stayed w (news ns (ticked w))"
  by (simp add: stayed_def wedding_simps phase_def)

lemma checked_moves:
  assumes "\<And>p1 p2. get_partner1 (ticked w) = Some p1 \<Longrightarrow> get_partner2 (ticked w) = Some p2 \<Longrightarrow>
      \<exists>w'. f (ticked w) = Some w' \<and> (timed w w' \<or> stayed w w')"
  shows "\<exists>w'. when_checked S f (ticked w) = Some w' \<and> (timed w w' \<or> stayed w w')"
  by (rule when_checked_cases) (use assms in \<open>auto simp: timed_def moved_def wedding_simps busy_phase\<close>)

lemma limit_simps:
  "limit 1 = 20" "limit 2 = 6" "limit 3 = 6" "limit 4 = 13" "limit 5 = 7" "limit 6 = 13" "limit 7 = 1"
  "limit 8 = 6" "limit 9 = 6" "limit 10 = 5" "limit 11 = 1" "limit 12 = 5"
  by (simp_all add: limit_def limits_def)

lemma tick_later_moves:
  assumes "1 \<le> wd_state (ww_wedding w)" "wd_state (ww_wedding w) \<le> 12" "0 \<le> wd_tick (ww_wedding w)"
    "wd_tick (ww_wedding w) < limit (wd_state (ww_wedding w))"
  shows "\<exists>w'. tick_later S (ticked w) = Some w' \<and> (timed w w' \<or> stayed w w')"
proof -
  note forward = next_state_ticked [OF assms(1,2), of S] and err = error_out_moves [of w] and stay = stayed_ticked [of w]
  have go: "\<exists>w'. (if t = l then next_state S (ticked w) else Some (ticked w)) = Some w' \<and> (timed w w' \<or> stayed w w')"
    if "t = wd_tick (ww_wedding w) + 1" "l = limit (wd_state (ww_wedding w))"
      "wd_state (ww_wedding w) \<noteq> 4" "wd_state (ww_wedding w) \<noteq> 6" for t l
    using forward stay assms(4) that by (auto simp: timed_def)
  have ask: "\<exists>w'. when_checked S (\<lambda>w. with_partner (p w) (\<lambda>i w. Some (news (ns i) w)) w) (ticked w) = Some w'
      \<and> (timed w w' \<or> stayed w w')"
    if "wd_tick (ww_wedding w) + 1 < limit (wd_state (ww_wedding w))" "p = get_partner1 \<or> p = get_partner2" for p ns
    by (rule checked_moves) (use stay [OF that(1)] that(2) in \<open>auto simp: with_partner_def\<close>)
  have vow: "\<exists>w'. when_checked S (\<lambda>w. case ido S get_partner2 w of None \<Rightarrow> None | Some w1 \<Rightarrow> next_state S w1) (ticked w) = Some w'
      \<and> (timed w w' \<or> stayed w w')" if "wd_state (ww_wedding w) = 7"
    by (rule checked_moves) (use next_state_news [OF assms(1,2)] that in \<open>auto simp: ido_def with_partner_def timed_def\<close>)
  from assms(1,2) show ?thesis
  proof (cases rule: states_12)
    case 1
    then show ?thesis using go [of _ 20] stay assms(3) by (auto simp: tick_later_def wedding_simps limit_simps Let_def)
  next
    case 4
    then show ?thesis using ask [of get_partner1 "\<lambda>i. [do_you i]"] err stay assms(3,4)
      by (auto simp: tick_later_def wedding_simps limit_simps Let_def)
  next
    case 5
    then show ?thesis using go [of _ 7] ask [of get_partner1 "\<lambda>i. [Map_Msg i ''wedding_ido'']"] assms(3)
      by (auto simp: tick_later_def wedding_simps limit_simps ido_def [abs_def] Let_def)
  next
    case 6
    then show ?thesis using ask [of get_partner2 "\<lambda>i. [do_you i]"] err stay assms(3,4)
      by (auto simp: tick_later_def wedding_simps limit_simps Let_def)
  next
    case 7
    then show ?thesis using vow assms(3,4) by (simp add: tick_later_def wedding_simps limit_simps Let_def)
  qed (use go in \<open>simp_all add: tick_later_def wedding_simps limit_simps Let_def\<close>)
qed

lemma tick_moves:
  assumes "1 \<le> wd_state (ww_wedding w)" "wd_state (ww_wedding w) \<le> 12" "0 \<le> wd_tick (ww_wedding w)"
    "wd_tick (ww_wedding w) < limit (wd_state (ww_wedding w))"
  shows "\<exists>w'. wedding_tick S w = Some w' \<and> (timed w w' \<or> stayed w w')"
  using tick_later_moves [OF assms, of S] assms
  by (simp add: wedding_tick_def ticked_def [symmetric] wedding_simps Let_def)

section \<open>The invariant\<close>

definition phase_ok :: "wworld \<Rightarrow> bool" where
  "phase_ok w \<longleftrightarrow>
     (case phase w of
        (st, t, timer) \<Rightarrow> st = 0 \<or> (1 \<le> st \<and> st \<le> 12 \<and> 0 \<le> t \<and> t < limit st \<and> timer \<and> ww_has_wedding w))"

text \<open>Only characters of the map have asked for a wedding, and only where there is a priest can one talk to it.\<close>

definition static_ok :: "wworld \<Rightarrow> bool" where
  "static_ok w \<longleftrightarrow> (ww_has_wedding w \<longrightarrow> wd_requests (ww_wedding w) \<subseteq> set (ww_here w))
     \<and> (\<forall>i\<in>set (ww_here w). ch_npc_type (wc_chr (ww_chars w i)) = ENF_Priest \<longrightarrow> ww_has_wedding w)"

definition wedding_ok :: "wworld \<Rightarrow> bool" where
  "wedding_ok w \<longleftrightarrow> phase_ok w \<and> static_ok w"

lemma static_ok_eq: "static w' = static w \<Longrightarrow> static_ok w' = static_ok w"
  using static_eqD [of w' w] by (simp add: static_ok_def)

lemma phase_okD:
  "phase_ok w \<Longrightarrow> busy w \<Longrightarrow> 1 \<le> wd_state (ww_wedding w) \<and> wd_state (ww_wedding w) \<le> 12
    \<and> 0 \<le> wd_tick (ww_wedding w) \<and> wd_tick (ww_wedding w) < limit (wd_state (ww_wedding w)) \<and> wd_timer (ww_wedding w)
    \<and> ww_has_wedding w"
  by (auto simp: phase_ok_def phase_def busy_def)

lemma limit_pos: "1 \<le> st \<Longrightarrow> st \<le> 12 \<Longrightarrow> 1 \<le> limit st"
  by (elim states_12) (simp_all add: limit_simps)

lemma moved_ok: "phase_ok w \<Longrightarrow> busy w \<Longrightarrow> moved w w' \<Longrightarrow> phase_ok w'"
  using phase_okD [of w] limit_pos [of "wd_state (ww_wedding w) + 1"] static_eqD [of w' w]
  by (auto simp: moved_def phase_ok_def Let_def)

lemma stayed_ok: "phase_ok w \<Longrightarrow> busy w \<Longrightarrow> stayed w w' \<Longrightarrow> phase_ok w'"
  using phase_okD [of w] static_eqD [of w' w] by (auto simp: stayed_def phase_ok_def)

text \<open>What a ceremony may still take.\<close>

definition from_state :: "int \<Rightarrow> int" where
  "from_state st = sum_list (drop (nat (st - 1)) limits)"

definition time_left :: "wworld \<Rightarrow> nat" where
  "time_left w = (if busy w then nat (from_state (wd_state (ww_wedding w)) - wd_tick (ww_wedding w)) else 0)"

lemma from_state_next: "1 \<le> st \<Longrightarrow> st \<le> 12 \<Longrightarrow> from_state st = limit st + from_state (st + 1)"
  by (elim states_12) (simp_all add: from_state_def limits_def limit_simps)

lemma from_state_nonneg: "0 \<le> from_state st"
  by (auto simp: from_state_def limits_def intro!: sum_list_nonneg dest!: in_set_dropD)

lemma moved_time_left:
  assumes "phase_ok w" "busy w" "moved w w'"
  shows "time_left w' + 1 \<le> time_left w"
proof -
  have rem: "time_left w = nat (from_state (wd_state (ww_wedding w)) - wd_tick (ww_wedding w))"
    and next_from: "from_state (wd_state (ww_wedding w)) = limit (wd_state (ww_wedding w)) + from_state (wd_state (ww_wedding w) + 1)"
    using phase_okD [OF assms(1,2)] assms(2) by (simp_all add: time_left_def from_state_next)
  then have "1 \<le> time_left w" "nat (from_state (wd_state (ww_wedding w) + 1)) + 1 \<le> time_left w"
    using phase_okD [OF assms(1,2)] from_state_nonneg [of "wd_state (ww_wedding w) + 1"] by linarith+
  then show ?thesis
    using assms(3) phase_okD [OF assms(1,2)] by (auto simp: moved_def time_left_def busy_def phase_def Let_def)
qed

lemma stayed_time_left:
  assumes "phase_ok w" "busy w" "stayed w w'"
  shows "time_left w' + 1 \<le> time_left w"
  using assms phase_okD [OF assms(1,2)] from_state_next [of "wd_state (ww_wedding w)"]
    from_state_nonneg [of "wd_state (ww_wedding w) + 1"]
  by (auto simp: stayed_def time_left_def busy_def phase_def)

section \<open>Effects of the events\<close>

text \<open>A step beside the ceremony: nobody gets married by it.\<close>

definition quiet :: "wworld \<Rightarrow> wworld \<Rightarrow> bool" where
  "quiet w w' \<longleftrightarrow> phase w' = phase w \<and> spouses w' = spouses w \<and> wname w' = wname w
     \<and> ww_has_wedding w' = ww_has_wedding w \<and> (\<forall>c. marriages w' c = marriages w c \<or> marriages w' c = [])"

text \<open>The start of a ceremony, which fails when one of the three is missing.\<close>

definition started :: "string \<Rightarrow> string \<Rightarrow> wworld \<Rightarrow> wworld \<Rightarrow> bool" where
  "started n1 n2 w w' \<longleftrightarrow> static w' = static w \<and> marriages w' = marriages w
     \<and> (phase w' = (0, 0, True) \<or> phase w' = (1, 1, True) \<and> spouses w' = (n1, n2))"

lemma quiet_refl [simp]: "quiet w w"
  by (simp add: quiet_def)

lemma quiet_news [simp]: "quiet w (news ns w') \<longleftrightarrow> quiet w w'"
  by (simp add: quiet_def wedding_simps static_eqD [of "news ns w'" w'])

lemma started_wedding:
  assumes "\<not> busy w"
  shows "\<exists>w'. start_wedding S n1 n2 w = Some (w', True) \<and> started n1 n2 w w'"
proof -
  let ?w = "set_wedding (\<lambda>d. d\<lparr>wd_partner1 := n1, wd_partner2 := n2\<rparr>) w"
  have idle: "wd_state (ww_wedding w) = 0" using assms by (simp add: busy_def)
  have w: "static ?w = static w" "phase ?w = phase w" "spouses ?w = (n1, n2)" "marriages ?w = marriages w"
    by (simp_all add: static_def phase_def spouses_def marriages_def set_wedding_def wname_def fun_eq_iff)
  then obtain w1 where w1: "next_state S ?w = Some w1" "moved ?w w1"
    using next_state_moves [of ?w S] idle by (auto simp: phase_def)
  have "\<exists>w2. wedding_tick S w1 = Some w2 \<and> started n1 n2 w (start_timer w2)"
  proof (cases "wd_state (ww_wedding w1) = 0")
    case True
    then have "wedding_tick S w1 = Some (stop_timer w1)" by (simp add: wedding_tick_def)
    moreover have "static w1 = static w" "phase w1 = (0, 0, False)" "marriages w1 = marriages w"
      using w1(2) w True idle by (auto simp: moved_def phase_def Let_def)
    moreover have "wd_state (ww_wedding w1) = 0" "wd_tick (ww_wedding w1) = 0"
      using \<open>phase w1 = (0, 0, False)\<close> by (simp_all add: phase_def)
    ultimately show ?thesis by (simp add: started_def wedding_simps)
  next
    case False
    let ?ns = "map (\<lambda>i. Sent (mk_message i PACKET_JUKEBOX PACKET_PLAYER [fchar (wf_WeddingMusic S)])) (ww_here w1)"
    have w1': "wd_state (ww_wedding w1) = 1" "wd_tick (ww_wedding w1) = 0" "static w1 = static w"
      "spouses w1 = (n1, n2)" "marriages w1 = marriages w"
      using w1(2) w False idle by (auto simp: moved_def phase_def Let_def)
    then have "wedding_tick S w1 = Some (news ?ns (ticked w1))"
      by (simp add: wedding_tick_def ticked_def [symmetric] wedding_simps tick_later_def Let_def)
    then show ?thesis using w1' by (simp add: started_def wedding_simps)
  qed
  then show ?thesis using w1(1) idle by (auto simp: start_wedding_def)
qed

lemma accept_effect:
  assumes "wedding_ok w"
  shows "\<exists>w'. priest_accept S i w = Some w' \<and>
    (static w' = static w \<and> quiet w w'
     \<or> \<not> busy w \<and> ww_has_wedding w \<and> (\<exists>p\<in>wd_requests (ww_wedding w). started (wname w p) (wname w i) w w'))"
proof (cases "busy w")
  case True
  then have "0 < wd_state (ww_wedding w)" using phase_okD [of w] assms by (simp add: wedding_ok_def)
  then show ?thesis using True
    by (auto simp: priest_accept_def start_wedding_def Let_def wedding_simps split: option.split)
next
  case False
  show ?thesis
  proof (cases "wc_partner (ww_chars w i) \<noteq> [] \<or> \<not> ww_has_wedding w")
    case True
    then show ?thesis by (auto simp: priest_accept_def)
  next
    case wedding: False
    show ?thesis
    proof (cases "\<exists>p. world_character (wc_fiance (ww_chars w i)) w = Some p \<and> p \<in> set (ww_here w) \<and> requested_wedding p w")
      case True
      then obtain p where p: "world_character (wc_fiance (ww_chars w i)) w = Some p" "p \<in> set (ww_here w)"
        "requested_wedding p w" by blast
      obtain w' where "start_wedding S (wname w p) (wname w i) w = Some (w', True)" "started (wname w p) (wname w i) w w'"
        using started_wedding [OF False] by blast
      then show ?thesis using wedding False p
        by (auto simp: priest_accept_def requested_wedding_def)
    next
      case no: False
      then show ?thesis using wedding False
        by (auto simp: priest_accept_def wedding_simps split: option.split)
    qed
  qed
qed

lemma i_do_effect:
  assumes "wedding_ok w"
  shows "\<exists>w'. priest_use S i w = Some w' \<and>
    (w' = w \<or> busy w \<and> moved w w'
       \<and> (wd_state (ww_wedding w) = 4 \<and> wname w i = wd_partner1 (ww_wedding w)
          \<or> wd_state (ww_wedding w) = 6 \<and> wname w i = wd_partner2 (ww_wedding w)))"
proof -
  have "busy w \<Longrightarrow> \<exists>w'. next_state S w = Some w' \<and> moved w w'"
    using next_state_moves [of w S] phase_okD [of w] assms by (auto simp: wedding_ok_def)
  moreover have "wd_state (ww_wedding w) = n \<Longrightarrow> n \<noteq> 0 \<Longrightarrow> busy w" for n by (simp add: busy_def)
  ultimately show ?thesis by (auto simp: priest_use_def i_do_def Let_def)
qed

lemma timer_effect:
  assumes "wedding_ok w"
  shows "\<exists>w'. wedding_step S Timer w = Some w' \<and>
    (if busy w then timed w w' \<or> stayed w w'
     else static w' = static w \<and> marriages w' = marriages w \<and> \<not> busy w')"
proof (cases "busy w")
  case True
  then show ?thesis using tick_moves [of w S] phase_okD [of w] assms by (auto simp: wedding_ok_def)
next
  case False
  then have "wedding_tick S w = Some (stop_timer w)" by (simp add: wedding_tick_def busy_def)
  then show ?thesis using False by (simp add: wedding_simps busy_def)
qed

text \<open>The numbers of the configuration are numbers.\<close>

definition conf_ok :: "'d wconf \<Rightarrow> bool" where
  "conf_ok S \<longleftrightarrow> to_int (wf_fp S) (wf_WeddingMinLevel S) \<noteq> None
     \<and> list_all (\<lambda>part. to_int (wf_fp S) part \<noteq> None) (explode CHR '','' (wf_WeddingOutfitMale S))
     \<and> list_all (\<lambda>part. to_int (wf_fp S) part \<noteq> None) (explode CHR '','' (wf_WeddingOutfitFemale S))"

lemma listed_number_defined: "list_all (\<lambda>part. to_int f part \<noteq> None) parts \<Longrightarrow> listed_number f n parts \<noteq> None"
  by (induction parts) auto

lemma is_dressed_defined: "conf_ok S \<Longrightarrow> is_dressed S c \<noteq> None"
  by (simp add: is_dressed_def conf_ok_def Let_def listed_number_defined del: not_None_eq)

lemma set_wchar_wname: "(\<And>c. ch_name (wc_chr (f c)) = ch_name (wc_chr c)) \<Longrightarrow> wname (set_wchar i f w) = wname w"
  by (simp add: wname_def set_wchar_def fun_eq_iff)

lemma quiet_set_wchar:
  assumes "quiet w w'" "\<And>c. ch_name (wc_chr (f c)) = ch_name (wc_chr c)" "\<And>c. wc_partner (f c) = wc_partner c \<or> wc_partner (f c) = []"
  shows "quiet w (set_wchar i f w')"
proof -
  have "marriages (set_wchar i f w') c = marriages w' c \<or> marriages (set_wchar i f w') c = []" for c
    using assms(3) by (simp add: marriages_def set_wchar_def)
  moreover have "phase (set_wchar i f w') = phase w'" "spouses (set_wchar i f w') = spouses w'"
    "ww_has_wedding (set_wchar i f w') = ww_has_wedding w'"
    by (simp_all add: phase_def spouses_def set_wchar_def)
  ultimately show ?thesis using assms(1) set_wchar_wname [of f i w', OF assms(2)] unfolding quiet_def by metis
qed

lemma static_ok_news [simp]: "static_ok (news ns w) = static_ok w"
  by (rule static_ok_eq) (simp add: wedding_simps)

lemma static_ok_set_wchar:
  assumes "static_ok w" "ch_npc_type (wc_chr (f (ww_chars w i))) = ENF_Priest \<Longrightarrow>
      ch_npc_type (wc_chr (ww_chars w i)) = ENF_Priest \<or> ww_has_wedding w"
  shows "static_ok (set_wchar i f w)"
  using assms by (auto simp: static_ok_def set_wchar_def)

lemma request_effect:
  assumes "conf_ok S" "wedding_ok w" "i \<in> set (ww_here w)"
  shows "\<exists>w'. priest_request S i name w = Some w' \<and> quiet w w' \<and> static_ok w'
    \<and> wd_requests (ww_wedding w') \<subseteq> insert i (wd_requests (ww_wedding w))"
proof -
  define P where "P w' \<longleftrightarrow> quiet w w' \<and> static_ok w' \<and> wd_requests (ww_wedding w') \<subseteq> insert i (wd_requests (ww_wedding w))" for w'
  define w1 where "w1 = (if busy w then news [priest_reply i 5] w else w)"
  have P0: "P w" using assms(2) by (auto simp: P_def wedding_ok_def)
  have P1: "P (news ns w1)" for ns using assms(2) by (auto simp: P_def w1_def wedding_ok_def wedding_simps)
  have w1: "quiet w w1" "static_ok w1" "ww_wedding w1 = ww_wedding w" "ww_here w1 = ww_here w"
    using assms(2) by (simp_all add: w1_def wedding_ok_def wedding_simps)
  have "quiet w (request_wedding i w1)" "static_ok (request_wedding i w1)"
    "wd_requests (ww_wedding (request_wedding i w1)) = insert i (wd_requests (ww_wedding w))"
    using w1 assms(3) by (auto simp: quiet_def static_ok_def request_wedding_def set_wedding_def phase_def spouses_def
        marriages_def wname_def fun_eq_iff)
  then have P2: "P (news ns (request_wedding i w1))" for ns by (simp add: P_def wedding_simps)
  have "ch_npc_type (wc_chr (ww_chars w i)) = ENF_Priest \<Longrightarrow> ww_has_wedding w"
    using assms(2,3) by (auto simp: wedding_ok_def static_ok_def)
  moreover obtain dressed where dressed: "\<And>c. is_dressed S c = Some (dressed c)"
  proof
    show "is_dressed S c = Some (the (is_dressed S c))" for c using is_dressed_defined [OF assms(1), of c] by auto
  qed
  moreover obtain l where "to_int (wf_fp S) (wf_WeddingMinLevel S) = Some l" using assms(1) by (auto simp: conf_ok_def)
  ultimately have "\<exists>w'. priest_request S i name w = Some w' \<and> P w'"
    unfolding priest_request_def Let_def w1_def [symmetric]
    by (simp add: P0 P1 P2 split: option.split bool.split)
  then show ?thesis by (simp add: P_def)
qed

inductive effect :: "wworld \<Rightarrow> wevent \<Rightarrow> wworld \<Rightarrow> bool" where
  beside: "quiet w w' \<Longrightarrow> e \<noteq> Timer \<Longrightarrow> effect w e w'"
| idle: "\<not> busy w \<Longrightarrow> static w' = static w \<Longrightarrow> marriages w' = marriages w \<Longrightarrow> \<not> busy w' \<Longrightarrow> effect w Timer w'"
| stay: "busy w \<Longrightarrow> stayed w w' \<Longrightarrow> effect w Timer w'"
| timed: "busy w \<Longrightarrow> timed w w' \<Longrightarrow> effect w Timer w'"
| vow: "busy w \<Longrightarrow> moved w w' \<Longrightarrow>
    wd_state (ww_wedding w) = 4 \<and> wname w i = wd_partner1 (ww_wedding w)
    \<or> wd_state (ww_wedding w) = 6 \<and> wname w i = wd_partner2 (ww_wedding w) \<Longrightarrow> effect w (I_Do i) w'"
| start: "\<not> busy w \<Longrightarrow> p \<in> wd_requests (ww_wedding w) \<Longrightarrow> ww_has_wedding w \<Longrightarrow>
    started (wname w p) (wname w i) w w' \<Longrightarrow> effect w (Accept i) w'"

inductive_cases effect_cases: "effect w e w'"

text \<open>Who has asked after an event.\<close>

definition asked :: "wworld \<Rightarrow> wevent \<Rightarrow> wworld \<Rightarrow> bool" where
  "asked w e w' \<longleftrightarrow>
     (\<forall>i\<in>wd_requests (ww_wedding w'). i \<in> wd_requests (ww_wedding w) \<or> (\<exists>name. e = Request i name))"

lemma asked_static: "static w' = static w \<Longrightarrow> asked w e w'"
  using static_eqD [of w' w] by (simp add: asked_def)

lemma requests_set_wchar [simp]: "wd_requests (ww_wedding (set_wchar i f w)) = wd_requests (ww_wedding w)"
  by (simp add: set_wchar_def)

lemma open_quiet:
  assumes "static_ok w"
  shows "quiet w (priest_open i n w) \<and> static_ok (priest_open i n w) \<and> asked w e (priest_open i n w)"
    and "quiet w (marriage_open i n w) \<and> static_ok (marriage_open i n w) \<and> asked w e (marriage_open i n w)"
  using assms by (auto simp: priest_open_def marriage_open_def asked_def wedding_simps intro!: quiet_set_wchar
      static_ok_set_wchar split: option.split)

lemma del_item_npc [simp]: "ch_npc_type (fst (del_item g i n c)) = ch_npc_type c"
  by (rule del_item_frame)

lemma pay_keeps:
  assumes "quiet w w'" "static_ok w'" "asked w e w'"
  shows "quiet w (pay S i n w')" "static_ok (pay S i n w')" "asked w e (pay S i n w')"
  using assms by (auto simp: pay_def asked_def intro!: quiet_set_wchar static_ok_set_wchar)

lemma law_quiet:
  assumes "static_ok w"
  shows "quiet w (marriage_request S i t name w) \<and> static_ok (marriage_request S i t name w)
    \<and> asked w e (marriage_request S i t name w)"
proof -
  define P where "P w' \<longleftrightarrow> quiet w w' \<and> static_ok w' \<and> asked w e w'" for w'
  have P0: "P w" using assms by (simp add: P_def asked_def)
  have news: "P (news ns w')" if "P w'" for ns w' using that by (simp add: P_def asked_def wedding_simps)
  have pay: "P (pay S i n w')" if "P w'" for n w' using that by (auto simp: P_def intro!: pay_keeps)
  have set: "P (set_wchar j f w')" if "P w'" "f = (\<lambda>c. c\<lparr>wc_partner := []\<rparr>) \<or> f = (\<lambda>c. c\<lparr>wc_fiance := s\<rparr>)" for j f w' s
    using that by (auto simp: P_def asked_def intro!: quiet_set_wchar static_ok_set_wchar)
  have fiance: "P (set_wchar j (\<lambda>c. c\<lparr>wc_fiance := s\<rparr>) w')" if "P w'" for j w' s using set [OF that] by blast
  have partner: "P (set_wchar j (\<lambda>c. c\<lparr>wc_partner := []\<rparr>) w')" if "P w'" for j w' using set [OF that] by blast
  have "P (marriage_approval S i n w)" for n
    by (auto simp: marriage_approval_def paid_def Let_def intro!: news P0 fiance pay)
  moreover have "P (divorce S i n w)" for n
    by (auto simp: divorce_def paid_def Let_def intro!: news P0 partner pay split: option.split)
  ultimately have "P (marriage_request S i t name w)" using P0 by (simp add: marriage_request_def Let_def)
  then show ?thesis by (simp add: P_def)
qed

lemma crowd_quiet:
  assumes "static_ok w"
  shows "i \<notin> set (ww_here w) \<Longrightarrow> ch_npc_type (wc_chr (ww_chars w i)) \<noteq> ENF_Priest \<Longrightarrow>
      quiet w (wmap_enter i w) \<and> static_ok (wmap_enter i w) \<and> asked w e (wmap_enter i w)"
    and "quiet w (wmap_leave i w) \<and> static_ok (wmap_leave i w) \<and> asked w e (wmap_leave i w)"
  using assms by (auto simp: wmap_enter_def wmap_leave_def cancel_wedding_request_def set_wedding_def quiet_def
      static_ok_def asked_def phase_def spouses_def marriages_def wname_def fun_eq_iff)

lemma others_quiet:
  assumes "static_ok w" "may_happen w (Others i c)"
  shows "quiet w (set_wchar i (\<lambda>d. d\<lparr>wc_chr := c\<rparr>) w) \<and> static_ok (set_wchar i (\<lambda>d. d\<lparr>wc_chr := c\<rparr>) w)
    \<and> asked w e (set_wchar i (\<lambda>d. d\<lparr>wc_chr := c\<rparr>) w)"
  using assms by (auto simp: set_wchar_def quiet_def static_ok_def asked_def phase_def spouses_def marriages_def wname_def
      fun_eq_iff)

lemma moved_static: "moved w w' \<Longrightarrow> static w' = static w"
  by (simp add: moved_def)

lemma static_effect: "static w' = static w \<Longrightarrow> static_ok w \<Longrightarrow> static_ok w' \<and> asked w e w'"
  using static_ok_eq asked_static by blast

lemma step_effect:
  assumes "conf_ok S" "wedding_ok w" "may_happen w e"
  shows "\<exists>w'. wedding_step S e w = Some w' \<and> effect w e w' \<and> static_ok w' \<and> asked w e w'"
proof (cases e)
  case Timer
  obtain w' where w': "wedding_step S Timer w = Some w'" "if busy w then timed w w' \<or> stayed w w'
      else static w' = static w \<and> marriages w' = marriages w \<and> \<not> busy w'"
    using timer_effect [OF assms(2)] by blast
  then have "static w' = static w" "effect w Timer w'"
    by (auto simp: timed_def stayed_def dest: moved_static split: if_splits intro: effect.intros)
  then show ?thesis using Timer w' assms(2) static_effect by (auto simp: wedding_ok_def)
next
  case (Accept i)
  obtain w' where w': "priest_accept S i w = Some w'" "static w' = static w \<and> quiet w w'
      \<or> \<not> busy w \<and> ww_has_wedding w \<and> (\<exists>p\<in>wd_requests (ww_wedding w). started (wname w p) (wname w i) w w')"
    using accept_effect [OF assms(2)] by blast
  then have "static w' = static w" "effect w (Accept i) w'" by (auto simp: started_def intro: effect.intros)
  then show ?thesis using Accept w' assms(2) static_effect by (auto simp: wedding_ok_def)
next
  case (Request i name)
  from request_effect [OF assms(1,2), of i name] assms(3) show ?thesis
    by (auto simp: Request asked_def intro: effect.intros)
next
  case (I_Do i)
  obtain w' where w': "priest_use S i w = Some w'" "w' = w \<or> busy w \<and> moved w w'
      \<and> (wd_state (ww_wedding w) = 4 \<and> wname w i = wd_partner1 (ww_wedding w)
         \<or> wd_state (ww_wedding w) = 6 \<and> wname w i = wd_partner2 (ww_wedding w))"
    using i_do_effect [OF assms(2)] by blast
  then have "static w' = static w" "effect w (I_Do i) w'" by (auto dest: moved_static intro: effect.intros)
  then show ?thesis using I_Do w' assms(2) static_effect by (auto simp: wedding_ok_def)
next
  case (Open_Priest i n)
  then show ?thesis using open_quiet [of w i n e] assms(2) by (auto simp: wedding_ok_def intro: effect.intros)
next
  case (Open_Law i n)
  then show ?thesis using open_quiet [of w i n e] assms(2) by (auto simp: wedding_ok_def intro: effect.intros)
next
  case (Law_Request i t name)
  then show ?thesis using law_quiet [of w S i t name e] assms(2) by (auto simp: wedding_ok_def intro: effect.intros)
next
  case (Enter_Map i)
  then show ?thesis using crowd_quiet(1) [of w i e] assms(2,3) by (auto simp: wedding_ok_def intro: effect.intros)
next
  case (Leave_Map i)
  then show ?thesis using crowd_quiet(2) [of w i e] assms(2) by (auto simp: wedding_ok_def intro: effect.intros)
next
  case (Others i c)
  then show ?thesis using others_quiet [of w i c e] assms(2,3) by (auto simp: wedding_ok_def intro: effect.intros)
qed

section \<open>Runs that come to rest\<close>

text \<open>A run: events that may happen, one after the other.\<close>

fun run_all :: "('e \<Rightarrow> 's \<Rightarrow> 's option) \<Rightarrow> ('s \<Rightarrow> 'e \<Rightarrow> bool) \<Rightarrow> 's \<Rightarrow> 'e list \<Rightarrow> 's \<Rightarrow> bool" where
  "run_all step allowed s [] s' \<longleftrightarrow> s' = s"
| "run_all step allowed s (e # es) s' \<longleftrightarrow>
     allowed s e \<and> (case step e s of None \<Rightarrow> False | Some t \<Rightarrow> run_all step allowed t es s')"

lemma run_all_append:
  "run_all step allowed s (es @ es') s'' \<longleftrightarrow>
     (\<exists>s'. run_all step allowed s es s' \<and> run_all step allowed s' es' s'')"
  by (induction es arbitrary: s) (auto split: option.split)

text \<open>Machines with a bound on the ticks of a clock that they may still use while they are busy.\<close>

locale countdown =
  fixes step :: "'e \<Rightarrow> 's \<Rightarrow> 's option"
    and allowed :: "'s \<Rightarrow> 'e \<Rightarrow> bool"
    and ok :: "'s \<Rightarrow> bool"
    and working :: "'s \<Rightarrow> bool"
    and left :: "'s \<Rightarrow> nat"
    and counts :: "'e \<Rightarrow> bool"
  assumes step_ok: "ok s \<Longrightarrow> allowed s e \<Longrightarrow> \<exists>s'. step e s = Some s' \<and> ok s'"
    and step_left: "ok s \<Longrightarrow> working s \<Longrightarrow> allowed s e \<Longrightarrow> step e s = Some s' \<Longrightarrow>
      left s' + (if counts e then 1 else 0) \<le> left s"
begin

lemma run_ok: "ok s \<Longrightarrow> run_all step allowed s es s' \<Longrightarrow> ok s'"
proof (induction es arbitrary: s)
  case (Cons e es)
  then show ?case using step_ok [of s e] by (auto split: option.splits)
qed simp

lemma comes_to_rest:
  "ok s \<Longrightarrow> run_all step allowed s es s' \<Longrightarrow> left s < length (filter counts es) \<Longrightarrow>
    \<exists>es1 es2 t. es = es1 @ es2 \<and> run_all step allowed s es1 t \<and> \<not> working t"
proof (induction es arbitrary: s)
  case (Cons e es)
  show ?case
  proof (cases "working s")
    case False
    then show ?thesis by (intro exI [of _ "[]"] exI [of _ "e # es"] exI [of _ s]) simp
  next
    case True
    obtain t where t: "allowed s e" "step e s = Some t" "run_all step allowed t es s'"
      using Cons.prems(2) by (auto split: option.splits)
    have "ok t" using step_ok [OF Cons.prems(1) t(1)] t(2) by auto
    moreover have "left t < length (filter counts es)"
      using step_left [OF Cons.prems(1) True t(1,2)] Cons.prems(3) by (auto split: if_splits)
    ultimately obtain es1 es2 u where "es = es1 @ es2" "run_all step allowed t es1 u" "\<not> working u"
      using Cons.IH t(3) by blast
    then show ?thesis using t by (intro exI [of _ "e # es1"] exI [of _ es2] exI [of _ u]) simp
  qed
qed simp

end

abbreviation wedding_run :: "'d wconf \<Rightarrow> wworld \<Rightarrow> wevent list \<Rightarrow> wworld \<Rightarrow> bool" where
  "wedding_run S \<equiv> run_all (wedding_step S) may_happen"

lemma quiet_phase_ok: "quiet w w' \<Longrightarrow> phase_ok w' = phase_ok w"
  by (simp add: quiet_def phase_ok_def)

lemma effect_ok:
  assumes "phase_ok w" "effect w e w'"
  shows "phase_ok w'"
  using assms(2)
proof cases
  case idle
  then show ?thesis by (auto simp: phase_ok_def busy_phase)
next
  case timed
  then show ?thesis using moved_ok [OF assms(1)] by (auto simp: timed_def)
next
  case (start p i)
  then show ?thesis using static_eqD [of w' w] by (auto simp: started_def phase_ok_def limit_simps)
qed (use assms(1) stayed_ok moved_ok quiet_phase_ok in blast)+

lemma effect_time_left:
  assumes "phase_ok w" "busy w" "effect w e w'"
  shows "time_left w' + (if e = Timer then 1 else 0) \<le> time_left w"
  using assms(3)
proof cases
  case beside
  then have "time_left w' = time_left w" by (simp add: time_left_def quiet_def busy_def phase_def)
  then show ?thesis using beside by simp
next
  case timed
  then show ?thesis using moved_time_left [OF assms(1,2)] by (auto simp: timed_def)
next
  case (vow i)
  then show ?thesis using moved_time_left [OF assms(1,2)] by fastforce
qed (use assms(2) stayed_time_left [OF assms(1,2)] in auto)

interpretation ceremony: countdown "wedding_step S" may_happen "\<lambda>w. conf_ok S \<and> wedding_ok w" busy time_left
  "\<lambda>e. e = Timer" for S
proof
  fix w e
  assume ok: "conf_ok S \<and> wedding_ok w" and e: "may_happen w e"
  obtain w' where w': "wedding_step S e w = Some w'" "effect w e w'" "static_ok w'"
    using step_effect [OF _ _ e, of S] ok by blast
  then show "\<exists>w'. wedding_step S e w = Some w' \<and> conf_ok S \<and> wedding_ok w'"
    using ok effect_ok by (auto simp: wedding_ok_def)
next
  fix w e w'
  assume "conf_ok S \<and> wedding_ok w" "busy w" "may_happen w e" "wedding_step S e w = Some w'"
  moreover from this have "effect w e w'" using step_effect [of S w e] by auto
  ultimately show "time_left w' + (if e = Timer then 1 else 0) \<le> time_left w"
    using effect_time_left by (simp add: wedding_ok_def)
qed

section \<open>Properties\<close>

text \<open>A map before its wedding is loaded: nobody on it talks to a priest.\<close>

definition unloaded :: "wworld \<Rightarrow> bool" where
  "unloaded w \<longleftrightarrow> \<not> ww_has_wedding w \<and> \<not> busy w
     \<and> list_all (\<lambda>i. ch_npc_type (wc_chr (ww_chars w i)) \<noteq> ENF_Priest) (ww_here w)"

lemma unloaded_ok: "unloaded w \<Longrightarrow> wedding_ok (load_wedding w)"
  by (auto simp: unloaded_def load_wedding_def wedding_ok_def phase_ok_def phase_def busy_def static_ok_def
      new_wedding_def list_all_iff split: option.split)

lemma time_left_bound: "phase_ok w \<Longrightarrow> time_left w \<le> 89"
  using phase_okD [of w]
  by (cases "busy w") (auto simp: time_left_def from_state_def limits_def elim!: states_12)

text \<open>No packet of the priest, the registrar or a character that comes or goes, in whatever order, and no tick
  of the clock uses a null pointer in a ceremony; the characters that the wedding remembers as having asked are
  all on the map; and while a ceremony goes on its clock runs.\<close>

theorem weddings_never_dangle:
  assumes "conf_ok S" "unloaded w0" "wedding_run S (load_wedding w0) es w" "may_happen w e"
  shows "wedding_step S e w \<noteq> None \<and> (ww_has_wedding w \<longrightarrow> wd_requests (ww_wedding w) \<subseteq> set (ww_here w))
    \<and> (busy w \<longrightarrow> wd_timer (ww_wedding w))"
proof -
  have ok: "wedding_ok w" using ceremony.run_ok [OF _ assms(3)] assms(1) unloaded_ok [OF assms(2)] by simp
  then show ?thesis
    using ceremony.step_ok [of S w e] assms(1,4) phase_okD [of w] by (auto simp: wedding_ok_def static_ok_def)
qed

text \<open>Every ceremony ends: whatever the players do meanwhile, within 90 ticks of its clock (of one and a half
  seconds each) there is a moment at which the priest is free.\<close>

theorem ceremonies_end:
  assumes "conf_ok S" "unloaded w0" "wedding_run S (load_wedding w0) es w" "wedding_run S w es' w'"
    "90 \<le> length (filter (\<lambda>e. e = Timer) es')"
  shows "\<exists>es1 es2 w1. es' = es1 @ es2 \<and> wedding_run S w es1 w1 \<and> \<not> busy w1"
proof -
  have "wedding_ok w" using ceremony.run_ok [OF _ assms(3)] assms(1) unloaded_ok [OF assms(2)] by simp
  then show ?thesis
    using ceremony.comes_to_rest [OF _ assms(4)] time_left_bound [of w] assms(1,5) by (simp add: wedding_ok_def)
qed

section \<open>Vows\<close>

text \<open>What has happened by the time a ceremony is in a state.\<close>

definition acts :: "int \<Rightarrow> nat \<Rightarrow> nat \<Rightarrow> string \<Rightarrow> wevent list" where
  "acts st c d name = [Request c name, Accept d] @ (if 5 \<le> st then [I_Do c] else []) @ (if 7 \<le> st then [I_Do d] else [])"

definition courtship :: "wevent list \<Rightarrow> nat \<Rightarrow> nat \<Rightarrow> bool" where
  "courtship es c d \<longleftrightarrow> (\<exists>name. subseq [Request c name, Accept d, I_Do c, I_Do d] es)"

definition history :: "wworld \<Rightarrow> wevent list \<Rightarrow> wworld \<Rightarrow> bool" where
  "history w0 es w \<longleftrightarrow>
     wname w = wname w0
     \<and> (ww_has_wedding w \<longrightarrow> (\<forall>r\<in>wd_requests (ww_wedding w). \<exists>name. Request r name \<in> set es))
     \<and> (busy w \<longrightarrow> (\<exists>c d name. spouses w = (wname w c, wname w d) \<and> subseq (acts (wd_state (ww_wedding w)) c d name) es))
     \<and> (\<forall>c. marriages w c = marriages w0 c \<or> marriages w c = []
          \<or> (\<exists>d. marriages w c = wname w d \<and> (courtship es c d \<or> courtship es d c)))"

lemma subseq_snoc: "subseq xs es \<Longrightarrow> subseq xs (es @ [e])" "subseq xs es \<Longrightarrow> subseq (xs @ [e]) (es @ [e])"
  by (auto intro: list_emb_append_mono subseq_order.trans)

lemma courtship_snoc: "courtship es c d \<Longrightarrow> courtship (es @ [e]) c d"
  unfolding courtship_def by (meson subseq_snoc)

lemma request_accept: "x \<in> set es \<Longrightarrow> subseq [x, y] (es @ [y])"
  using subseq_snoc(2) [of "[x]" es y] by (simp add: subseq_singleton_left)

text \<open>Names are lower case and tell characters apart.\<close>

definition names_ok :: "wworld \<Rightarrow> bool" where
  "names_ok w \<longleftrightarrow> inj (wname w) \<and> (\<forall>i. lowercase (wname w i) = wname w i)"

lemma partner_is:
  assumes "names_ok w" "spouses w = (wname w c, wname w d)"
  shows "get_partner1 w = Some p \<Longrightarrow> p = c" "get_partner2 w = Some p \<Longrightarrow> p = d"
  using assms by (auto simp: get_partner1_def get_partner2_def map_character_def spouses_def names_ok_def find_Some_iff
      dest: injD)

lemma history_kept:
  assumes "history w0 es w" "ww_has_wedding w' = ww_has_wedding w" "wname w' = wname w" "asked w e w'"
    and "busy w' \<Longrightarrow> \<exists>c d name. spouses w' = (wname w c, wname w d) \<and> subseq (acts (wd_state (ww_wedding w')) c d name) (es @ [e])"
    and "\<And>c. marriages w' c = marriages w c \<or> marriages w' c = []
          \<or> (\<exists>d. marriages w' c = wname w d \<and> (courtship (es @ [e]) c d \<or> courtship (es @ [e]) d c))"
  shows "history w0 (es @ [e]) w'"
proof -
  have "\<exists>name. Request r name \<in> set (es @ [e])" if "ww_has_wedding w'" "r \<in> wd_requests (ww_wedding w')" for r
    using assms(1,2,4) that by (fastforce simp: history_def asked_def)
  moreover have "marriages w' c = marriages w0 c \<or> marriages w' c = []
      \<or> (\<exists>d. marriages w' c = wname w' d \<and> (courtship (es @ [e]) c d \<or> courtship (es @ [e]) d c))" for c
    using assms(1,3) assms(6) [of c] courtship_snoc [of es _ _ e] unfolding history_def by metis
  ultimately show ?thesis using assms(1,3,5) unfolding history_def by metis
qed

lemma history_moved:
  assumes "history w0 es w" "names_ok w" "busy w" "moved w w'" "asked w e w'"
    and "spouses w = (wname w c, wname w d)"
    and "subseq (acts (wd_state (ww_wedding w)) c d name) es"
    and "busy w' \<Longrightarrow> subseq (acts (wd_state (ww_wedding w) + 1) c d name) (es @ [e])"
  shows "history w0 (es @ [e]) w'"
proof (rule history_kept [OF assms(1) _ _ assms(5)])
  show "ww_has_wedding w' = ww_has_wedding w" "wname w' = wname w"
    using static_eqD [OF moved_static [OF assms(4)]] by simp_all
next
  assume "busy w'"
  then show "\<exists>c d name. spouses w' = (wname w c, wname w d) \<and> subseq (acts (wd_state (ww_wedding w')) c d name) (es @ [e])"
    using assms(4,6,8) by (auto simp: moved_def busy_phase phase_def Let_def)
next
  fix a
  show "marriages w' a = marriages w a \<or> marriages w' a = []
      \<or> (\<exists>d. marriages w' a = wname w d \<and> (courtship (es @ [e]) a d \<or> courtship (es @ [e]) d a))"
  proof (cases "wd_state (ww_wedding w) = 7 \<and> marriages w' \<noteq> marriages w")
    case True
    then obtain p1 p2 where p: "get_partner1 w = Some p1" "get_partner2 w = Some p2"
      "marriages w' = (marriages w)(p1 := wname w p2, p2 := wname w p1)"
      using assms(4) by (auto simp: moved_def Let_def)
    then have "p1 = c" "p2 = d" using partner_is [OF assms(2,6)] by simp_all
    moreover have "courtship es c d" using assms(7) True by (auto simp: courtship_def acts_def)
    ultimately show ?thesis using p(3) courtship_snoc by auto
  next
    case False
    then show ?thesis using assms(4) by (auto simp: moved_def Let_def split: if_splits)
  qed
qed

lemma history_step:
  assumes "history w0 es w" "names_ok w" "effect w e w'" "asked w e w'"
  shows "history w0 (es @ [e]) w'"
proof -
  have keep: "spouses w = (wname w c, wname w d) \<and> subseq (acts st c d name) (es @ [e])"
    if "spouses w = (wname w c, wname w d)" "subseq (acts st c d name) es" for c d st name
    using that subseq_snoc(1) by blast
  have acts: "\<exists>c d name. spouses w = (wname w c, wname w d) \<and> subseq (acts (wd_state (ww_wedding w)) c d name) es" if "busy w"
    using assms(1) that unfolding history_def by blast
  from assms(3) show ?thesis
  proof cases
    case beside
    then show ?thesis
      by (intro history_kept [OF assms(1) _ _ assms(4)])
        (use acts subseq_snoc(1) in \<open>auto simp: quiet_def busy_def phase_def\<close>)
  next
    case idle
    then show ?thesis using static_eqD [of w' w] by (intro history_kept [OF assms(1) _ _ assms(4)]) auto
  next
    case stay
    then show ?thesis using static_eqD [of w' w]
      by (intro history_kept [OF assms(1) _ _ assms(4)])
        (use acts subseq_snoc(1) in \<open>auto simp: stayed_def busy_def phase_def\<close>)
  next
    case timed
    then obtain c d name where c: "spouses w = (wname w c, wname w d)" "subseq (acts (wd_state (ww_wedding w)) c d name) es"
      using acts by blast
    moreover have "busy w' \<Longrightarrow> acts (wd_state (ww_wedding w) + 1) c d name = acts (wd_state (ww_wedding w)) c d name"
      using timed by (auto simp: timed_def acts_def)
    ultimately show ?thesis
      using timed subseq_snoc(1) by (intro history_moved [OF assms(1,2) _ _ assms(4) c]) (simp_all add: timed_def)
  next
    case (vow i)
    then obtain c d name where c: "spouses w = (wname w c, wname w d)" "subseq (acts (wd_state (ww_wedding w)) c d name) es"
      using acts by blast
    have "wd_state (ww_wedding w) = 4 \<and> i = c \<or> wd_state (ww_wedding w) = 6 \<and> i = d"
      using vow(4) c(1) assms(2) by (auto simp: spouses_def names_ok_def dest: injD)
    then have "acts (wd_state (ww_wedding w) + 1) c d name = acts (wd_state (ww_wedding w)) c d name @ [I_Do i]"
      by (auto simp: acts_def)
    then show ?thesis
      using vow c(2) subseq_snoc(2) by (intro history_moved [OF assms(1,2) _ _ assms(4) c]) simp_all
  next
    case (start p i)
    then obtain name where "Request p name \<in> set es" using assms(1) by (auto simp: history_def)
    then have "subseq [Request p name, Accept i] (es @ [Accept i])" by (rule request_accept)
    then show ?thesis using start static_eqD [of w' w]
      by (intro history_kept [OF assms(1) _ _ assms(4)])
        (auto simp: started_def busy_phase phase_def acts_def)
  qed
qed

lemma unloaded_history: "unloaded w0 \<Longrightarrow> history w0 [] (load_wedding w0)"
  by (auto simp: unloaded_def load_wedding_def history_def new_wedding_def busy_def wname_def marriages_def fun_eq_iff
      split: option.split)

lemma run_history:
  assumes "conf_ok S" "unloaded w0" "names_ok w0"
  shows "wedding_run S (load_wedding w0) es w \<Longrightarrow> history w0 es w"
proof (induction es arbitrary: w rule: rev_induct)
  case Nil
  then show ?case using unloaded_history [OF assms(2)] by simp
next
  case (snoc e es)
  then obtain w1 where w1: "wedding_run S (load_wedding w0) es w1" "may_happen w1 e" "wedding_step S e w1 = Some w"
    by (auto simp: run_all_append split: option.splits)
  then have ok: "wedding_ok w1" "history w0 es w1"
    using ceremony.run_ok [OF _ w1(1)] assms(1) unloaded_ok [OF assms(2)] snoc.IH by simp_all
  moreover have "names_ok w1" using ok(2) assms(3) by (simp add: history_def names_ok_def)
  ultimately show ?case using step_effect [OF assms(1) ok(1) w1(2)] w1(3) history_step by auto
qed

text \<open>Nobody gets married without a courtship: whoever is married at some time but was not so before has
  asked for the wedding, the other has accepted it, then the first has said I do, and then the other, in this
  order, or the other way round.\<close>

theorem marriage_needs_vows:
  assumes "conf_ok S" "unloaded w0" "names_ok w0" "wedding_run S (load_wedding w0) es w"
    "marriages w c \<noteq> []" "marriages w c \<noteq> marriages w0 c"
  shows "\<exists>d name. marriages w c = wname w d
    \<and> (subseq [Request c name, Accept d, I_Do c, I_Do d] es \<or> subseq [Request d name, Accept c, I_Do d, I_Do c] es)"
  using run_history [OF assms(1-4)] assms(5,6) unfolding history_def courtship_def by blast

section \<open>The price\<close>

lemma del_item_owned:
  assumes "inventory_ok c" "0 < n"
  shows "owned (fst (del_item g item n c)) = (owned c)(item := max 0 (owned c item - n))"
proof (cases "n \<le> owned c item")
  case True
  then show ?thesis using del_item_spec [OF assms] by simp
next
  case False
  then show ?thesis using assms
    by (cases "find_stack item (ch_inventory c)")
      (use owned_find [OF assms(1), of item] in \<open>auto simp: del_item_def owned_def amount_of_erase fun_eq_iff\<close>)
qed

text \<open>A permit to marry is granted to whoever owns a single piece of gold, whatever its price: the price is
  taken as far as the gold goes.\<close>

theorem permit_for_a_coin:
  assumes "ww_chars w me = c" "ch_npc_type (wc_chr c) = ENF_Law" "wc_partner c = []" "inventory_ok (wc_chr c)"
    "valid_name (lowercase name)" "0 < wf_MarriagePrice S" "0 < owned (wc_chr c) 1"
  defines "c' \<equiv> ww_chars (marriage_request S me 1 name w) me"
  shows "wc_fiance c' = lowercase name
    \<and> owned (wc_chr c') = (owned (wc_chr c))(1 := max 0 (owned (wc_chr c) 1 - wf_MarriagePrice S))"
proof -
  have "has_item 1 True (wc_chr c) = owned (wc_chr c) 1" using assms(4) by (simp add: has_item_owned)
  then show ?thesis
    using assms(1-7) unfolding c'_def
    by (simp add: marriage_request_def marriage_approval_def paid_def pay_def news_def set_wchar_def u8_def
        del_item_owned Let_def)
qed

section \<open>A small world\<close>

definition sample_wconf :: "int wconf" where
  "sample_wconf = \<lparr>wf_fp = int_fp, wf_game = sample_game, wf_WeddingRing = 3, wf_WeddingMusic = 40,
     wf_WeddingMinLevel = ''0'', wf_WeddingOutfitMale = ''0'', wf_WeddingOutfitFemale = ''0'',
     wf_MarriagePrice = 1000, wf_DivorcePrice = 1000\<rparr>"

definition sample_wname :: "nat \<Rightarrow> string" where
  "sample_wname i = replicate (i + 4) CHR ''a''"

definition sample_wchar :: "nat \<Rightarrow> wchar" where
  "sample_wchar i = \<lparr>wc_chr = (sample_chr [(1, 5000)])\<lparr>ch_name := sample_wname i\<rparr>, wc_partner = [], wc_fiance = []\<rparr>"

definition sample_npc :: "int \<Rightarrow> npc_type \<Rightarrow> npc" where
  "sample_npc i t = \<lparr>np_index = i, np_id = 10 + i, np_type = t, np_shop_name = [], np_shop_trade = [], np_shop_craft = []\<rparr>"

definition sample_church :: wworld where
  "sample_church = \<lparr>ww_chars = sample_wchar, ww_online = [0, 1, 2], ww_here = [0, 1, 2],
     ww_npcs = [sample_npc 1 ENF_Law, sample_npc 2 ENF_Priest], ww_has_wedding = False, ww_wedding = new_wedding 0,
     ww_news = []\<rparr>"

lemma weddings_never_dangle_witness:
  "wedding_step sample_wconf (Request 0 (sample_wname 1)) (load_wedding sample_church) \<noteq> None"
proof -
  have "conf_ok sample_wconf" by code_simp
  moreover have "unloaded sample_church"
    by (simp add: unloaded_def busy_def sample_church_def new_wedding_def sample_wchar_def sample_chr_def)
  moreover have "may_happen (load_wedding sample_church) (Request 0 (sample_wname 1))"
    by (simp add: load_wedding_def sample_church_def sample_npc_def)
  ultimately show ?thesis
    using weddings_never_dangle [of sample_wconf sample_church "[]" "load_wedding sample_church"]
    by (metis run_all.simps(1))
qed

lemma permit_for_a_coin_witness:
  "wc_fiance (ww_chars (marriage_request sample_wconf 0 1 (sample_wname 1)
      (sample_church\<lparr>ww_chars := sample_wchar(0 := (sample_wchar 0)\<lparr>wc_chr := (sample_chr [(1, 1)])\<lparr>ch_npc_type := ENF_Law\<rparr>\<rparr>)\<rparr>)) 0)
    = sample_wname 1"
proof -
  have "lowercase (sample_wname 1) = sample_wname 1" "valid_name (lowercase (sample_wname 1))" by code_simp+
  then show ?thesis
    by (subst permit_for_a_coin [THEN conjunct1, OF refl])
      (simp_all add: sample_wchar_def sample_wconf_def sample_church_def sample_chr_def inventory_ok_def owned_def int_max_def)
qed

end
