(* ===== verification/Spec2Isabelle.thy ===== *)
theory Spec2Isabelle
  imports EOPlus_Parser_Correct EOClient_Net Config Quest_Store Trade Bank Chest Shop Party Ground Wedding
begin

text \<open>
  EOSERV (the server under \<^verbatim>\<open>src/src\<close>) runs a small online role playing game. A client connection
  (\<^verbatim>\<open>eoclient.cpp\<close>) cuts the byte stream into packets (\<^verbatim>\<open>packet.cpp\<close>); a packet is dispatched to a handler
  (\<^verbatim>\<open>handlers/\<close>), which reads its arguments, checks them against the world and changes characters
  (\<^verbatim>\<open>character.cpp\<close>), maps (\<^verbatim>\<open>map.cpp\<close>), parties and so on, and sends packets to the players concerned.
  Quests are programs in a language of their own, EO+ (\<^verbatim>\<open>eoplus/\<close>). Settings come from configuration
  files (\<^verbatim>\<open>config.cpp\<close>). The theories model these parts as functional programs and prove what makes them
  correct; where the code falls short of that, a theorem says what it does instead.

  \<^bold>\<open>Theories.\<close>

    \<^item> \<^verbatim>\<open>Prelude\<close>: machine integers as reductions of \<open>int\<close> (\<open>s16\<close>, \<open>u8\<close>, \<open>s32\<close> and their ranges),
      lists and options, the C character classes; shared by all.
    \<^item> \<^verbatim>\<open>EOPlus_Types\<close>, \<^verbatim>\<open>EOPlus_Lexer\<close>, \<^verbatim>\<open>EOPlus_Parser\<close>: the EO+ front end (\<^verbatim>\<open>eoplus.hpp\<close>, \<^verbatim>\<open>eoplus/lex.cpp\<close>,
      \<^verbatim>\<open>eoplus/parse.cpp\<close>, \<^verbatim>\<open>util/variant.cpp\<close>). The lexer state is the rest of the input with its position;
      the parser state is the token server with its put-back buffer and line counter. Errors are values
      of a sum type. \<^verbatim>\<open>EOPlus_Lexer_Correct\<close> and \<^verbatim>\<open>EOPlus_Parser_Correct\<close> show that a printed token list
      and a printed quest are read back unchanged, that the lexer returns on every input except the
      one that makes it loop, and what the parser reports for the errors that it misjudges.
    \<^item> \<^verbatim>\<open>Packet\<close>, \<^verbatim>\<open>Packet_IO\<close>, \<^verbatim>\<open>EOClient_Net\<close>: the codec, reader and builder of packets, and the state
      machine that frames the stream, with its sequence numbers. Bytes are \<open>8 word\<close>. Round trips between
      building and reading and between encoding and decoding, reads that stay inside the packet,
      and the refinement of the framing by a reference that cuts the whole stream at once.
    \<^item> \<^verbatim>\<open>Util\<close>, \<^verbatim>\<open>Floating\<close>, \<^verbatim>\<open>RPN\<close>, \<^verbatim>\<open>Config\<close>: string utilities, the reading of numbers over an arithmetic that is a
      parameter, formulas in prefix notation, configuration files with inclusion and the environment.
    \<^item> \<^verbatim>\<open>EOPlus_Context\<close>, \<^verbatim>\<open>Quest\<close>, \<^verbatim>\<open>Quest_Store\<close>: running a quest (\<^verbatim>\<open>eoplus/context.cpp\<close>, \<^verbatim>\<open>quest.cpp\<close>). The virtual functions of
      \<open>Context\<close> are a record of functions, instantiated by the rules and actions of quests; an action is a
      small program that may enter a state, take its context from the character, have the rules checked again
      or gain levels. The model follows one context, that of the only quest of its character; a context that
      the character has given up lives on until the call that uses it is over (\<open>reset_goes_on\<close>). Calls nest
      through the fuel of \<open>exec\<close>: \<open>None\<close> is a call that needs a deeper nesting. A nesting of 101 is enough for
      a quest whose actions stay in their state, which \<open>quiet_quest_returns\<close> shows; for others no nesting
      need be enough (\<open>setstate_twice_never_returns\<close>). A validated quest reads no missing argument, apart from
      the gaps that \<open>validation_gaps\<close> exhibits; counted rules count; the quests of a
      character are stored and read back.
    \<^item> \<^verbatim>\<open>Game\<close>: item and character records, settings, packets sent, lists of item stacks.
      \<^verbatim>\<open>Stock\<close>: the interface of whatever holds items, as locales \<open>stock\<close> (one holder), \<open>transfer\<close>
      (two holders in one state) and \<open>counted_transfer\<close> (a list of stacks moved); a move between two stocks
      conserves every item. The locales are interpreted on the inventory, the bank account, the locker and
      the two sides of a trade.
    \<^item> \<^verbatim>\<open>Serialize\<close>: how inventories, paperdolls and spells are stored as text, and read (\<^verbatim>\<open>character.cpp\<close>).
    \<^item> \<^verbatim>\<open>Inventory\<close>, \<^verbatim>\<open>Trade\<close>, \<^verbatim>\<open>World_Map\<close>, \<^verbatim>\<open>Bank\<close>, \<^verbatim>\<open>Chest\<close>, \<^verbatim>\<open>Shop\<close>: what a character carries and wears
      (\<^verbatim>\<open>character.cpp\<close>), trading between players (\<^verbatim>\<open>handlers/Trade.cpp\<close> and every other place that ends a
      trade), tiles and shop data (\<^verbatim>\<open>map.hpp\<close>, \<^verbatim>\<open>npc_data.hpp\<close>), and the bank, locker, chest and shop packets
      (\<^verbatim>\<open>handlers/Bank.cpp\<close>, \<^verbatim>\<open>Locker.cpp\<close>, \<^verbatim>\<open>Chest.cpp\<close>, \<^verbatim>\<open>Shop.cpp\<close>). Each operation keeps the inventory well formed and
      conserves items or exchanges them exactly; the trade state machine never leaves a trading player with a
      partner that does not point back, whatever else the other handlers change.
    \<^item> \<^verbatim>\<open>Party\<close>: parties, their packets, party chat and shared experience (\<^verbatim>\<open>party.cpp\<close>, \<^verbatim>\<open>handlers/Party.cpp\<close>). Characters
      and parties point to each other; a step relation over events has as its invariant that they fit, and
      what breaks it is a theorem too.
    \<^item> \<^verbatim>\<open>Wedding\<close>: the ceremony of a priest as a state machine with a clock, and the packets of the priest and of
      the registrar (\<^verbatim>\<open>wedding.cpp\<close>, \<^verbatim>\<open>handlers/Priest.cpp\<close>, \<^verbatim>\<open>handlers/Marriage.cpp\<close>). Runs are lists of events; the
      locale \<open>countdown\<close> has a bound on the steps of a clock until something comes to rest and is interpreted
      on the ceremony, which is over within 90 ticks whatever the players do (\<open>ceremonies_end\<close>), uses no null
      pointer (\<open>weddings_never_dangle\<close>) and marries nobody who has not asked or accepted and said so
      (\<open>marriage_needs_vows\<close>).
    \<^item> \<^verbatim>\<open>Ground\<close>: items on the floor of a map, dropping, taking and destroying them (\<^verbatim>\<open>map.cpp\<close>,
      \<^verbatim>\<open>handlers/Item.cpp\<close>).

  \<^bold>\<open>Conventions.\<close> A C++ \<open>int\<close> is an \<open>int\<close>; where a value is stored into a narrower type or may overflow,
  the reduction is written out. Characters live in a map from player ids, which stands for the objects
  and the pointers between them; \<open>None\<close> as the result of a trade step is the use of a null pointer.
  Loops are structural recursions on what they run over; a loop that may not end is a
  \<open>partial_function (option)\<close> whose value \<open>None\<close> is divergence, or takes fuel (\<open>read_config\<close>, nested
  inclusions; \<open>exec\<close>, nested calls of a quest), and its termination is a theorem. The packet handlers are given the values read from
  the packet after the conversions of the declared variables. A change of the inventory has the rules of the
  character's quests checked; \<open>Quest\<close> models that for the actions of quests, the packet handlers are
  modelled for a character without quests (so are the trades, in the middle of which a rule may warp a player
  away).

  \<^bold>\<open>Not modelled.\<close> What a quest does to the other quests of its character, and a quest that it starts anew
  after giving it up; the quest dialogs. Sockets, threads, timers and the database layer (input and output only), the console
  and the HTTP client; reading the binary pub and map files; the movement and fighting of NPCs and the
  rest of \<^verbatim>\<open>map.cpp\<close>, which depend on random numbers and floating point throughout; the commands of
  administrators; the account and login handlers, which mostly issue database queries. \<^verbatim>\<open>references/\<close> is a copy of another
  code base kept for comparison, not part of the program, and \<^verbatim>\<open>tu/\<close> only includes the other files.
\<close>

end
